(* ===== verification/Prelude.thy ===== *)
theory Prelude
  imports Main "HOL-Library.Multiset" "HOL-Library.Word"
begin

text \<open>
  Shared vocabulary of the development: the result type of fallible operations and its
  bind, the named collections the component proofs use, and facts about lists,
  multisets and words that several components need.
\<close>

named_theorems result_simps \<open>equations of the result type\<close>
named_theorems heap_simps \<open>multiset and size equations of the priority queue operations\<close>
named_theorems frame_simps \<open>fields an operation leaves alone\<close>

subsection \<open>Results\<close>

text \<open>
  An operation that can throw, or that the C++ text leaves undefined on some input,
  returns \<open>Inl\<close> of an error or \<open>Inr\<close> of a value; \<open>bindE\<close> sequences two of them and
  stops at the first error, as an exception does.
\<close>

type_synonym ('e, 'a) result = "'e + 'a"

fun bindE :: "('e, 'a) result \<Rightarrow> ('a \<Rightarrow> ('e, 'b) result) \<Rightarrow> ('e, 'b) result" where
  "bindE (Inl e) f = Inl e"
| "bindE (Inr x) f = f x"

lemma bindE_cong [fundef_cong]:
  assumes "m = m'" and "\<And>x. m' = Inr x \<Longrightarrow> f x = g x"
  shows "bindE m f = bindE m' g"
  using assms by (cases m') auto

lemma bindE_Inr_iff [result_simps]:
  "bindE m f = Inr y \<longleftrightarrow> (\<exists>x. m = Inr x \<and> f x = Inr y)"
  by (cases m) auto

lemma bindE_Inl_iff [result_simps]:
  "bindE m f = Inl e \<longleftrightarrow> m = Inl e \<or> (\<exists>x. m = Inr x \<and> f x = Inl e)"
  by (cases m) auto

lemma bindE_InrE [elim]:
  assumes "bindE m f = Inr y"
  obtains x where "m = Inr x" and "f x = Inr y"
  using assms by (auto simp: result_simps)

definition guardE :: "bool \<Rightarrow> 'e \<Rightarrow> ('e, unit) result" where
  "guardE ok e = (if ok then Inr () else Inl e)"

lemma guardE_simps [simp]:
  "guardE True e = Inr ()"
  "guardE False e = Inl e"
  "(guardE ok e = Inr u) = ok"
  by (simp_all add: guardE_def)

text \<open>A loop over a list whose body can fail.\<close>

fun foldE :: "('s \<Rightarrow> 'a \<Rightarrow> ('e, 's) result) \<Rightarrow> 's \<Rightarrow> 'a list \<Rightarrow> ('e, 's) result" where
  "foldE f s [] = Inr s"
| "foldE f s (x # xs) = bindE (f s x) (\<lambda>s'. foldE f s' xs)"

lemma foldE_cong [fundef_cong]:
  assumes "s = s'" and "xs = ys" and "\<And>t x. x \<in> set ys \<Longrightarrow> f t x = g t x"
  shows "foldE f s xs = foldE g s' ys"
proof -
  have "foldE f s' ys = foldE g s' ys"
    using assms(3)
  proof (induction ys arbitrary: s')
    case (Cons y ys)
    then show ?case by (cases "g s' y") auto
  qed simp
  with assms(1,2) show ?thesis by simp
qed

lemma foldE_append:
  "foldE f s (xs @ ys) = bindE (foldE f s xs) (\<lambda>s'. foldE f s' ys)"
proof (induction xs arbitrary: s)
  case (Cons x xs)
  then show ?case by (cases "f s x") auto
qed simp

lemma foldE_invariant:
  assumes "foldE f s xs = Inr s'" and "P s"
    and "\<And>t x t'. x \<in> set xs \<Longrightarrow> P t \<Longrightarrow> f t x = Inr t' \<Longrightarrow> P t'"
  shows "P s'"
  using assms
proof (induction xs arbitrary: s)
  case (Cons x xs)
  from Cons.prems(1) obtain t where t: "f s x = Inr t" "foldE f t xs = Inr s'"
    by auto
  from Cons.prems(2,3) t(1) have "P t" by auto
  with Cons.IH [OF t(2)] Cons.prems(3) show ?case by auto
qed simp

lemma foldE_total:
  assumes "P s" and "\<And>t x. x \<in> set xs \<Longrightarrow> P t \<Longrightarrow> \<exists>t'. f t x = Inr t' \<and> P t'"
  shows "\<exists>s'. foldE f s xs = Inr s' \<and> P s'"
  using assms
proof (induction xs arbitrary: s)
  case (Cons x xs)
  from Cons.prems obtain t where t: "f s x = Inr t" "P t" by (meson list.set_intros(1))
  with Cons.IH [OF t(2)] Cons.prems(2) show ?case by auto
qed simp

text \<open>Loops that count: the invariant may depend on the counter.\<close>

lemma foldE_upt_total:
  assumes "m \<le> n" and "P m s"
    and "\<And>i t. m \<le> i \<Longrightarrow> i < n \<Longrightarrow> P i t \<Longrightarrow> \<exists>t'. f t i = Inr t' \<and> P (Suc i) t'"
  shows "\<exists>s'. foldE f s [m..<n] = Inr s' \<and> P n s'"
  using assms
proof (induction n rule: dec_induct)
  case (step n)
  then obtain t where t: "foldE f s [m..<n] = Inr t" "P n t" by auto
  moreover obtain t' where "f t n = Inr t'" "P (Suc n) t'" using step.prems(2) [of n t] step.hyps t(2) by auto
  ultimately show ?case using step.hyps by (simp add: foldE_append)
qed simp

lemma foldE_upt_invariant:
  assumes "foldE f s [m..<n] = Inr s'" and "m \<le> n" and "P m s"
    and "\<And>i t t'. m \<le> i \<Longrightarrow> i < n \<Longrightarrow> P i t \<Longrightarrow> f t i = Inr t' \<Longrightarrow> P (Suc i) t'"
  shows "P n s'"
  using assms(2,1,3,4)
proof (induction n arbitrary: s' rule: dec_induct)
  case (step n)
  then obtain t where "foldE f s [m..<n] = Inr t" "f t n = Inr s'"
    by (auto simp: foldE_append bindE_Inr_iff)
  with step show ?case by (meson lessI less_SucI)
qed simp

text \<open>
  \<open>safeE A P m\<close>: \<open>m\<close> fails only with an error of \<open>A\<close>, and what it returns satisfies \<open>P\<close>. With
  \<open>A\<close> empty it says that \<open>m\<close> returns.
\<close>

definition safeE :: "'e set \<Rightarrow> ('a \<Rightarrow> bool) \<Rightarrow> ('e, 'a) result \<Rightarrow> bool" where
  "safeE A P m = (case m of Inl e \<Rightarrow> e \<in> A | Inr x \<Rightarrow> P x)"

lemma safeE_simps [simp]:
  "safeE A P (Inl e) \<longleftrightarrow> e \<in> A"
  "safeE A P (Inr x) \<longleftrightarrow> P x"
  by (simp_all add: safeE_def)

lemma safeE_empty: "safeE {} P m \<longleftrightarrow> (\<exists>x. m = Inr x \<and> P x)"
  by (cases m) simp_all

lemma safeE_Inr: "m = Inr x \<Longrightarrow> P x \<Longrightarrow> safeE A P m"
  by simp

lemma safeE_InrD: "safeE A P m \<Longrightarrow> m = Inr x \<Longrightarrow> P x"
  by simp

lemma safeE_bind:
  assumes "safeE A Q m" and "\<And>x. Q x \<Longrightarrow> safeE A P (f x)"
  shows "safeE A P (bindE m f)"
  using assms by (cases m) simp_all

lemma safeE_mono:
  assumes "safeE A Q m" and "\<And>x. Q x \<Longrightarrow> P x"
  shows "safeE A P m"
  using assms by (cases m) simp_all

lemma safeE_fold:
  assumes "P s" and "\<And>t x. x \<in> set xs \<Longrightarrow> P t \<Longrightarrow> safeE A P (f t x)"
  shows "safeE A P (foldE f s xs)"
  using assms
proof (induction xs arbitrary: s)
  case (Cons x xs)
  have "safeE A P (f s x)" using Cons.prems by simp
  then show ?case using Cons by (auto intro: safeE_bind)
qed simp

subsection \<open>Lists and multisets\<close>

lemma mset_update_add:
  assumes "i < length xs"
  shows "mset (xs[i := v]) + {#xs ! i#} = mset xs + {#v#}"
  using assms by (simp add: mset_update)

lemma mset_update_two:
  assumes "i < length xs" and "j < length xs" and "i \<noteq> j"
  shows "mset (xs[i := xs ! j, j := v]) = mset (xs[i := v])"
proof -
  have "mset (xs[i := xs ! j, j := v]) + {#xs ! j#} = mset (xs[i := xs ! j]) + {#v#}"
    using mset_update_add [of j "xs[i := xs ! j]" v] assms by simp
  moreover have "mset (xs[i := xs ! j]) + {#xs ! i#} = mset xs + {#xs ! j#}"
    using mset_update_add [of i xs "xs ! j"] assms by simp
  moreover have "mset (xs[i := v]) + {#xs ! i#} = mset xs + {#v#}"
    using mset_update_add [of i xs v] assms by simp
  ultimately have "mset (xs[i := xs ! j, j := v]) + {#xs ! j#} + {#xs ! i#}
      = mset (xs[i := v]) + {#xs ! j#} + {#xs ! i#}"
    by (metis add.commute add.left_commute)
  then show ?thesis by simp
qed

lemma length_filter_update:
  assumes "i < length xs"
  shows "length (filter P (xs[i := v])) + (if P (xs ! i) then 1 else 0)
    = length (filter P xs) + (if P v then 1 else 0)"
  using assms
proof (induction xs arbitrary: i)
  case (Cons x xs)
  then show ?case by (cases i) auto
qed simp

lemma add_mset_minus_subset: "A \<subseteq># S \<Longrightarrow> add_mset v S - A = add_mset v (S - A)"
  by (auto simp: subset_mset.le_iff_add)

lemma add_mset_minus_swap:
  assumes "A \<subseteq># S" and "t \<in># add_mset v A"
  shows "add_mset v S - (add_mset v A - {#t#}) = add_mset t (S - A)"
proof -
  obtain C where C: "S = A + C" using assms(1) by (auto simp: subset_mset.le_iff_add)
  obtain D where D: "add_mset v A = add_mset t D" using assms(2) by (rule mset_add)
  have "add_mset v S = add_mset t D + C" using C D by (metis union_mset_add_mset_left)
  with D have "add_mset v S - (add_mset v A - {#t#}) = (add_mset t D + C) - D" by simp
  then show ?thesis using C by simp
qed

lemma minus_remove_one:
  assumes "A \<subseteq># S" and "t \<in># A"
  shows "S - (A - {#t#}) = add_mset t (S - A)"
proof -
  obtain D where D: "A = add_mset t D" using assms(2) by (rule mset_add)
  obtain C where "S = A + C" using assms(1) by (auto simp: subset_mset.le_iff_add)
  with D show ?thesis by simp
qed

lemma nth_update_other [simp]: "i \<noteq> j \<Longrightarrow> xs[i := v] ! j = xs ! j"
  by simp

end
