(* ===== verification/Visited_List.thy ===== *)
theory Visited_List
  imports Prelude
begin

text \<open>
  \<open>hnswlib/visited_list_pool.h\<close>: the visited arrays a graph search marks nodes in, and
  the pool they are taken from and returned to.

  A visited array is never cleared between searches. Each search gets a new 16-bit tag
  instead, and a node counts as visited when its entry equals the tag; only when the tag
  wraps around is the array zeroed. The array is allocated uninitialised, so its first
  contents are a parameter (\<open>junk\<close>).

  The pool is shared by all threads; the last section models the threads as a step
  relation over the pool, the lists they hold and the store of the lists.
\<close>

type_synonym vl_type = "16 word"

record visited_list =
  curV :: vl_type
  mass :: "vl_type list"
  numelements :: nat

definition new_VisitedList :: "(nat \<Rightarrow> vl_type) \<Rightarrow> nat \<Rightarrow> visited_list" where
  "new_VisitedList junk numelements1 =
     \<lparr>curV = -1, mass = map junk [0..<numelements1], numelements = numelements1\<rparr>"

definition reset :: "visited_list \<Rightarrow> visited_list" where
  "reset vl =
     (let c = curV vl + 1
      in if c = 0 then vl\<lparr>curV := c + 1, mass := replicate (numelements vl) 0\<rparr>
         else vl\<lparr>curV := c\<rparr>)"

definition mark_visited :: "nat \<Rightarrow> visited_list \<Rightarrow> visited_list" where
  "mark_visited i vl = vl\<lparr>mass := (mass vl)[i := curV vl]\<rparr>"

definition is_visited :: "visited_list \<Rightarrow> nat \<Rightarrow> bool" where
  "is_visited vl i \<longleftrightarrow> mass vl ! i = curV vl"

record visited_list_pool =
  pool :: "visited_list list"
  pool_numelements :: nat

definition new_VisitedListPool :: "(nat \<Rightarrow> vl_type) \<Rightarrow> nat \<Rightarrow> nat \<Rightarrow> visited_list_pool" where
  "new_VisitedListPool junk initmaxpools numelements1 =
     \<lparr>pool = replicate initmaxpools (new_VisitedList junk numelements1), pool_numelements = numelements1\<rparr>"

definition getFreeVisitedList ::
    "(nat \<Rightarrow> vl_type) \<Rightarrow> visited_list_pool \<Rightarrow> visited_list \<times> visited_list_pool" where
  "getFreeVisitedList junk vp =
     (case pool vp of
        [] \<Rightarrow> (reset (new_VisitedList junk (pool_numelements vp)), vp)
      | rez # rest \<Rightarrow> (reset rez, vp\<lparr>pool := rest\<rparr>))"

definition releaseVisitedList :: "visited_list \<Rightarrow> visited_list_pool \<Rightarrow> visited_list_pool" where
  "releaseVisitedList vl vp = vp\<lparr>pool := vl # pool vp\<rparr>"

subsection \<open>Tags are fresh\<close>

text \<open>
  No entry is above the current tag. An uninitialised array satisfies this for the
  initial tag \<open>-1\<close>, the largest value of the type.
\<close>

definition vl_ok :: "nat \<Rightarrow> visited_list \<Rightarrow> bool" where
  "vl_ok n vl \<longleftrightarrow> numelements vl = n \<and> length (mass vl) = n \<and> (\<forall>x\<in>set (mass vl). x \<le> curV vl)"

definition pool_ok :: "nat \<Rightarrow> visited_list_pool \<Rightarrow> bool" where
  "pool_ok n vp \<longleftrightarrow> pool_numelements vp = n \<and> (\<forall>vl\<in>set (pool vp). vl_ok n vl)"

lemma word16_max: "(x :: vl_type) \<le> - 1"
  by simp

lemma vl_ok_new [simp]: "vl_ok n (new_VisitedList junk n)"
  by (simp add: vl_ok_def new_VisitedList_def)

lemma less_add_one_word:
  fixes c :: vl_type
  assumes "c + 1 \<noteq> 0" and "x \<le> c"
  shows "x < c + 1"
proof -
  have "unat c + 1 < 2 ^ 16"
  proof (rule ccontr)
    assume "\<not> ?thesis"
    then have "unat c = 2 ^ 16 - 1" using unsigned_less [of c, where ?'a = nat] by simp
    then have "c = of_nat (2 ^ 16 - 1)" by (metis of_nat_unat ucast_id)
    then have "c + 1 = 0" by simp
    with assms(1) show False by simp
  qed
  then have "unat (c + 1) = unat c + 1" by (simp add: unat_word_ariths)
  with assms(2) show ?thesis by (simp add: word_less_nat_alt word_le_nat_alt)
qed

lemma reset_ok:
  assumes "vl_ok n vl"
  shows "vl_ok n (reset vl)" and "\<forall>x\<in>set (mass (reset vl)). x < curV (reset vl)"
proof -
  have *: "numelements (reset vl) = n \<and> length (mass (reset vl)) = n
      \<and> (\<forall>x\<in>set (mass (reset vl)). x < curV (reset vl))"
  proof (cases "curV vl + 1 = 0")
    case True
    then show ?thesis using assms by (auto simp: reset_def vl_ok_def)
  next
    case False
    then show ?thesis
      using assms less_add_one_word [OF False] by (auto simp: reset_def vl_ok_def)
  qed
  then show "vl_ok n (reset vl)" by (auto simp: vl_ok_def intro: less_imp_le)
  from * show "\<forall>x\<in>set (mass (reset vl)). x < curV (reset vl)" by blast
qed

lemma mark_visited_ok:
  assumes "vl_ok n vl"
  shows "vl_ok n (mark_visited i vl)"
  using assms set_update_subset_insert [of "mass vl" i "curV vl"]
  by (auto simp: vl_ok_def mark_visited_def)

lemma is_visited_mark:
  "j < length (mass vl) \<Longrightarrow> is_visited (mark_visited i vl) j \<longleftrightarrow> j = i \<or> is_visited vl j"
  by (cases "i = j") (auto simp: is_visited_def mark_visited_def)

lemma mark_visited_frame [simp]:
  "curV (mark_visited i vl) = curV vl"
  "length (mass (mark_visited i vl)) = length (mass vl)"
  "numelements (mark_visited i vl) = numelements vl"
  by (simp_all add: mark_visited_def)

lemma getFreeVisitedList_ok:
  assumes "pool_ok n vp" and "getFreeVisitedList junk vp = (vl, vp')"
  shows "pool_ok n vp'" and "vl_ok n vl" and "\<forall>x\<in>set (mass vl). x < curV vl"
proof -
  obtain vl0 where "vl_ok n vl0" and vl: "vl = reset vl0" and "pool_ok n vp'"
    using assms vl_ok_new by (cases "pool vp") (fastforce simp: getFreeVisitedList_def pool_ok_def)+
  then show "pool_ok n vp'" and "vl_ok n vl" and "\<forall>x\<in>set (mass vl). x < curV vl"
    using reset_ok [OF \<open>vl_ok n vl0\<close>] by simp_all
qed

lemma releaseVisitedList_ok: "pool_ok n vp \<Longrightarrow> vl_ok n vl \<Longrightarrow> pool_ok n (releaseVisitedList vl vp)"
  by (simp add: pool_ok_def releaseVisitedList_def)

lemma new_VisitedListPool_ok [simp]: "pool_ok n (new_VisitedListPool junk k n)"
  by (auto simp: pool_ok_def new_VisitedListPool_def)

text \<open>
  \<^bold>\<open>C28.\<close> A visited list taken from the pool never reports a node as visited: whatever the
  earlier searches left in it, and across the wrap-around of the 16-bit tag, no entry
  equals the new tag. The list has the pool's size and the pool stays well formed.
\<close>

theorem getFreeVisitedList_fresh:
  assumes "pool_ok n vp"
  shows "case getFreeVisitedList junk vp of
      (vl, vp') \<Rightarrow> (\<forall>i<n. \<not> is_visited vl i) \<and> length (mass vl) = n \<and> vl_ok n vl \<and> pool_ok n vp'"
proof (cases "getFreeVisitedList junk vp")
  case (Pair vl vp')
  note ok = getFreeVisitedList_ok [OF assms Pair]
  have len: "length (mass vl) = n" using ok(2) by (simp add: vl_ok_def)
  have "\<not> is_visited vl i" if "i < n" for i
    using bspec [OF ok(3), of "mass vl ! i"] len that by (auto simp: is_visited_def)
  with Pair ok len show ?thesis by simp
qed

theorem getFreeVisitedList_fresh_witness:
  "(let vp = \<lparr>pool = [\<lparr>curV = -1, mass = [7, -1, 0], numelements = 3\<rparr>], pool_numelements = 3\<rparr>
    in case getFreeVisitedList (\<lambda>_. 9) vp of
      (vl, vp') \<Rightarrow> (\<forall>i<3. \<not> is_visited vl i) \<and> curV vl = 1 \<and> mass vl = [0, 0, 0] \<and> pool vp' = [])"
proof -
  let ?vp = "\<lparr>pool = [\<lparr>curV = -1, mass = [7, -1, 0], numelements = 3\<rparr>], pool_numelements = 3\<rparr>"
  have ok: "pool_ok 3 ?vp" by (simp add: pool_ok_def vl_ok_def)
  show ?thesis
    using getFreeVisitedList_fresh [OF ok, of "\<lambda>_. 9"]
    by (simp add: getFreeVisitedList_def reset_def numeral_3_eq_3)
qed

subsection \<open>Searches on several threads\<close>

text \<open>
  The deque holds pointers, so lists have identities: \<open>free\<close> is the deque as a list of
  addresses, \<open>held\<close> the list each thread is searching with, \<open>store\<close> the lists
  themselves and \<open>next_addr\<close> the next address \<open>new\<close> returns. The steps are the ones a
  thread takes while it holds \<open>poolguard\<close> (take a list, or allocate one when the deque is
  empty, followed by its own \<open>reset\<close>; return a list) and the marking of a node in the
  list it holds.
\<close>

record pool_sys =
  free :: "nat list"
  held :: "nat \<Rightarrow> nat option"
  store :: "nat \<Rightarrow> visited_list"
  next_addr :: nat

definition pool_start :: "(nat \<Rightarrow> vl_type) \<Rightarrow> nat \<Rightarrow> nat \<Rightarrow> pool_sys" where
  "pool_start junk initmaxpools n =
     \<lparr>free = rev [0..<initmaxpools], held = (\<lambda>_. None),
      store = (\<lambda>_. new_VisitedList junk n), next_addr = initmaxpools\<rparr>"

inductive pool_step :: "nat \<Rightarrow> pool_sys \<Rightarrow> pool_sys \<Rightarrow> bool" for n where
  take: "held s t = None \<Longrightarrow> free s = a # rest \<Longrightarrow>
    pool_step n s (s\<lparr>free := rest, held := (held s)(t \<mapsto> a), store := (store s)(a := reset (store s a))\<rparr>)"
| alloc: "held s t = None \<Longrightarrow> free s = [] \<Longrightarrow>
    pool_step n s (s\<lparr>held := (held s)(t \<mapsto> next_addr s), next_addr := Suc (next_addr s),
      store := (store s)(next_addr s := reset (new_VisitedList junk n))\<rparr>)"
| mark: "held s t = Some a \<Longrightarrow> i < n \<Longrightarrow>
    pool_step n s (s\<lparr>store := (store s)(a := mark_visited i (store s a))\<rparr>)"
| release: "held s t = Some a \<Longrightarrow>
    pool_step n s (s\<lparr>free := a # free s, held := (held s)(t := None)\<rparr>)"

inductive pool_reachable :: "(nat \<Rightarrow> vl_type) \<Rightarrow> nat \<Rightarrow> nat \<Rightarrow> pool_sys \<Rightarrow> bool" for junk k n where
  start: "pool_reachable junk k n (pool_start junk k n)"
| step: "pool_reachable junk k n s \<Longrightarrow> pool_step n s s' \<Longrightarrow> pool_reachable junk k n s'"

definition pool_inv :: "nat \<Rightarrow> pool_sys \<Rightarrow> bool" where
  "pool_inv n s \<longleftrightarrow> distinct (free s) \<and> (\<forall>a\<in>set (free s). a < next_addr s)
     \<and> (\<forall>t a. held s t = Some a \<longrightarrow> a < next_addr s \<and> a \<notin> set (free s))
     \<and> (\<forall>t u a. held s t = Some a \<and> held s u = Some a \<longrightarrow> t = u)
     \<and> (\<forall>a. vl_ok n (store s a))"

lemma pool_inv_start: "pool_inv n (pool_start junk k n)"
  by (auto simp: pool_inv_def pool_start_def)

lemma pool_step_inv: "pool_step n s s' \<Longrightarrow> pool_inv n s \<Longrightarrow> pool_inv n s'"
proof (induction rule: pool_step.induct)
  case (take s t a rest)
  then have "vl_ok n (reset (store s a))" by (simp add: pool_inv_def reset_ok)
  with take show ?case unfolding pool_inv_def by (auto split: if_splits)
next
  case (alloc s t junk)
  have "vl_ok n (reset (new_VisitedList junk n))" by (simp add: reset_ok)
  with alloc show ?case unfolding pool_inv_def by (fastforce split: if_splits)
next
  case (mark s t a i)
  then have "vl_ok n (mark_visited i (store s a))" by (simp add: pool_inv_def mark_visited_ok)
  with mark show ?case unfolding pool_inv_def by auto
next
  case (release s t a)
  then show ?case unfolding pool_inv_def by (fastforce split: if_splits)
qed

lemma pool_reachable_inv: "pool_reachable junk k n s \<Longrightarrow> pool_inv n s"
  by (induction rule: pool_reachable.induct) (auto intro: pool_inv_start pool_step_inv)

text \<open>
  \<^bold>\<open>C29.\<close> However the searches of several threads interleave, no two threads ever hold the
  same visited list, no held list is in the pool, and every list in the store keeps the
  freshness invariant.
\<close>

theorem visited_lists_not_shared:
  assumes "pool_reachable junk k n s" and "held s t = Some a" and "held s u = Some b" and "t \<noteq> u"
  shows "a \<noteq> b \<and> a \<notin> set (free s) \<and> vl_ok n (store s a)"
  using pool_reachable_inv [OF assms(1)] assms(2-4) by (auto simp: pool_inv_def)

definition two_searches :: pool_sys where
  "two_searches =
     (let s = pool_start (\<lambda>_. 5) 1 2;
          s1 = s\<lparr>free := [], held := (held s)(0 \<mapsto> 0), store := (store s)(0 := reset (store s 0))\<rparr>
      in s1\<lparr>held := (held s1)(1 \<mapsto> 1), next_addr := 2,
           store := (store s1)(1 := reset (new_VisitedList (\<lambda>_. 5) 2))\<rparr>)"

theorem visited_lists_not_shared_witness:
  "(0::nat) \<noteq> 1 \<and> (0::nat) \<notin> set (free two_searches) \<and> vl_ok 2 (store two_searches 0)"
proof -
  let ?s = "pool_start (\<lambda>_. 5) 1 2"
  let ?s1 = "?s\<lparr>free := [], held := (held ?s)(0 \<mapsto> 0), store := (store ?s)(0 := reset (store ?s 0))\<rparr>"
  have "pool_step 2 ?s ?s1"
    by (rule pool_step.take) (simp_all add: pool_start_def)
  then have r1: "pool_reachable (\<lambda>_. 5) 1 2 ?s1"
    by (rule pool_reachable.step [OF pool_reachable.start])
  have "pool_step 2 ?s1 (?s1\<lparr>held := (held ?s1)(1 \<mapsto> next_addr ?s1), next_addr := Suc (next_addr ?s1),
      store := (store ?s1)(next_addr ?s1 := reset (new_VisitedList (\<lambda>_. 5) 2))\<rparr>)"
    by (rule pool_step.alloc) (simp_all add: pool_start_def)
  then have "pool_step 2 ?s1 two_searches"
    by (simp add: two_searches_def pool_start_def Let_def numeral_2_eq_2)
  then have r2: "pool_reachable (\<lambda>_. 5) 1 2 two_searches"
    by (rule pool_reachable.step [OF r1])
  show ?thesis
    using visited_lists_not_shared [OF r2, of 0 0 1 1]
    by (simp add: two_searches_def pool_start_def Let_def)
qed

end
