(* ===== verification/Simd.thy ===== *)
theory Simd
  imports Prelude
begin

text \<open>
  What the distance kernels use of the vector extensions. A \<open>float *\<close> is the function
  that reads the floats from it (\<open>p i\<close> is \<open>p[i]\<close>), so pointer arithmetic is a shift of
  the index. A vector register is the list of its lanes.

  All operations are written over the syntactic classes of the arithmetic operations
  only, so that the kernels mean what the source says for any arithmetic; the theorems
  that compare two summation orders assume a commutative ring, that is, exact arithmetic.
  The fused multiply-add and the tree reduction of AVX-512, which the compiler provides,
  are parameters of the kernels that use them.
\<close>

type_synonym 'f ptr = "nat \<Rightarrow> 'f"

definition loadu :: "nat \<Rightarrow> 'f ptr \<Rightarrow> nat \<Rightarrow> 'f list" where
  "loadu w p off = map (\<lambda>j. p (off + j)) [0..<w]"

definition vadd :: "'f::plus list \<Rightarrow> 'f list \<Rightarrow> 'f list" where
  "vadd x y = map2 (+) x y"

definition vsub :: "'f::minus list \<Rightarrow> 'f list \<Rightarrow> 'f list" where
  "vsub x y = map2 (-) x y"

definition vmul :: "'f::times list \<Rightarrow> 'f list \<Rightarrow> 'f list" where
  "vmul x y = map2 (*) x y"

definition vfma :: "('f \<Rightarrow> 'f \<Rightarrow> 'f \<Rightarrow> 'f) \<Rightarrow> 'f list \<Rightarrow> 'f list \<Rightarrow> 'f list \<Rightarrow> 'f list" where
  "vfma fma x y z = map2 (\<lambda>(a, b) c. fma a b c) (zip x y) z"

text \<open>\<open>TmpRes[0] + TmpRes[1] + ...\<close>, from left to right.\<close>

definition hadd :: "'f::plus list \<Rightarrow> 'f" where
  "hadd xs = foldl (+) (hd xs) (tl xs)"

lemma length_loadu [simp]: "length (loadu w p off) = w"
  by (simp add: loadu_def)

lemma length_vadd [simp]: "length (vadd x y) = min (length x) (length y)"
  by (simp add: vadd_def)

lemma length_vsub [simp]: "length (vsub x y) = min (length x) (length y)"
  by (simp add: vsub_def)

lemma length_vmul [simp]: "length (vmul x y) = min (length x) (length y)"
  by (simp add: vmul_def)

lemma length_vfma [simp]: "length (vfma fma x y z) = min (min (length x) (length y)) (length z)"
  by (simp add: vfma_def)

lemma foldl_plus: "foldl (+) (x :: 'f::comm_monoid_add) xs = x + sum_list xs"
  by (induction xs arbitrary: x) (simp_all add: add.assoc)

lemma hadd_sum_list: "xs \<noteq> [] \<Longrightarrow> hadd (xs :: 'f::comm_monoid_add list) = sum_list xs"
  by (cases xs) (simp_all add: hadd_def foldl_plus)

lemma sum_list_map2_plus:
  "length x = length y \<Longrightarrow> sum_list (map2 (+) x y) = sum_list x + (sum_list y :: 'f::comm_monoid_add)"
  by (induction x y rule: list_induct2) (simp_all add: ac_simps)

lemma sum_list_vadd:
  "length x = length y \<Longrightarrow> sum_list (vadd x y) = sum_list x + (sum_list y :: 'f::comm_monoid_add)"
  by (simp add: vadd_def sum_list_map2_plus)

lemma sum_list_zeros [simp]: "sum_list (replicate n 0) = (0 :: 'f::comm_monoid_add)"
  by (induction n) simp_all

lemma map2_loadu:
  "map2 f (loadu w p off) (loadu w q off) = map (\<lambda>j. f (p (off + j)) (q (off + j))) [0..<w]"
  by (simp add: loadu_def zip_map_map zip_same_conv_map comp_def map_map)

lemma sum_list_upt_shift:
  fixes g :: "nat \<Rightarrow> 'f::comm_monoid_add"
  shows "sum_list (map (\<lambda>j. g (off + j)) [0..<w]) = (\<Sum>i = off..<off + w. g i)"
proof -
  have "sum_list (map (\<lambda>j. g (off + j)) [0..<w]) = (\<Sum>j = 0..<w. g (off + j))"
    by (simp add: sum_list_distinct_conv_sum_set)
  also have "\<dots> = (\<Sum>i = off..<off + w. g i)"
    using sum.shift_bounds_nat_ivl [of g 0 off w] by (simp add: add.commute)
  finally show ?thesis .
qed

lemma foldl_sum:
  fixes f :: "nat \<Rightarrow> 'f::comm_monoid_add"
  shows "foldl (\<lambda>res i. res + f i) z [m..<n] = z + (\<Sum>i = m..<n. f i)"
proof (cases "m \<le> n")
  case True
  then show ?thesis by (induction n rule: dec_induct) (simp_all add: add.assoc)
qed simp

lemma sum_ivl_join:
  fixes f :: "nat \<Rightarrow> 'f::comm_monoid_add"
  assumes "a \<le> b" and "b \<le> c"
  shows "(\<Sum>i = a..<b. f i) + (\<Sum>i = b..<c. f i) = (\<Sum>i = a..<c. f i)"
  using assms by (rule sum.atLeastLessThan_concat)

subsection \<open>Strided loops\<close>

text \<open>
  \<open>while (p < pEnd) { body; p += stride; }\<close>, with the body's effect on the registers as
  a function of the position.
\<close>

function strided_loop :: "(nat \<Rightarrow> 's \<Rightarrow> 's) \<Rightarrow> nat \<Rightarrow> nat \<Rightarrow> nat \<Rightarrow> 's \<Rightarrow> 's" where
  "strided_loop body stride p e s =
     (if p < e \<and> 0 < stride then strided_loop body stride (p + stride) e (body p s) else s)"
  by pat_completeness auto
termination
  by (relation "measure (\<lambda>(body, stride, p, e, s). e - p)") auto

declare strided_loop.simps [simp del]

lemma strided_loop_stop: "\<not> (p < e \<and> 0 < stride) \<Longrightarrow> strided_loop body stride p e s = s"
  by (subst strided_loop.simps) (simp only: if_False)

lemma strided_loop_step:
  "p < e \<Longrightarrow> 0 < stride \<Longrightarrow> strided_loop body stride p e s = strided_loop body stride (p + stride) e (body p s)"
  by (subst strided_loop.simps) simp

lemma strided_loop_cong:
  assumes "\<And>q s. p \<le> q \<Longrightarrow> q + stride \<le> e \<Longrightarrow> body q s = body' q s" and "stride dvd e - p"
  shows "strided_loop body stride p e s = strided_loop body' stride p e s"
  using assms
proof (induction body stride p e s rule: strided_loop.induct)
  case (1 body stride p e s)
  show ?case
  proof (cases "p < e \<and> 0 < stride")
    case True
    then have le: "p + stride \<le> e" using dvd_imp_le [OF "1.prems"(2)] by linarith
    have "stride dvd e - (p + stride)"
      using "1.prems"(2) le by (metis diff_diff_left dvd_diff_nat dvd_refl)
    with "1.IH" [OF True] "1.prems"(1)
    have "strided_loop body stride (p + stride) e (body p s)
        = strided_loop body' stride (p + stride) e (body p s)"
      by simp
    moreover have "body p s = body' p s" using "1.prems"(1) le by simp
    ultimately show ?thesis
      using True by (simp add: strided_loop_step)
  next
    case False
    then show ?thesis by (metis strided_loop_stop)
  qed
qed

text \<open>
  The contract of a kernel body: on a register of \<open>w\<close> lanes it adds, in total over the
  lanes, the terms of the \<open>stride\<close> positions from \<open>p\<close> on. The loop then adds the terms
  of the whole range.
\<close>

locale lane_kernel =
  fixes t :: "nat \<Rightarrow> 'f::comm_monoid_add"
    and body :: "nat \<Rightarrow> 'f list \<Rightarrow> 'f list"
    and w :: nat
    and stride :: nat
  assumes stride_pos: "0 < stride"
    and body_length: "length s = w \<Longrightarrow> length (body p s) = w"
    and body_sum: "length s = w \<Longrightarrow> sum_list (body p s) = sum_list s + (\<Sum>i = p..<p + stride. t i)"
begin

lemma loop_sum:
  assumes "length s = w" and "p \<le> e" and "stride dvd e - p"
  shows "length (strided_loop body stride p e s) = w
    \<and> sum_list (strided_loop body stride p e s) = sum_list s + (\<Sum>i = p..<e. t i)"
  using assms
proof (induction "e - p" arbitrary: p s rule: less_induct)
  case less
  show ?case
  proof (cases "p < e")
    case True
    then have le: "p + stride \<le> e" using dvd_imp_le [OF less.prems(3)] by linarith
    have dvd: "stride dvd e - (p + stride)"
      using less.prems(3) le by (metis diff_diff_left dvd_diff_nat dvd_refl)
    have "length (strided_loop body stride (p + stride) e (body p s)) = w
      \<and> sum_list (strided_loop body stride (p + stride) e (body p s))
        = sum_list (body p s) + (\<Sum>i = p + stride..<e. t i)"
      by (rule less.hyps) (use True stride_pos less.prems(1) body_length dvd le in auto)
    then show ?thesis
      using True stride_pos le body_sum [OF less.prems(1), of p] sum_ivl_join [of p "p + stride" e t]
      by (simp add: strided_loop_step add.assoc)
  next
    case False
    then show ?thesis using less.prems by (simp add: strided_loop_stop)
  qed
qed

corollary kernel_sum:
  assumes "0 < w" and "stride dvd e"
  shows "hadd (strided_loop body stride 0 e (replicate w 0)) = (\<Sum>i = 0..<e. t i)"
proof -
  let ?r = "strided_loop body stride 0 e (replicate w 0)"
  have "length ?r = w \<and> sum_list ?r = (\<Sum>i = 0..<e. t i)"
    using loop_sum [of "replicate w 0" 0 e] assms(2) by simp
  moreover from this have "?r \<noteq> []" using assms(1) by (metis less_nat_zero_code list.size(3))
  ultimately show ?thesis by (simp add: hadd_sum_list)
qed

end

end
