(* ===== verification/Cpu_Dispatch.thy ===== *)
theory Cpu_Dispatch
  imports Prelude
begin

text \<open>
  \<open>hnswlib/hnswlib.h\<close>, the first part: the build flags and the run-time checks that
  decide which vector kernels may run. The \<open>cpuid\<close> and \<open>xgetbv\<close> instructions are
  parameters: \<open>cpuid leaf subleaf i\<close> is the register \<open>cpuInfo[i]\<close>.
\<close>

unbundle bit_operations_syntax

type_synonym cpuid_fn = "nat \<Rightarrow> nat \<Rightarrow> nat \<Rightarrow> 32 word"

definition AVXCapable :: "cpuid_fn \<Rightarrow> (nat \<Rightarrow> 64 word) \<Rightarrow> bool" where
  "AVXCapable cpuid xgetbv =
     (let nIds = sint (cpuid 0 0 0);
          HW_AVX = (if 1 \<le> nIds then cpuid 1 0 2 AND push_bit 28 1 \<noteq> 0 else False);
          osUsesXSAVE_XRSTORE = (cpuid 1 0 2 AND push_bit 27 1 \<noteq> 0);
          cpuAVXSuport = (cpuid 1 0 2 AND push_bit 28 1 \<noteq> 0);
          avxSupported =
            (if osUsesXSAVE_XRSTORE \<and> cpuAVXSuport then xgetbv 0 AND 0x6 = 0x6 else False)
      in HW_AVX \<and> avxSupported)"

definition AVX512Capable :: "cpuid_fn \<Rightarrow> (nat \<Rightarrow> 64 word) \<Rightarrow> bool" where
  "AVX512Capable cpuid xgetbv =
     (if \<not> AVXCapable cpuid xgetbv then False
      else
       (let nIds = sint (cpuid 0 0 0);
            HW_AVX512F = (if 7 \<le> nIds then cpuid 7 0 1 AND push_bit 16 1 \<noteq> 0 else False);
            osUsesXSAVE_XRSTORE = (cpuid 1 0 2 AND push_bit 27 1 \<noteq> 0);
            cpuAVXSuport = (cpuid 1 0 2 AND push_bit 28 1 \<noteq> 0);
            avx512Supported =
              (if osUsesXSAVE_XRSTORE \<and> cpuAVXSuport then xgetbv 0 AND 0xe6 = 0xe6 else False)
        in HW_AVX512F \<and> avx512Supported))"

text \<open>
  The macros: \<open>USE_AVX512\<close> is defined inside \<open>USE_AVX\<close>, which is defined inside
  \<open>USE_SSE\<close>; \<open>USE_RVV\<close> comes from the command line.
\<close>

record build =
  USE_SSE :: bool
  USE_AVX :: bool
  USE_AVX512 :: bool
  USE_RVV :: bool

definition build_macros :: "bool \<Rightarrow> bool \<Rightarrow> bool \<Rightarrow> bool \<Rightarrow> bool \<Rightarrow> build" where
  "build_macros no_manual_vectorization sse avx avx512f rvv =
     \<lparr>USE_SSE = \<not> no_manual_vectorization \<and> sse,
      USE_AVX = \<not> no_manual_vectorization \<and> sse \<and> avx,
      USE_AVX512 = \<not> no_manual_vectorization \<and> sse \<and> avx \<and> avx512f,
      USE_RVV = rvv\<rparr>"

lemma and_eq_bits:
  fixes x :: "64 word"
  assumes "x AND m = m" and "bit m n"
  shows "bit x n"
  using assms by (metis bit_and_iff)


definition zen4_cpuid :: cpuid_fn where
  "zen4_cpuid leaf sub i =
     (if leaf = 0 \<and> i = 0 then 16 else if leaf = 1 \<and> i = 2 then 0x18000000
      else if leaf = 7 \<and> i = 1 then 0x10000 else 0)"


end
