(* ===== verification/Space_L2.thy ===== *)
theory Space_L2
  imports Simd Cpu_Dispatch
begin

text \<open>
  \<open>hnswlib/space_l2.h\<close>: the squared Euclidean distance, as the plain loop and as the
  SSE, AVX, AVX-512 and RISC-V vector kernels, the byte variants with 32-bit integer
  accumulation, and the two space classes that choose a kernel from the dimension.
\<close>

subsection \<open>The scalar kernel\<close>

definition L2Sqr :: "'f::{zero,plus,minus,times} ptr \<Rightarrow> 'f ptr \<Rightarrow> nat \<Rightarrow> 'f" where
  "L2Sqr pVect1 pVect2 qty =
     foldl (\<lambda>res i. let t = pVect1 i - pVect2 i in res + t * t) 0 [0..<qty]"

subsection \<open>The x86 kernels\<close>

text \<open>One block: load, subtract, square, accumulate.\<close>

definition l2_block :: "nat \<Rightarrow> 'f::{plus,minus,times} ptr \<Rightarrow> 'f ptr \<Rightarrow> nat \<Rightarrow> 'f list \<Rightarrow> 'f list" where
  "l2_block w pVect1 pVect2 p acc =
     (let diff = vsub (loadu w pVect1 p) (loadu w pVect2 p) in vadd acc (vmul diff diff))"

definition L2SqrSIMD16ExtAVX512 :: "'f::{zero,plus,minus,times} ptr \<Rightarrow> 'f ptr \<Rightarrow> nat \<Rightarrow> 'f" where
  "L2SqrSIMD16ExtAVX512 pVect1 pVect2 qty =
     (let pEnd1 = qty div 16 * 16;
          acc = strided_loop (l2_block 16 pVect1 pVect2) 16 0 pEnd1 (replicate 16 0)
      in hadd acc)"

definition L2SqrSIMD16ExtAVX_body :: "'f::{plus,minus,times} ptr \<Rightarrow> 'f ptr \<Rightarrow> nat \<Rightarrow> 'f list \<Rightarrow> 'f list" where
  "L2SqrSIMD16ExtAVX_body pVect1 pVect2 p acc =
     l2_block 8 pVect1 pVect2 (p + 8) (l2_block 8 pVect1 pVect2 p acc)"

definition L2SqrSIMD16ExtAVX :: "'f::{zero,plus,minus,times} ptr \<Rightarrow> 'f ptr \<Rightarrow> nat \<Rightarrow> 'f" where
  "L2SqrSIMD16ExtAVX pVect1 pVect2 qty =
     (let pEnd1 = qty div 16 * 16;
          acc = strided_loop (L2SqrSIMD16ExtAVX_body pVect1 pVect2) 16 0 pEnd1 (replicate 8 0)
      in hadd acc)"

definition L2SqrSIMD16ExtSSE_body :: "'f::{plus,minus,times} ptr \<Rightarrow> 'f ptr \<Rightarrow> nat \<Rightarrow> 'f list \<Rightarrow> 'f list" where
  "L2SqrSIMD16ExtSSE_body pVect1 pVect2 p acc =
     l2_block 4 pVect1 pVect2 (p + 12) (l2_block 4 pVect1 pVect2 (p + 8)
       (l2_block 4 pVect1 pVect2 (p + 4) (l2_block 4 pVect1 pVect2 p acc)))"

definition L2SqrSIMD16ExtSSE :: "'f::{zero,plus,minus,times} ptr \<Rightarrow> 'f ptr \<Rightarrow> nat \<Rightarrow> 'f" where
  "L2SqrSIMD16ExtSSE pVect1 pVect2 qty =
     (let pEnd1 = qty div 16 * 16;
          acc = strided_loop (L2SqrSIMD16ExtSSE_body pVect1 pVect2) 16 0 pEnd1 (replicate 4 0)
      in hadd acc)"

definition L2SqrSIMD4Ext :: "'f::{zero,plus,minus,times} ptr \<Rightarrow> 'f ptr \<Rightarrow> nat \<Rightarrow> 'f" where
  "L2SqrSIMD4Ext pVect1 pVect2 qty =
     (let pEnd1 = qty div 4 * 4;
          acc = strided_loop (l2_block 4 pVect1 pVect2) 4 0 pEnd1 (replicate 4 0)
      in hadd acc)"

text \<open>
  The function pointer \<open>L2SqrSIMD16Ext\<close> starts as the SSE kernel; the space constructors
  redirect it.
\<close>

datatype simd16 = SSE | AVX | AVX512

fun L2SqrSIMD16Ext :: "simd16 \<Rightarrow> 'f::{zero,plus,minus,times} ptr \<Rightarrow> 'f ptr \<Rightarrow> nat \<Rightarrow> 'f" where
  "L2SqrSIMD16Ext SSE = L2SqrSIMD16ExtSSE"
| "L2SqrSIMD16Ext AVX = L2SqrSIMD16ExtAVX"
| "L2SqrSIMD16Ext AVX512 = L2SqrSIMD16ExtAVX512"

definition L2SqrSIMD16ExtResiduals :: "simd16 \<Rightarrow> 'f::{zero,plus,minus,times} ptr \<Rightarrow> 'f ptr \<Rightarrow> nat \<Rightarrow> 'f" where
  "L2SqrSIMD16ExtResiduals ext pVect1v pVect2v qty =
     (let qty16 = qty div 16 * 16;
          res = L2SqrSIMD16Ext ext pVect1v pVect2v qty16;
          qty_left = qty - qty16;
          res_tail = L2Sqr (\<lambda>i. pVect1v (qty16 + i)) (\<lambda>i. pVect2v (qty16 + i)) qty_left
      in res + res_tail)"

definition L2SqrSIMD4ExtResiduals :: "'f::{zero,plus,minus,times} ptr \<Rightarrow> 'f ptr \<Rightarrow> nat \<Rightarrow> 'f" where
  "L2SqrSIMD4ExtResiduals pVect1v pVect2v qty =
     (let qty4 = qty div 4 * 4;
          res = L2SqrSIMD4Ext pVect1v pVect2v qty4;
          qty_left = qty - qty4;
          res_tail = L2Sqr (\<lambda>i. pVect1v (qty4 + i)) (\<lambda>i. pVect2v (qty4 + i)) qty_left
      in res + res_tail)"

subsection \<open>The RISC-V kernel\<close>

text \<open>
  The length-agnostic loop. \<open>vsetvl\<close> is the instruction's answer to a requested length and
  \<open>vlmax\<close> the number of lanes of a register. The accumulator has \<open>vlmax\<close> lanes, of which
  an iteration updates the first \<open>vl\<close>; the intrinsics carry no tail policy, so what the
  other lanes hold afterwards is a parameter \<open>tail\<close>, a function of the old accumulator
  and the lane. \<open>vfredusum\<close> is the unordered reduction. The temporaries are read on their
  active lanes only.

  The loop ends only if \<open>vsetvl\<close> makes progress, so it is a partial function.
\<close>

definition vfadd_vv :: "('f list \<Rightarrow> nat \<Rightarrow> 'f) \<Rightarrow> 'f::plus list \<Rightarrow> 'f list \<Rightarrow> nat \<Rightarrow> 'f list" where
  "vfadd_vv tail x y vl = map (\<lambda>j. if j < vl then x ! j + y ! j else tail x j) [0..<length x]"

partial_function (option) rvv_loop ::
    "(nat \<Rightarrow> nat) \<Rightarrow> ('f list \<Rightarrow> nat \<Rightarrow> 'f) \<Rightarrow> 'f ptr \<Rightarrow> 'f ptr \<Rightarrow> nat \<Rightarrow> nat
      \<Rightarrow> 'f::{plus,minus,times} list \<Rightarrow> 'f list option" where
  "rvv_loop vsetvl tail a b dim i vec_sum_acc =
     (if i < dim
      then let vl = vsetvl (dim - i);
               diff = vsub (loadu vl a i) (loadu vl b i);
               sqr = vmul diff diff
           in rvv_loop vsetvl tail a b dim (i + vl) (vfadd_vv tail vec_sum_acc sqr vl)
      else Some vec_sum_acc)"

definition L2SqrSIMDExtRVV ::
    "(nat \<Rightarrow> nat) \<Rightarrow> nat \<Rightarrow> ('f list \<Rightarrow> nat \<Rightarrow> 'f) \<Rightarrow> ('f list \<Rightarrow> 'f \<Rightarrow> 'f)
      \<Rightarrow> 'f::{zero,plus,minus,times} ptr \<Rightarrow> 'f ptr \<Rightarrow> nat \<Rightarrow> 'f option" where
  "L2SqrSIMDExtRVV vsetvl max_vl tail vfredusum a b dim =
     map_option (\<lambda>vec_sum_acc. vfredusum vec_sum_acc 0)
       (rvv_loop vsetvl tail a b dim 0 (replicate max_vl 0))"

subsection \<open>The byte kernels\<close>

text \<open>
  \<open>unsigned char\<close> operands are promoted to \<open>int\<close>; the accumulator is a 32-bit \<open>int\<close>, here
  a word read as a signed number by \<open>sint\<close>.
\<close>

definition byte_term :: "(nat \<Rightarrow> 8 word) \<Rightarrow> (nat \<Rightarrow> 8 word) \<Rightarrow> nat \<Rightarrow> 32 word" where
  "byte_term a b i = (ucast (a i) - ucast (b i)) * (ucast (a i) - ucast (b i))"

definition L2SqrI4x :: "(nat \<Rightarrow> 8 word) \<Rightarrow> (nat \<Rightarrow> 8 word) \<Rightarrow> nat \<Rightarrow> 32 word" where
  "L2SqrI4x a b qty =
     foldl (\<lambda>res i. res + byte_term a b (4 * i) + byte_term a b (4 * i + 1)
        + byte_term a b (4 * i + 2) + byte_term a b (4 * i + 3)) 0 [0..<qty div 4]"

definition L2SqrI :: "(nat \<Rightarrow> 8 word) \<Rightarrow> (nat \<Rightarrow> 8 word) \<Rightarrow> nat \<Rightarrow> 32 word" where
  "L2SqrI a b qty = foldl (\<lambda>res i. res + byte_term a b i) 0 [0..<qty]"

subsection \<open>The spaces\<close>

text \<open>
  A space records its distance function by name; \<open>call_l2\<close> runs it. A space that takes the
  16-lane kernel copies the function pointer when it is built, whereas the residual kernel
  reads the pointer at each call, so \<open>call_l2\<close> has the current pointer as an argument.
\<close>

datatype l2_func = F_L2Sqr | F_RVV | F_SIMD16 simd16 | F_SIMD4 | F_SIMD16Residuals | F_SIMD4Residuals

record l2_space =
  fstdistfunc :: l2_func
  data_size :: nat
  space_dim :: nat

definition redirect_simd16 :: "build \<Rightarrow> bool \<Rightarrow> bool \<Rightarrow> simd16 \<Rightarrow> simd16" where
  "redirect_simd16 bld avx avx512 ext =
     (if USE_AVX512 bld then (if avx512 then AVX512 else if avx then AVX else ext)
      else if USE_AVX bld then (if avx then AVX else ext)
      else ext)"

definition choose_l2 :: "build \<Rightarrow> simd16 \<Rightarrow> nat \<Rightarrow> l2_func" where
  "choose_l2 bld ext dim =
     (if USE_RVV bld then F_RVV
      else if USE_SSE bld \<or> USE_AVX bld \<or> USE_AVX512 bld then
        (if dim mod 16 = 0 then F_SIMD16 ext
         else if dim mod 4 = 0 then F_SIMD4
         else if 16 < dim then F_SIMD16Residuals
         else if 4 < dim then F_SIMD4Residuals
         else F_L2Sqr)
      else F_L2Sqr)"

definition L2Space :: "build \<Rightarrow> bool \<Rightarrow> bool \<Rightarrow> simd16 \<Rightarrow> nat \<Rightarrow> simd16 \<times> l2_space" where
  "L2Space bld avx avx512 ext dim =
     (let ext' = (if USE_RVV bld then ext else redirect_simd16 bld avx avx512 ext)
      in (ext', \<lparr>fstdistfunc = choose_l2 bld ext' dim, data_size = dim * 4, space_dim = dim\<rparr>))"

fun call_l2 :: "simd16 \<Rightarrow> ('f ptr \<Rightarrow> 'f ptr \<Rightarrow> nat \<Rightarrow> 'f option) \<Rightarrow> l2_func
    \<Rightarrow> 'f::{zero,plus,minus,times} ptr \<Rightarrow> 'f ptr \<Rightarrow> nat \<Rightarrow> 'f option" where
  "call_l2 ext rvv F_L2Sqr a b dim = Some (L2Sqr a b dim)"
| "call_l2 ext rvv F_RVV a b dim = rvv a b dim"
| "call_l2 ext rvv (F_SIMD16 e) a b dim = Some (L2SqrSIMD16Ext e a b dim)"
| "call_l2 ext rvv F_SIMD4 a b dim = Some (L2SqrSIMD4Ext a b dim)"
| "call_l2 ext rvv F_SIMD16Residuals a b dim = Some (L2SqrSIMD16ExtResiduals ext a b dim)"
| "call_l2 ext rvv F_SIMD4Residuals a b dim = Some (L2SqrSIMD4ExtResiduals a b dim)"

datatype l2i_func = F_L2SqrI4x | F_L2SqrI

definition L2SpaceI :: "nat \<Rightarrow> l2i_func \<times> nat \<times> nat" where
  "L2SpaceI dim = (if dim mod 4 = 0 then F_L2SqrI4x else F_L2SqrI, dim, dim * 1)"

fun call_l2i :: "l2i_func \<Rightarrow> (nat \<Rightarrow> 8 word) \<Rightarrow> (nat \<Rightarrow> 8 word) \<Rightarrow> nat \<Rightarrow> 32 word" where
  "call_l2i F_L2SqrI4x = L2SqrI4x"
| "call_l2i F_L2SqrI = L2SqrI"

subsection \<open>Sums of squares\<close>

abbreviation sqr_diff :: "'f::{minus,times} ptr \<Rightarrow> 'f ptr \<Rightarrow> nat \<Rightarrow> 'f" where
  "sqr_diff a b i \<equiv> (a i - b i) * (a i - b i)"

lemma L2Sqr_sum: "L2Sqr a b qty = (\<Sum>i = 0..<qty. sqr_diff a b i :: 'f::comm_ring)"
  by (simp add: L2Sqr_def Let_def foldl_sum)

lemma length_l2_block [simp]: "length s = w \<Longrightarrow> length (l2_block w a b p s) = w"
  by (simp add: l2_block_def Let_def)

lemma sum_l2_block:
  fixes a b :: "'f::comm_ring ptr"
  assumes "length s = w"
  shows "sum_list (l2_block w a b p s) = sum_list s + (\<Sum>i = p..<p + w. sqr_diff a b i)"
proof -
  have "vmul (vsub (loadu w a p) (loadu w b p)) (vsub (loadu w a p) (loadu w b p))
      = map (\<lambda>j. sqr_diff a b (p + j)) [0..<w]"
    unfolding vsub_def vmul_def map2_loadu by (simp add: zip_map_map zip_same_conv_map comp_def)
  then show ?thesis
    using assms sum_list_upt_shift [of "sqr_diff a b" p w]
    by (simp add: l2_block_def Let_def sum_list_vadd)
qed

interpretation l2_512: lane_kernel "sqr_diff a b" "l2_block 16 a b" 16 16
  for a b :: "'f::comm_ring ptr"
  by unfold_locales (simp_all add: sum_l2_block)

interpretation l2_4: lane_kernel "sqr_diff a b" "l2_block 4 a b" 4 4
  for a b :: "'f::comm_ring ptr"
  by unfold_locales (simp_all add: sum_l2_block)

interpretation l2_avx: lane_kernel "sqr_diff a b" "L2SqrSIMD16ExtAVX_body a b" 8 16
  for a b :: "'f::comm_ring ptr"
proof unfold_locales
  fix s :: "'f list" and p
  assume "length s = 8"
  then show "sum_list (L2SqrSIMD16ExtAVX_body a b p s) = sum_list s + (\<Sum>i = p..<p + 16. sqr_diff a b i)"
    using sum_ivl_join [of p "p + 8" "p + 16" "sqr_diff a b"]
    by (simp add: L2SqrSIMD16ExtAVX_body_def sum_l2_block add.assoc)
qed (simp_all add: L2SqrSIMD16ExtAVX_body_def)

interpretation l2_sse: lane_kernel "sqr_diff a b" "L2SqrSIMD16ExtSSE_body a b" 4 16
  for a b :: "'f::comm_ring ptr"
proof unfold_locales
  fix s :: "'f list" and p
  assume "length s = 4"
  then show "sum_list (L2SqrSIMD16ExtSSE_body a b p s) = sum_list s + (\<Sum>i = p..<p + 16. sqr_diff a b i)"
    using sum_ivl_join [of p "p + 4" "p + 8" "sqr_diff a b"] sum_ivl_join [of p "p + 8" "p + 12" "sqr_diff a b"]
      sum_ivl_join [of p "p + 12" "p + 16" "sqr_diff a b"]
    by (simp add: L2SqrSIMD16ExtSSE_body_def sum_l2_block add.assoc)
qed (simp_all add: L2SqrSIMD16ExtSSE_body_def)

lemma L2SqrSIMD16Ext_sum:
  "L2SqrSIMD16Ext ext a b qty = (\<Sum>i = 0..<qty div 16 * 16. sqr_diff a b i :: 'f::comm_ring)"
  by (cases ext)
    (simp_all add: L2SqrSIMD16ExtSSE_def L2SqrSIMD16ExtAVX_def L2SqrSIMD16ExtAVX512_def Let_def
      l2_sse.kernel_sum l2_avx.kernel_sum l2_512.kernel_sum)

lemma L2SqrSIMD4Ext_sum:
  "L2SqrSIMD4Ext a b qty = (\<Sum>i = 0..<qty div 4 * 4. sqr_diff a b i :: 'f::comm_ring)"
  by (simp add: L2SqrSIMD4Ext_def Let_def l2_4.kernel_sum)

lemma L2Sqr_split:
  assumes "m \<le> qty"
  shows "(\<Sum>i = 0..<m. sqr_diff a b i) + L2Sqr (\<lambda>i. a (m + i)) (\<lambda>i. b (m + i)) (qty - m)
    = (L2Sqr a b qty :: 'f::comm_ring)"
proof -
  have "L2Sqr (\<lambda>i. a (m + i)) (\<lambda>i. b (m + i)) (qty - m) = (\<Sum>i = m..<m + (qty - m). sqr_diff a b i)"
    using sum.shift_bounds_nat_ivl [of "sqr_diff a b" 0 m "qty - m"]
    by (simp add: L2Sqr_sum add.commute)
  then show ?thesis
    using assms sum_ivl_join [of 0 m qty "sqr_diff a b"] by (simp add: L2Sqr_sum)
qed

lemma residual_kernels:
  fixes a b :: "'f::comm_ring ptr"
  shows "L2SqrSIMD16ExtResiduals ext a b qty = L2Sqr a b qty"
    and "L2SqrSIMD4ExtResiduals a b qty = L2Sqr a b qty"
proof -
  have "qty div 16 * 16 div 16 * 16 = qty div 16 * 16" "qty div 4 * 4 div 4 * 4 = qty div 4 * 4"
    by simp_all
  then show "L2SqrSIMD16ExtResiduals ext a b qty = L2Sqr a b qty"
    and "L2SqrSIMD4ExtResiduals a b qty = L2Sqr a b qty"
    using L2Sqr_split [of "qty div 16 * 16" qty a b] L2Sqr_split [of "qty div 4 * 4" qty a b]
    by (simp_all add: L2SqrSIMD16ExtResiduals_def L2SqrSIMD4ExtResiduals_def L2SqrSIMD16Ext_sum
        L2SqrSIMD4Ext_sum Let_def)
qed

text \<open>
  Every x86 kernel for arbitrary dimensions computes the scalar distance: the
  16-lane kernel with a scalar tail, whatever instruction set the function pointer
  selects, and the 4-lane kernel with a scalar tail, agree with \<open>L2Sqr\<close> for every
  dimension, in exact arithmetic.
\<close>

theorem L2Sqr_residual_kernels:
  fixes a b :: "'f::comm_ring ptr"
  shows "L2SqrSIMD16ExtResiduals ext a b qty = L2Sqr a b qty
    \<and> L2SqrSIMD4ExtResiduals a b qty = L2Sqr a b qty"
  by (simp add: residual_kernels)


definition x86_avx_build :: build where
  "x86_avx_build = build_macros False True True False False"


subsection \<open>Reads stay inside the vectors\<close>

lemma loadu_cong: "(\<And>i. i < off + w \<Longrightarrow> p i = q i) \<Longrightarrow> loadu w p off = loadu w q off"
  by (simp add: loadu_def)

lemma l2_block_cong:
  assumes "\<And>i. i < p + w \<Longrightarrow> a i = a' i" and "\<And>i. i < p + w \<Longrightarrow> b i = b' i"
  shows "l2_block w a b p s = l2_block w a' b' p s"
  using loadu_cong [of p w a a'] loadu_cong [of p w b b'] assms by (simp add: l2_block_def)

lemma L2Sqr_cong:
  assumes "\<And>i. i < qty \<Longrightarrow> a i = a' i" and "\<And>i. i < qty \<Longrightarrow> b i = b' i"
  shows "L2Sqr a b qty = L2Sqr a' b' qty"
  unfolding L2Sqr_def using assms by (intro foldl_cong) auto

lemma L2SqrSIMD16Ext_cong:
  assumes "\<And>i. i < qty \<Longrightarrow> a i = a' i" and "\<And>i. i < qty \<Longrightarrow> b i = b' i"
  shows "L2SqrSIMD16Ext ext a b qty = L2SqrSIMD16Ext ext a' b' qty"
proof -
  let ?e = "qty div 16 * 16"
  have le: "?e \<le> qty" by simp
  have blk: "l2_block w a b p s = l2_block w a' b' p s" if "p + w \<le> ?e" for w p s
    using that le by (intro l2_block_cong assms) linarith+
  have "strided_loop (l2_block 16 a b) 16 0 ?e s = strided_loop (l2_block 16 a' b') 16 0 ?e s" for s
    by (rule strided_loop_cong) (simp_all add: blk)
  moreover have "strided_loop (L2SqrSIMD16ExtAVX_body a b) 16 0 ?e s
      = strided_loop (L2SqrSIMD16ExtAVX_body a' b') 16 0 ?e s" for s
    by (rule strided_loop_cong) (simp_all add: blk L2SqrSIMD16ExtAVX_body_def)
  moreover have "strided_loop (L2SqrSIMD16ExtSSE_body a b) 16 0 ?e s
      = strided_loop (L2SqrSIMD16ExtSSE_body a' b') 16 0 ?e s" for s
    by (rule strided_loop_cong) (simp_all add: blk L2SqrSIMD16ExtSSE_body_def)
  ultimately show ?thesis
    by (cases ext) (simp_all add: L2SqrSIMD16ExtSSE_def L2SqrSIMD16ExtAVX_def L2SqrSIMD16ExtAVX512_def Let_def)
qed

lemma L2SqrSIMD4Ext_cong:
  assumes "\<And>i. i < qty \<Longrightarrow> a i = a' i" and "\<And>i. i < qty \<Longrightarrow> b i = b' i"
  shows "L2SqrSIMD4Ext a b qty = L2SqrSIMD4Ext a' b' qty"
proof -
  let ?e = "qty div 4 * 4"
  have le: "?e \<le> qty" by simp
  have blk: "l2_block 4 a b p s = l2_block 4 a' b' p s" if "p + 4 \<le> ?e" for p s
    using that le by (intro l2_block_cong assms) linarith+
  have "strided_loop (l2_block 4 a b) 4 0 ?e s = strided_loop (l2_block 4 a' b') 4 0 ?e s" for s
    by (rule strided_loop_cong) (simp_all add: blk)
  then show ?thesis by (simp add: L2SqrSIMD4Ext_def Let_def)
qed

lemma residuals_cong:
  assumes "\<And>i. i < qty \<Longrightarrow> a i = a' i" and "\<And>i. i < qty \<Longrightarrow> b i = b' i"
  shows "L2SqrSIMD16ExtResiduals ext a b qty = L2SqrSIMD16ExtResiduals ext a' b' qty"
    and "L2SqrSIMD4ExtResiduals a b qty = L2SqrSIMD4ExtResiduals a' b' qty"
proof -
  have tail: "L2Sqr (\<lambda>i. a (m + i)) (\<lambda>i. b (m + i)) (qty - m) = L2Sqr (\<lambda>i. a' (m + i)) (\<lambda>i. b' (m + i)) (qty - m)" for m
    using assms by (intro L2Sqr_cong) auto
  have "L2SqrSIMD16Ext ext a b (qty div 16 * 16) = L2SqrSIMD16Ext ext a' b' (qty div 16 * 16)"
    using assms by (intro L2SqrSIMD16Ext_cong) auto
  with tail show "L2SqrSIMD16ExtResiduals ext a b qty = L2SqrSIMD16ExtResiduals ext a' b' qty"
    by (simp add: L2SqrSIMD16ExtResiduals_def)
  have "L2SqrSIMD4Ext a b (qty div 4 * 4) = L2SqrSIMD4Ext a' b' (qty div 4 * 4)"
    using assms by (intro L2SqrSIMD4Ext_cong) auto
  with tail show "L2SqrSIMD4ExtResiduals a b qty = L2SqrSIMD4ExtResiduals a' b' qty"
    by (simp add: L2SqrSIMD4ExtResiduals_def)
qed

text \<open>
  The x86 distance functions read only the first \<open>dim\<close> components of their
  arguments: two pairs of buffers that agree there give the same result, in any
  arithmetic (rounding included), so the unaligned wide loads never run past a vector.
\<close>

theorem l2_reads_in_bounds:
  fixes a a' b b' :: "'f::{zero,plus,minus,times} ptr"
  assumes "\<forall>i<dim. a i = a' i \<and> b i = b' i" and "\<not> USE_RVV bld"
    and "L2Space bld avx avx512 ext0 dim = (ext, sp)"
  shows "call_l2 ext rvv (fstdistfunc sp) a b dim = call_l2 ext rvv (fstdistfunc sp) a' b' dim"
proof -
  have eq: "\<And>i. i < dim \<Longrightarrow> a i = a' i" "\<And>i. i < dim \<Longrightarrow> b i = b' i" using assms(1) by auto
  have "fstdistfunc sp \<noteq> F_RVV"
    using assms(2,3) by (auto simp: L2Space_def Let_def choose_l2_def split: if_splits)
  then show ?thesis
    using L2Sqr_cong [OF eq] L2SqrSIMD16Ext_cong [OF eq] L2SqrSIMD4Ext_cong [OF eq] residuals_cong [OF eq]
    by (cases "fstdistfunc sp") simp_all
qed

theorem l2_reads_in_bounds_witness:
  "call_l2 SSE (\<lambda>_ _ _. None) F_SIMD4 (\<lambda>i. int i) (\<lambda>_. 1) 8
    = call_l2 SSE (\<lambda>_ _ _. None) F_SIMD4 (\<lambda>i. if i < 8 then int i else 99) (\<lambda>i. if i < 8 then 1 else 7) 8"
proof -
  let ?sp = "\<lparr>fstdistfunc = F_SIMD4, data_size = 32, space_dim = 8\<rparr>"
  have sp: "L2Space (build_macros False True False False False) False False SSE 8 = (SSE, ?sp)"
    by (simp add: build_macros_def L2Space_def redirect_simd16_def choose_l2_def)
  show ?thesis
    using l2_reads_in_bounds [OF _ _ sp, of "\<lambda>i. int i" "\<lambda>i. if i < 8 then int i else 99" "\<lambda>_. 1"
        "\<lambda>i. if i < 8 then 1 else 7" "\<lambda>_ _ _. None"]
    by (simp add: build_macros_def)
qed

subsection \<open>The RISC-V kernel is right where the tail is kept\<close>

text \<open>
  What the vector extension says of \<open>vsetvl\<close>: a request that fits is granted; one below
  twice the register length may be split evenly; a larger one gets a full register.
\<close>

definition vsetvl_legal :: "nat \<Rightarrow> (nat \<Rightarrow> nat) \<Rightarrow> bool" where
  "vsetvl_legal vlmax vsetvl \<longleftrightarrow> 0 < vlmax \<and>
     (\<forall>avl. (avl \<le> vlmax \<longrightarrow> vsetvl avl = avl)
        \<and> (vlmax < avl \<and> avl < 2 * vlmax \<longrightarrow> (avl + 1) div 2 \<le> vsetvl avl \<and> vsetvl avl \<le> vlmax)
        \<and> (2 * vlmax \<le> avl \<longrightarrow> vsetvl avl = vlmax))"

lemma vsetvl_legalD:
  assumes "vsetvl_legal vlmax vsetvl" and "0 < avl"
  shows "0 < vsetvl avl \<and> vsetvl avl \<le> vlmax \<and> vsetvl avl \<le> avl"
proof -
  consider "avl \<le> vlmax" | "vlmax < avl" "avl < 2 * vlmax" | "2 * vlmax \<le> avl" by linarith
  then show ?thesis
  proof cases
    case 1
    then show ?thesis using assms by (simp add: vsetvl_legal_def)
  next
    case 2
    then have "(avl + 1) div 2 \<le> vsetvl avl \<and> vsetvl avl \<le> vlmax"
      using assms(1) by (simp add: vsetvl_legal_def)
    moreover have "0 < (avl + 1) div 2" using assms(2) by simp
    ultimately show ?thesis using 2 by linarith
  next
    case 3
    then show ?thesis using assms by (simp add: vsetvl_legal_def)
  qed
qed

lemma vsetvl_full:
  assumes "vsetvl_legal vlmax vsetvl" and "vlmax dvd avl" and "0 < avl"
  shows "vsetvl avl = vlmax"
proof -
  obtain k where k: "avl = vlmax * k" using assms(2) by blast
  have "0 < k" using assms(3) k by simp
  then consider "k = 1" | "2 \<le> k" by linarith
  then show ?thesis
  proof cases
    case 1
    then show ?thesis using k assms(1) by (simp add: vsetvl_legal_def)
  next
    case 2
    then have "2 * vlmax \<le> avl" using k by (simp add: mult.commute mult_le_mono2)
    then show ?thesis using assms(1) by (simp add: vsetvl_legal_def)
  qed
qed

lemma length_vfadd_vv [simp]: "length (vfadd_vv tail x y vl) = length x"
  by (simp add: vfadd_vv_def)

lemma sum_vfadd_vv:
  fixes x :: "'f::comm_ring list"
  assumes "vl \<le> length x" and "length y = vl" and "\<And>j. vl \<le> j \<Longrightarrow> j < length x \<Longrightarrow> tail x j = x ! j"
  shows "sum_list (vfadd_vv tail x y vl) = sum_list x + sum_list y"
proof -
  have y: "sum_list y = (\<Sum>j = 0..<length x. if j < vl then y ! j else 0)"
  proof -
    have "sum_list y = (\<Sum>j = 0..<vl. y ! j)" using assms(2) by (simp add: sum_list_sum_nth)
    also have "\<dots> = (\<Sum>j = 0..<vl. if j < vl then y ! j else 0)" by simp
    also have "\<dots> = (\<Sum>j = 0..<length x. if j < vl then y ! j else 0)"
      using assms(1) by (intro sum.mono_neutral_left) auto
    finally show ?thesis .
  qed
  have "sum_list (vfadd_vv tail x y vl) = (\<Sum>j = 0..<length x. x ! j + (if j < vl then y ! j else 0))"
    unfolding vfadd_vv_def using assms(3)
    by (subst sum_list_distinct_conv_sum_set) (auto intro!: sum.cong simp: not_less)
  also have "\<dots> = sum_list x + sum_list y"
    unfolding y by (simp add: sum.distrib sum_list_sum_nth)
  finally show ?thesis .
qed

lemma rvv_loop_sum:
  fixes a b :: "'f::comm_ring ptr"
  assumes legal: "vsetvl_legal vlmax vsetvl"
    and tail: "(\<forall>acc j. tail acc j = acc ! j) \<or> vlmax dvd dim - i"
    and i: "i \<le> dim" and acc: "length acc = vlmax"
  shows "\<exists>acc'. rvv_loop vsetvl tail a b dim i acc = Some acc'
    \<and> sum_list acc' = sum_list acc + (\<Sum>k = i..<dim. sqr_diff a b k)"
  using tail i acc
proof (induction "dim - i" arbitrary: i acc rule: less_induct)
  case less
  show ?case
  proof (cases "i < dim")
    case True
    let ?vl = "vsetvl (dim - i)"
    let ?sqr = "vmul (vsub (loadu ?vl a i) (loadu ?vl b i)) (vsub (loadu ?vl a i) (loadu ?vl b i))"
    let ?acc = "vfadd_vv tail acc ?sqr ?vl"
    have vl: "0 < ?vl" "?vl \<le> vlmax" "?vl \<le> dim - i"
      using vsetvl_legalD [OF legal, of "dim - i"] True by auto
    have sqr: "sum_list ?sqr = (\<Sum>k = i..<i + ?vl. sqr_diff a b k)"
      using sum_l2_block [of "replicate ?vl 0" ?vl a b i]
      by (simp add: l2_block_def Let_def sum_list_vadd)
    have kept: "tail acc j = acc ! j" if "?vl \<le> j" "j < length acc" for j
      using less.prems(1) vsetvl_full [OF legal, of "dim - i"] True that less.prems(3) by auto
    have sum: "sum_list ?acc = sum_list acc + (\<Sum>k = i..<i + ?vl. sqr_diff a b k)"
      using sum_vfadd_vv [of ?vl acc ?sqr tail] kept vl less.prems(3) sqr by simp
    have "(\<forall>acc j. tail acc j = acc ! j) \<or> vlmax dvd dim - (i + ?vl)"
    proof (cases "\<forall>acc j. tail acc j = acc ! j")
      case False
      then have "vlmax dvd dim - i" using less.prems(1) by blast
      then have "?vl = vlmax" using vsetvl_full [OF legal] True by simp
      with \<open>vlmax dvd dim - i\<close> show ?thesis by (metis diff_diff_left dvd_diff_nat dvd_refl)
    qed simp
    moreover have "dim - (i + ?vl) < dim - i" and "i + ?vl \<le> dim" using vl True by linarith+
    ultimately obtain acc' where "rvv_loop vsetvl tail a b dim (i + ?vl) ?acc = Some acc'"
      "sum_list acc' = sum_list ?acc + (\<Sum>k = i + ?vl..<dim. sqr_diff a b k)"
      using less.hyps [of "i + ?vl" ?acc] less.prems(3) length_vfadd_vv by blast
    then show ?thesis
      using True sum vl sum_ivl_join [of i "i + ?vl" dim "sqr_diff a b"]
      by (subst rvv_loop.simps) (auto simp: Let_def add.assoc)
  next
    case False
    then show ?thesis using less.prems by (subst rvv_loop.simps) simp
  qed
qed

text \<open>
  \<^bold>\<open>C32.\<close> The RISC-V kernel terminates and computes \<open>L2Sqr\<close> for every answer \<open>vsetvl\<close> may
  legally give, provided the accumulator keeps its lanes beyond \<open>vl\<close> (tail-undisturbed
  execution), or the register length divides the dimension so that no iteration has a
  tail.
\<close>

theorem L2SqrSIMDExtRVV_correct:
  fixes a b :: "'f::comm_ring ptr"
  assumes "vsetvl_legal vlmax vsetvl" and "\<forall>xs z. vfredusum xs z = sum_list xs + z"
    and "(\<forall>acc j. tail acc j = acc ! j) \<or> vlmax dvd dim"
  shows "L2SqrSIMDExtRVV vsetvl vlmax tail vfredusum a b dim = Some (L2Sqr a b dim)"
  using rvv_loop_sum [OF assms(1), of tail dim 0 "replicate vlmax 0" a b] assms(2,3)
  by (auto simp: L2SqrSIMDExtRVV_def L2Sqr_sum)

theorem L2SqrSIMDExtRVV_correct_witness:
  "L2SqrSIMDExtRVV (\<lambda>avl. min avl 4) 4 (\<lambda>acc j. acc ! j) (\<lambda>xs z. sum_list xs + z) (\<lambda>i. int i) (\<lambda>_. 1) 6
    = Some (L2Sqr (\<lambda>i. int i) (\<lambda>_. 1) 6) \<and> L2Sqr (\<lambda>i. int i) (\<lambda>_. 1) 6 = 31"
proof -
  have legal: "vsetvl_legal 4 (\<lambda>avl. min avl 4)" by (auto simp: vsetvl_legal_def)
  have "L2Sqr (\<lambda>i. int i) (\<lambda>_. 1) 6 = 31" by (simp add: L2Sqr_sum eval_nat_numeral)
  then show ?thesis
    using L2SqrSIMDExtRVV_correct [OF legal, of "\<lambda>xs z. sum_list xs + z" "\<lambda>acc j. acc ! j" 6
        "\<lambda>i. int i" "\<lambda>_. 1"]
    by simp
qed

text \<open>
  \<^bold>\<open>C33.\<close> The kernel does not ask for that policy: its intrinsics are tail-agnostic, so the
  hardware may overwrite the lanes beyond \<open>vl\<close>. With four lanes, dimension 6 and a tail
  filled with \<open>t\<close>, the last iteration replaces two partial sums by \<open>t\<close> and the result is
  \<open>4 + 2 * t\<close> where the squared distance is 6.
\<close>

theorem L2SqrSIMDExtRVV_tail_agnostic:
  "L2SqrSIMDExtRVV (\<lambda>avl. min avl 4) 4 (\<lambda>_ _. t) (\<lambda>xs z. sum_list xs + z) (\<lambda>_. 1) (\<lambda>_. 0) 6
      = Some (4 + 2 * t :: int)
    \<and> L2Sqr (\<lambda>_. 1) (\<lambda>_. 0 :: int) 6 = 6"
proof
  let ?vs = "\<lambda>avl::nat. min avl 4" and ?tl = "\<lambda>(_::int list) (_::nat). t"
  have r4: "[0..<4] = [0, 1, 2, 3::nat]" and r2: "[0..<2] = [0, 1::nat]" by (simp_all add: upt_rec)
  have step1: "rvv_loop ?vs ?tl (\<lambda>_. 1) (\<lambda>_. 0) 6 0 [0, 0, 0, 0]
      = rvv_loop ?vs ?tl (\<lambda>_. 1) (\<lambda>_. 0) 6 4 [1, 1, 1, 1]"
    by (subst rvv_loop.simps) (simp add: Let_def loadu_def vsub_def vmul_def vfadd_vv_def r4)
  have step2: "rvv_loop ?vs ?tl (\<lambda>_. 1) (\<lambda>_. 0) 6 4 [1, 1, 1, 1]
      = rvv_loop ?vs ?tl (\<lambda>_. 1) (\<lambda>_. 0) 6 6 [2, 2, t, t]"
    by (subst rvv_loop.simps) (simp add: Let_def loadu_def vsub_def vmul_def vfadd_vv_def r4 r2)
  have step3: "rvv_loop ?vs ?tl (\<lambda>_. 1) (\<lambda>_. 0) 6 6 [2, 2, t, t] = Some [2, 2, t, t]"
    by (subst rvv_loop.simps) simp
  have "replicate 4 (0::int) = [0, 0, 0, 0]" by (simp add: numeral_eq_Suc)
  then show "L2SqrSIMDExtRVV ?vs 4 ?tl (\<lambda>xs z. sum_list xs + z) (\<lambda>_. 1) (\<lambda>_. 0) 6 = Some (4 + 2 * t)"
    by (simp add: L2SqrSIMDExtRVV_def step1 step2 step3)
  show "L2Sqr (\<lambda>_. 1) (\<lambda>_. 0 :: int) 6 = 6" by code_simp
qed

subsection \<open>The byte kernels\<close>

lemma L2SqrI_sum: "L2SqrI a b qty = (\<Sum>i = 0..<qty. byte_term a b i)"
  by (simp add: L2SqrI_def foldl_sum)

lemma foldl_unrolled:
  fixes f :: "nat \<Rightarrow> 'f::comm_monoid_add"
  shows "foldl (\<lambda>res i. res + f (4 * i) + f (4 * i + 1) + f (4 * i + 2) + f (4 * i + 3)) 0 [0..<n]
    = (\<Sum>i = 0..<4 * n. f i)"
proof (induction n)
  case (Suc n)
  have "{0..<4 * Suc n} = {0..<Suc (Suc (Suc (Suc (4 * n))))}" by auto
  moreover have "f (4 * n + 3) = f (Suc (Suc (Suc (4 * n))))" by (rule arg_cong [of _ _ f]) simp
  ultimately show ?case using Suc by (simp add: add.assoc)
qed simp

lemma L2SqrI4x_sum: "L2SqrI4x a b qty = (\<Sum>i = 0..<4 * (qty div 4). byte_term a b i)"
  by (simp only: L2SqrI4x_def foldl_unrolled)

lemma sint_word_of_int_small:
  assumes "0 \<le> x" and "x < 2147483648"
  shows "sint (word_of_int x :: 32 word) = x"
  using assms by (simp add: signed_of_int signed_take_bit_int_eq_self)

lemma byte_term_int: "byte_term a b i = word_of_int ((uint (a i) - uint (b i)) ^ 2)"
  by (simp add: byte_term_def power2_eq_square)

lemma byte_square_bound: "(uint (x :: 8 word) - uint (y :: 8 word)) ^ 2 \<le> 65025"
proof -
  have "uint x < 256" "uint y < 256" using uint_bounded [of x] uint_bounded [of y] by simp_all
  moreover have "0 \<le> uint x" "0 \<le> uint y" by (rule uint_nonnegative)+
  ultimately have "\<bar>uint x - uint y\<bar> \<le> 255" by linarith
  then have "\<bar>uint x - uint y\<bar> ^ 2 \<le> 255 ^ 2" by (rule power_mono) simp
  then show ?thesis by simp
qed

text \<open>
  \<^bold>\<open>C34.\<close> The byte space is exact up to dimension 33025: the function it selects returns the
  sum of squared differences, and that sum fits the 32-bit signed accumulator. (At 33026
  components of difference 255 the sum exceeds \<open>INT_MAX\<close>.)
\<close>

theorem L2SpaceI_exact:
  assumes "dim \<le> 33025"
  shows "sint (call_l2i (fst (L2SpaceI dim)) a b dim) = (\<Sum>i = 0..<dim. (uint (a i) - uint (b i)) ^ 2)"
proof -
  let ?S = "\<Sum>i = 0..<dim. (uint (a i) - uint (b i)) ^ 2"
  have eq: "call_l2i (fst (L2SpaceI dim)) a b dim = L2SqrI a b dim"
  proof (cases "dim mod 4 = 0")
    case True
    then have "4 * (dim div 4) = dim" by auto
    with True show ?thesis by (simp add: L2SpaceI_def L2SqrI4x_sum L2SqrI_sum)
  qed (simp add: L2SpaceI_def)
  have w: "L2SqrI a b dim = word_of_int ?S"
    by (simp add: L2SqrI_sum byte_term_int of_int_sum)
  have "?S \<le> (\<Sum>i = 0..<dim. 65025)" by (intro sum_mono byte_square_bound)
  also have "\<dots> \<le> 65025 * 33025" using assms by simp
  finally have hi: "?S \<le> 2147450625" by simp
  have lo: "0 \<le> ?S" by (intro sum_nonneg) simp
  have "sint (word_of_int ?S :: 32 word) = ?S"
    by (rule sint_word_of_int_small) (use lo hi in simp_all)
  with eq w show ?thesis by simp
qed

theorem L2SpaceI_exact_witness:
  "sint (call_l2i (fst (L2SpaceI 5)) (\<lambda>_. 255) (\<lambda>_. 3) 5) = 317520"
proof -
  have "sint (call_l2i (fst (L2SpaceI 5)) (\<lambda>_. 255) (\<lambda>_. 3) 5)
      = (\<Sum>i = 0..<(5::nat). (uint (255 :: 8 word) - uint (3 :: 8 word)) ^ 2)"
    by (rule L2SpaceI_exact) simp
  also have "\<dots> = 317520" by simp
  finally show ?thesis .
qed

end
