(* ===== verification/Space_IP.thy ===== *)
theory Space_IP
  imports Space_L2
begin

text \<open>
  \<open>hnswlib/space_ip.h\<close>: the inner-product distance \<open>1 - <x, y>\<close>, as the plain loop and
  as the vector kernels, and the space class that chooses a kernel. The AVX-512 kernel
  uses a fused multiply-add and the compiler's reduction, which are parameters (\<open>fma\<close>,
  \<open>reduce_add\<close>).
\<close>

subsection \<open>The kernels\<close>

definition InnerProduct :: "'f::{zero,plus,times} ptr \<Rightarrow> 'f ptr \<Rightarrow> nat \<Rightarrow> 'f" where
  "InnerProduct pVect1 pVect2 qty = foldl (\<lambda>res i. res + pVect1 i * pVect2 i) 0 [0..<qty]"

definition InnerProductDistance :: "'f::{zero,one,plus,minus,times} ptr \<Rightarrow> 'f ptr \<Rightarrow> nat \<Rightarrow> 'f" where
  "InnerProductDistance pVect1 pVect2 qty = 1 - InnerProduct pVect1 pVect2 qty"

definition ip_block :: "nat \<Rightarrow> 'f::{plus,times} ptr \<Rightarrow> 'f ptr \<Rightarrow> nat \<Rightarrow> 'f list \<Rightarrow> 'f list" where
  "ip_block w pVect1 pVect2 p acc = vadd acc (vmul (loadu w pVect1 p) (loadu w pVect2 p))"

text \<open>The unrolled bodies: two blocks of eight lanes, four blocks of four.\<close>

definition ip_body_avx :: "'f::{plus,times} ptr \<Rightarrow> 'f ptr \<Rightarrow> nat \<Rightarrow> 'f list \<Rightarrow> 'f list" where
  "ip_body_avx pVect1 pVect2 p acc =
     ip_block 8 pVect1 pVect2 (p + 8) (ip_block 8 pVect1 pVect2 p acc)"

definition ip_body_sse :: "'f::{plus,times} ptr \<Rightarrow> 'f ptr \<Rightarrow> nat \<Rightarrow> 'f list \<Rightarrow> 'f list" where
  "ip_body_sse pVect1 pVect2 p acc =
     ip_block 4 pVect1 pVect2 (p + 12) (ip_block 4 pVect1 pVect2 (p + 8)
       (ip_block 4 pVect1 pVect2 (p + 4) (ip_block 4 pVect1 pVect2 p acc)))"

definition InnerProductSIMD4ExtAVX :: "'f::{zero,plus,times} ptr \<Rightarrow> 'f ptr \<Rightarrow> nat \<Rightarrow> 'f" where
  "InnerProductSIMD4ExtAVX pVect1 pVect2 qty =
     (let pEnd1 = 16 * (qty div 16);
          pEnd2 = 4 * (qty div 4);
          sum256 = strided_loop (ip_body_avx pVect1 pVect2) 16 0 pEnd1 (replicate 8 0);
          sum_prod = vadd (take 4 sum256) (drop 4 sum256);
          sum_prod = strided_loop (ip_block 4 pVect1 pVect2) 4 pEnd1 pEnd2 sum_prod
      in hadd sum_prod)"

definition InnerProductSIMD4ExtSSE :: "'f::{zero,plus,times} ptr \<Rightarrow> 'f ptr \<Rightarrow> nat \<Rightarrow> 'f" where
  "InnerProductSIMD4ExtSSE pVect1 pVect2 qty =
     (let pEnd1 = 16 * (qty div 16);
          pEnd2 = 4 * (qty div 4);
          sum_prod = strided_loop (ip_body_sse pVect1 pVect2) 16 0 pEnd1 (replicate 4 0);
          sum_prod = strided_loop (ip_block 4 pVect1 pVect2) 4 pEnd1 pEnd2 sum_prod
      in hadd sum_prod)"

definition ip_fma_block ::
    "('f \<Rightarrow> 'f \<Rightarrow> 'f \<Rightarrow> 'f) \<Rightarrow> 'f ptr \<Rightarrow> 'f ptr \<Rightarrow> nat \<Rightarrow> 'f list \<Rightarrow> 'f list" where
  "ip_fma_block fma pVect1 pVect2 p acc = vfma fma (loadu 16 pVect1 p) (loadu 16 pVect2 p) acc"

definition ip_body_512 ::
    "('f \<Rightarrow> 'f \<Rightarrow> 'f \<Rightarrow> 'f) \<Rightarrow> 'f ptr \<Rightarrow> 'f ptr \<Rightarrow> nat \<Rightarrow> 'f list \<Rightarrow> 'f list" where
  "ip_body_512 fma pVect1 pVect2 p acc =
     ip_fma_block fma pVect1 pVect2 (p + 48) (ip_fma_block fma pVect1 pVect2 (p + 32)
       (ip_fma_block fma pVect1 pVect2 (p + 16) (ip_fma_block fma pVect1 pVect2 p acc)))"

definition InnerProductSIMD16ExtAVX512 ::
    "('f \<Rightarrow> 'f \<Rightarrow> 'f \<Rightarrow> 'f) \<Rightarrow> ('f list \<Rightarrow> 'f) \<Rightarrow> 'f::zero ptr \<Rightarrow> 'f ptr \<Rightarrow> nat \<Rightarrow> 'f" where
  "InnerProductSIMD16ExtAVX512 fma reduce_add pVect1 pVect2 qty =
     (let qty16 = qty div 16;
          pEnd1 = 16 * qty16;
          loop = qty16 div 4;
          sum512 = strided_loop (ip_body_512 fma pVect1 pVect2) 64 0 (64 * loop) (replicate 16 0);
          sum512 = strided_loop (ip_fma_block fma pVect1 pVect2) 16 (64 * loop) pEnd1 sum512
      in reduce_add sum512)"

definition InnerProductSIMD16ExtAVX :: "'f::{zero,plus,times} ptr \<Rightarrow> 'f ptr \<Rightarrow> nat \<Rightarrow> 'f" where
  "InnerProductSIMD16ExtAVX pVect1 pVect2 qty =
     (let pEnd1 = 16 * (qty div 16);
          sum256 = strided_loop (ip_body_avx pVect1 pVect2) 16 0 pEnd1 (replicate 8 0)
      in hadd sum256)"

definition InnerProductSIMD16ExtSSE :: "'f::{zero,plus,times} ptr \<Rightarrow> 'f ptr \<Rightarrow> nat \<Rightarrow> 'f" where
  "InnerProductSIMD16ExtSSE pVect1 pVect2 qty =
     (let pEnd1 = 16 * (qty div 16);
          sum_prod = strided_loop (ip_body_sse pVect1 pVect2) 16 0 pEnd1 (replicate 4 0)
      in hadd sum_prod)"

text \<open>The two function pointers, and the distances built on them.\<close>

datatype simd4 = SSE4 | AVX4

record 'f ip_ops =
  fma_op :: "'f \<Rightarrow> 'f \<Rightarrow> 'f \<Rightarrow> 'f"
  reduce_op :: "'f list \<Rightarrow> 'f"

fun InnerProductSIMD16Ext :: "'f ip_ops \<Rightarrow> simd16 \<Rightarrow> 'f::{zero,plus,times} ptr \<Rightarrow> 'f ptr \<Rightarrow> nat \<Rightarrow> 'f" where
  "InnerProductSIMD16Ext ops SSE = InnerProductSIMD16ExtSSE"
| "InnerProductSIMD16Ext ops AVX = InnerProductSIMD16ExtAVX"
| "InnerProductSIMD16Ext ops AVX512 = InnerProductSIMD16ExtAVX512 (fma_op ops) (reduce_op ops)"

fun InnerProductSIMD4Ext :: "simd4 \<Rightarrow> 'f::{zero,plus,times} ptr \<Rightarrow> 'f ptr \<Rightarrow> nat \<Rightarrow> 'f" where
  "InnerProductSIMD4Ext SSE4 = InnerProductSIMD4ExtSSE"
| "InnerProductSIMD4Ext AVX4 = InnerProductSIMD4ExtAVX"

definition InnerProductDistanceSIMD16Ext ::
    "'f ip_ops \<Rightarrow> simd16 \<Rightarrow> 'f::{zero,one,plus,minus,times} ptr \<Rightarrow> 'f ptr \<Rightarrow> nat \<Rightarrow> 'f" where
  "InnerProductDistanceSIMD16Ext ops ext pVect1 pVect2 qty = 1 - InnerProductSIMD16Ext ops ext pVect1 pVect2 qty"

definition InnerProductDistanceSIMD4Ext ::
    "simd4 \<Rightarrow> 'f::{zero,one,plus,minus,times} ptr \<Rightarrow> 'f ptr \<Rightarrow> nat \<Rightarrow> 'f" where
  "InnerProductDistanceSIMD4Ext ext4 pVect1 pVect2 qty = 1 - InnerProductSIMD4Ext ext4 pVect1 pVect2 qty"

definition InnerProductDistanceSIMD16ExtResiduals ::
    "'f ip_ops \<Rightarrow> simd16 \<Rightarrow> 'f::{zero,one,plus,minus,times} ptr \<Rightarrow> 'f ptr \<Rightarrow> nat \<Rightarrow> 'f" where
  "InnerProductDistanceSIMD16ExtResiduals ops ext pVect1v pVect2v qty =
     (let qty16 = qty div 16 * 16;
          res = InnerProductSIMD16Ext ops ext pVect1v pVect2v qty16;
          qty_left = qty - qty16;
          res_tail = InnerProduct (\<lambda>i. pVect1v (qty16 + i)) (\<lambda>i. pVect2v (qty16 + i)) qty_left
      in 1 - (res + res_tail))"

definition InnerProductDistanceSIMD4ExtResiduals ::
    "simd4 \<Rightarrow> 'f::{zero,one,plus,minus,times} ptr \<Rightarrow> 'f ptr \<Rightarrow> nat \<Rightarrow> 'f" where
  "InnerProductDistanceSIMD4ExtResiduals ext4 pVect1v pVect2v qty =
     (let qty4 = qty div 4 * 4;
          res = InnerProductSIMD4Ext ext4 pVect1v pVect2v qty4;
          qty_left = qty - qty4;
          res_tail = InnerProduct (\<lambda>i. pVect1v (qty4 + i)) (\<lambda>i. pVect2v (qty4 + i)) qty_left
      in 1 - (res + res_tail))"

subsection \<open>The space\<close>

datatype ip_func = F_IP | F_IP16 simd16 | F_IP4 simd4 | F_IP16Residuals | F_IP4Residuals

record ip_space =
  ip_fstdistfunc :: ip_func
  ip_data_size :: nat
  ip_dim :: nat

definition redirect_simd4 :: "build \<Rightarrow> bool \<Rightarrow> simd4 \<Rightarrow> simd4" where
  "redirect_simd4 bld avx ext4 = (if USE_AVX bld \<and> avx then AVX4 else ext4)"

definition choose_ip :: "build \<Rightarrow> simd16 \<Rightarrow> simd4 \<Rightarrow> nat \<Rightarrow> ip_func" where
  "choose_ip bld ext ext4 dim =
     (if USE_AVX bld \<or> USE_SSE bld \<or> USE_AVX512 bld then
        (if dim mod 16 = 0 then F_IP16 ext
         else if dim mod 4 = 0 then F_IP4 ext4
         else if 16 < dim then F_IP16Residuals
         else if 4 < dim then F_IP4Residuals
         else F_IP)
      else F_IP)"

definition InnerProductSpace ::
    "build \<Rightarrow> bool \<Rightarrow> bool \<Rightarrow> simd16 \<times> simd4 \<Rightarrow> nat \<Rightarrow> (simd16 \<times> simd4) \<times> ip_space" where
  "InnerProductSpace bld avx avx512 exts dim =
     (let ext = redirect_simd16 bld avx avx512 (fst exts);
          ext4 = redirect_simd4 bld avx (snd exts)
      in ((ext, ext4), \<lparr>ip_fstdistfunc = choose_ip bld ext ext4 dim, ip_data_size = dim * 4, ip_dim = dim\<rparr>))"

fun call_ip :: "'f ip_ops \<Rightarrow> simd16 \<times> simd4 \<Rightarrow> ip_func
    \<Rightarrow> 'f::{zero,one,plus,minus,times} ptr \<Rightarrow> 'f ptr \<Rightarrow> nat \<Rightarrow> 'f" where
  "call_ip ops exts F_IP = InnerProductDistance"
| "call_ip ops exts (F_IP16 e) = InnerProductDistanceSIMD16Ext ops e"
| "call_ip ops exts (F_IP4 e) = InnerProductDistanceSIMD4Ext e"
| "call_ip ops exts F_IP16Residuals = InnerProductDistanceSIMD16ExtResiduals ops (fst exts)"
| "call_ip ops exts F_IP4Residuals = InnerProductDistanceSIMD4ExtResiduals (snd exts)"

subsection \<open>Correctness of the kernels\<close>

abbreviation prod_at :: "'f::times ptr \<Rightarrow> 'f ptr \<Rightarrow> nat \<Rightarrow> 'f" where
  "prod_at a b i \<equiv> a i * b i"

lemma InnerProduct_sum: "InnerProduct a b qty = (\<Sum>i = 0..<qty. prod_at a b i :: 'f::comm_ring)"
  by (simp add: InnerProduct_def foldl_sum)

lemma length_ip_block [simp]: "length s = w \<Longrightarrow> length (ip_block w a b p s) = w"
  by (simp add: ip_block_def)

lemma sum_ip_block:
  fixes a b :: "'f::comm_ring ptr"
  assumes "length s = w"
  shows "sum_list (ip_block w a b p s) = sum_list s + (\<Sum>i = p..<p + w. prod_at a b i)"
proof -
  have "vmul (loadu w a p) (loadu w b p) = map (\<lambda>j. prod_at a b (p + j)) [0..<w]"
    unfolding vmul_def map2_loadu ..
  then show ?thesis
    using assms sum_list_upt_shift [of "prod_at a b" p w] by (simp add: ip_block_def sum_list_vadd)
qed

interpretation ip_4: lane_kernel "prod_at a b" "ip_block 4 a b" 4 4
  for a b :: "'f::comm_ring ptr"
  by unfold_locales (simp_all add: sum_ip_block)

interpretation ip_avx: lane_kernel "prod_at a b" "ip_body_avx a b" 8 16
  for a b :: "'f::comm_ring ptr"
proof unfold_locales
  fix s :: "'f list" and p
  assume "length s = 8"
  then show "sum_list (ip_body_avx a b p s) = sum_list s + (\<Sum>i = p..<p + 16. prod_at a b i)"
    using sum_ivl_join [of p "p + 8" "p + 16" "prod_at a b"]
    by (simp add: ip_body_avx_def sum_ip_block add.assoc)
qed (simp_all add: ip_body_avx_def)

interpretation ip_sse: lane_kernel "prod_at a b" "ip_body_sse a b" 4 16
  for a b :: "'f::comm_ring ptr"
proof unfold_locales
  fix s :: "'f list" and p
  assume "length s = 4"
  then show "sum_list (ip_body_sse a b p s) = sum_list s + (\<Sum>i = p..<p + 16. prod_at a b i)"
    using sum_ivl_join [of p "p + 4" "p + 8" "prod_at a b"] sum_ivl_join [of p "p + 8" "p + 12" "prod_at a b"]
      sum_ivl_join [of p "p + 12" "p + 16" "prod_at a b"]
    by (simp add: ip_body_sse_def sum_ip_block add.assoc)
qed (simp_all add: ip_body_sse_def)

text \<open>With an exact multiply-add, the AVX-512 block is an ordinary one.\<close>

definition exact_ops :: "'f::{plus,times,zero} ip_ops \<Rightarrow> bool" where
  "exact_ops ops \<longleftrightarrow> (\<forall>x y z. fma_op ops x y z = x * y + z) \<and> (\<forall>xs. reduce_op ops xs = foldr (+) xs 0)"

lemma ip_fma_block_exact:
  fixes a b :: "'f::comm_ring ptr"
  assumes "\<forall>x y z. fma x y z = x * y + z"
  shows "ip_fma_block fma a b p s = ip_block 16 a b p s"
proof -
  have "vfma fma x y z = vadd z (vmul x y)" for x y z :: "'f list"
    using assms unfolding vfma_def vadd_def vmul_def
    by (auto simp: list_eq_iff_nth_eq ac_simps)
  then show ?thesis by (simp add: ip_fma_block_def ip_block_def)
qed

interpretation ip_16: lane_kernel "prod_at a b" "ip_block 16 a b" 16 16
  for a b :: "'f::comm_ring ptr"
  by unfold_locales (simp_all add: sum_ip_block)

interpretation ip_512: lane_kernel "prod_at a b" "ip_body_512 (\<lambda>x y z. x * y + z) a b" 16 64
  for a b :: "'f::comm_ring ptr"
proof unfold_locales
  fix s :: "'f list" and p
  assume "length s = 16"
  then show "sum_list (ip_body_512 (\<lambda>x y z. x * y + z) a b p s)
      = sum_list s + (\<Sum>i = p..<p + 64. prod_at a b i)"
    using sum_ivl_join [of p "p + 16" "p + 32" "prod_at a b"] sum_ivl_join [of p "p + 32" "p + 48" "prod_at a b"]
      sum_ivl_join [of p "p + 48" "p + 64" "prod_at a b"]
    by (simp add: ip_body_512_def ip_fma_block_exact sum_ip_block add.assoc)
qed (simp_all add: ip_body_512_def ip_fma_block_exact)

lemma ip_loops_join:
  fixes s :: "'f::comm_ring list"
  assumes k: "lane_kernel t body w n" and k': "lane_kernel t body' w' n'"
    and "w = length s" "length (f (strided_loop body n 0 e s)) = w'"
    and f: "\<And>x. length x = w \<Longrightarrow> sum_list (f x) = sum_list x"
    and "n dvd e" "e \<le> e'" "n' dvd e' - e" "sum_list s = 0"
  shows "length (strided_loop body' n' e e' (f (strided_loop body n 0 e s))) = w'
    \<and> sum_list (strided_loop body' n' e e' (f (strided_loop body n 0 e s))) = (\<Sum>i = 0..<e'. t i)"
proof -
  have one: "length (strided_loop body n 0 e s) = w \<and> sum_list (strided_loop body n 0 e s) = (\<Sum>i = 0..<e. t i)"
    using lane_kernel.loop_sum [OF k, of s 0 e] assms by simp
  show ?thesis
    using lane_kernel.loop_sum [OF k', of "f (strided_loop body n 0 e s)" e e'] one assms
      sum_ivl_join [of 0 e e' t]
    by simp
qed

lemma sum_list_halves:
  "length x = 8 \<Longrightarrow> sum_list (vadd (take 4 x) (drop 4 x)) = (sum_list x :: 'f::comm_ring)"
  using sum_list.append [of "take 4 x" "drop 4 x"] by (simp add: sum_list_vadd)

lemma blocks_le: "4 * c * (x div 4) \<le> c * (x :: nat)"
  using mult_le_mono2 [OF div_times_less_eq_dividend [of x 4], of c] by (simp add: ac_simps)

lemma div16_div4: "q div 16 = q div 4 div (4 :: nat)"
  using div_mult2_eq [of q 4 4] by simp

lemma div16_le_div4: "16 * (q div 16) \<le> 4 * (q div 4 :: nat)"
  using blocks_le [of 4 "q div 4"] by (simp add: div16_div4)

lemma dvd_div16_div4: "4 dvd 4 * (q div 4) - 16 * (q div 16 :: nat)"
  by (intro dvd_diff_nat) simp_all

lemma InnerProductSIMD4ExtAVX_sum:
  fixes a b :: "'f::comm_ring ptr"
  shows "InnerProductSIMD4ExtAVX a b q = (\<Sum>i = 0..<4 * (q div 4). prod_at a b i)"
proof -
  let ?loop = "strided_loop (ip_body_avx a b) 16 0 (16 * (q div 16)) (replicate 8 0)"
  let ?s = "strided_loop (ip_block 4 a b) 4 (16 * (q div 16)) (4 * (q div 4))
              (vadd (take 4 ?loop) (drop 4 ?loop))"
  have "length ?loop = 8"
    using ip_avx.loop_sum [of "replicate 8 0" 0 "16 * (q div 16)" a b] by simp
  then have "length ?s = 4 \<and> sum_list ?s = (\<Sum>i = 0..<4 * (q div 4). prod_at a b i)"
    by (intro ip_loops_join [OF ip_avx.lane_kernel_axioms ip_4.lane_kernel_axioms])
       (simp_all add: sum_list_halves div16_le_div4 dvd_div16_div4)
  moreover from this have "?s \<noteq> []" by (metis list.size(3) zero_neq_numeral)
  ultimately show ?thesis by (simp add: InnerProductSIMD4ExtAVX_def Let_def hadd_sum_list)
qed

lemma InnerProductSIMD4ExtSSE_sum:
  fixes a b :: "'f::comm_ring ptr"
  shows "InnerProductSIMD4ExtSSE a b q = (\<Sum>i = 0..<4 * (q div 4). prod_at a b i)"
proof -
  let ?loop = "strided_loop (ip_body_sse a b) 16 0 (16 * (q div 16)) (replicate 4 0)"
  let ?s = "strided_loop (ip_block 4 a b) 4 (16 * (q div 16)) (4 * (q div 4)) ?loop"
  have len: "length ?loop = 4"
    using ip_sse.loop_sum [of "replicate 4 0" 0 "16 * (q div 16)" a b] by simp
  have "length ?s = 4 \<and> sum_list ?s = (\<Sum>i = 0..<4 * (q div 4). prod_at a b i)"
    by (rule ip_loops_join [OF ip_sse.lane_kernel_axioms ip_4.lane_kernel_axioms, where f = "\<lambda>x. x"])
       (simp_all add: len div16_le_div4 dvd_div16_div4)
  moreover from this have "?s \<noteq> []" by (metis list.size(3) zero_neq_numeral)
  ultimately show ?thesis by (simp add: InnerProductSIMD4ExtSSE_def Let_def hadd_sum_list)
qed

lemma InnerProductSIMD16ExtAVX512_sum:
  fixes a b :: "'f::comm_ring ptr"
  assumes "exact_ops ops"
  shows "InnerProductSIMD16ExtAVX512 (fma_op ops) (reduce_op ops) a b q
    = (\<Sum>i = 0..<16 * (q div 16). prod_at a b i)"
proof -
  have fma: "fma_op ops = (\<lambda>x y z. x * y + z)"
    using assms unfolding exact_ops_def by (intro ext) simp
  have red: "reduce_op ops xs = sum_list xs" for xs
    using assms unfolding exact_ops_def by (simp add: sum_list.eq_foldr)
  have blk: "ip_fma_block (\<lambda>x y z. x * y + z) a b = ip_block 16 a b"
    by (intro ext ip_fma_block_exact) simp
  let ?e = "64 * (q div 16 div 4)"
  let ?loop = "strided_loop (ip_body_512 (\<lambda>x y z. x * y + z) a b) 64 0 ?e (replicate 16 0)"
  have len: "length ?loop = 16"
    using ip_512.loop_sum [of "replicate 16 0" 0 ?e a b] by simp
  have le: "?e \<le> 16 * (q div 16)" "16 dvd 16 * (q div 16) - ?e"
    using blocks_le [of 16 "q div 16"] by (simp, intro dvd_diff_nat) simp_all
  have "sum_list (strided_loop (ip_block 16 a b) 16 ?e (16 * (q div 16)) ?loop)
      = (\<Sum>i = 0..<16 * (q div 16). prod_at a b i)"
    by (rule conjunct2, rule ip_loops_join [OF ip_512.lane_kernel_axioms ip_16.lane_kernel_axioms, where f = "\<lambda>x. x"])
       (use len le in simp_all)
  then show ?thesis by (simp add: InnerProductSIMD16ExtAVX512_def Let_def fma red blk)
qed

lemma InnerProductSIMD16Ext_sum:
  fixes a b :: "'f::comm_ring ptr"
  assumes "ext = AVX512 \<longrightarrow> exact_ops ops"
  shows "InnerProductSIMD16Ext ops ext a b q = (\<Sum>i = 0..<16 * (q div 16). prod_at a b i)"
  using assms InnerProductSIMD16ExtAVX512_sum [of ops a b q] ip_avx.kernel_sum [of "16 * (q div 16)" a b]
    ip_sse.kernel_sum [of "16 * (q div 16)" a b]
  by (cases ext) (simp_all add: InnerProductSIMD16ExtAVX_def InnerProductSIMD16ExtSSE_def Let_def)

lemma InnerProductSIMD4Ext_sum:
  fixes a b :: "'f::comm_ring ptr"
  shows "InnerProductSIMD4Ext ext4 a b q = (\<Sum>i = 0..<4 * (q div 4). prod_at a b i)"
  by (cases ext4) (simp_all add: InnerProductSIMD4ExtAVX_sum InnerProductSIMD4ExtSSE_sum)

lemma InnerProduct_split:
  fixes a b :: "'f::comm_ring ptr"
  assumes "m \<le> q"
  shows "(\<Sum>i = 0..<m. prod_at a b i) + InnerProduct (\<lambda>i. a (m + i)) (\<lambda>i. b (m + i)) (q - m)
    = InnerProduct a b q"
  using assms sum.shift_bounds_nat_ivl [of "prod_at a b" 0 m "q - m"] sum_ivl_join [of 0 m q "prod_at a b"]
  by (simp add: InnerProduct_sum add.commute)

lemma ip16_exact:
  fixes a b :: "'f::comm_ring_1 ptr"
  assumes "ext = AVX512 \<longrightarrow> exact_ops ops" and "q mod 16 = 0"
  shows "InnerProductDistanceSIMD16Ext ops ext a b q = InnerProductDistance a b q"
proof -
  have "16 * (q div 16) = q" using assms(2) by presburger
  then show ?thesis
    using InnerProductSIMD16Ext_sum [OF assms(1), of a b q]
    by (simp add: InnerProductDistanceSIMD16Ext_def InnerProductDistance_def InnerProduct_sum)
qed

lemma ip4_exact:
  fixes a b :: "'f::comm_ring_1 ptr"
  assumes "q mod 4 = 0"
  shows "InnerProductDistanceSIMD4Ext ext4 a b q = InnerProductDistance a b q"
proof -
  have "4 * (q div 4) = q" using assms by presburger
  then show ?thesis
    using InnerProductSIMD4Ext_sum [of ext4 a b q]
    by (simp add: InnerProductDistanceSIMD4Ext_def InnerProductDistance_def InnerProduct_sum)
qed

lemma ip16_residuals_exact:
  fixes a b :: "'f::comm_ring_1 ptr"
  assumes "ext = AVX512 \<longrightarrow> exact_ops ops"
  shows "InnerProductDistanceSIMD16ExtResiduals ops ext a b q = InnerProductDistance a b q"
  using InnerProduct_split [of "q div 16 * 16" q a b] InnerProductSIMD16Ext_sum [OF assms, of a b "q div 16 * 16"]
  by (simp add: InnerProductDistanceSIMD16ExtResiduals_def Let_def InnerProductDistance_def mult.commute [of 16])

lemma ip4_residuals_exact:
  fixes a b :: "'f::comm_ring_1 ptr"
  shows "InnerProductDistanceSIMD4ExtResiduals ext4 a b q = InnerProductDistance a b q"
  using InnerProduct_split [of "q div 4 * 4" q a b] InnerProductSIMD4Ext_sum [of ext4 a b "q div 4 * 4"]
  by (simp add: InnerProductDistanceSIMD4ExtResiduals_def Let_def InnerProductDistance_def mult.commute [of 4])

lemmas ip_kernels_exact = ip16_exact ip4_exact ip16_residuals_exact ip4_residuals_exact



end
