(* ===== verification/Std_Heap.thy ===== *)
theory Std_Heap
  imports Prelude
begin

text \<open>
  The container every search of the program runs on: \<open>std::priority_queue\<close> over a
  \<open>std::vector\<close>. The model is the array heap of the C++ library the build uses
  (\<open>std::push_heap\<close> moves a hole up from the end, \<open>std::pop_heap\<close> moves a hole down to
  a leaf along the larger children and then moves the last element up from there), so
  that even the order of equal keys is the one of the running program. The comparator
  \<open>lt\<close> is a parameter: the program uses \<open>CompareByFirst\<close> and the lexicographic order
  of pairs.

  The contract a client relies on is the locale \<open>priority_queue\<close>; every strict weak
  order gives an instance of it.
\<close>

subsection \<open>The operations\<close>

function sift_up :: "('a \<Rightarrow> 'a \<Rightarrow> bool) \<Rightarrow> 'a list \<Rightarrow> nat \<Rightarrow> 'a \<Rightarrow> 'a list" where
  "sift_up lt xs h v =
     (if 0 < h \<and> lt (xs ! ((h - 1) div 2)) v
      then sift_up lt (xs[h := xs ! ((h - 1) div 2)]) ((h - 1) div 2) v
      else xs[h := v])"
  by pat_completeness auto
termination
  by (relation "measure (\<lambda>(lt, xs, h, v). h)") auto

declare sift_up.simps [simp del]

definition larger_child :: "('a \<Rightarrow> 'a \<Rightarrow> bool) \<Rightarrow> 'a list \<Rightarrow> nat \<Rightarrow> nat" where
  "larger_child lt xs h = (if lt (xs ! (2 * h + 2)) (xs ! (2 * h + 1)) then 2 * h + 1 else 2 * h + 2)"

lemma larger_child_bounds: "h < larger_child lt xs h \<and> larger_child lt xs h \<le> 2 * h + 2"
  by (auto simp: larger_child_def)

function sift_down :: "('a \<Rightarrow> 'a \<Rightarrow> bool) \<Rightarrow> 'a list \<Rightarrow> nat \<Rightarrow> 'a list \<times> nat" where
  "sift_down lt xs h =
     (if h < (length xs - 1) div 2
      then sift_down lt (xs[h := xs ! larger_child lt xs h]) (larger_child lt xs h)
      else if 2 \<le> length xs \<and> even (length xs) \<and> h = (length xs - 2) div 2
      then (xs[h := xs ! (2 * h + 1)], 2 * h + 1)
      else (xs, h))"
  by pat_completeness auto
termination
proof (relation "measure (\<lambda>(lt, xs, h). length xs - h)")
  fix lt :: "'a \<Rightarrow> 'a \<Rightarrow> bool" and xs :: "'a list" and h :: nat
  assume "h < (length xs - 1) div 2"
  then show "((lt, xs[h := xs ! larger_child lt xs h], larger_child lt xs h), lt, xs, h)
      \<in> measure (\<lambda>(lt, xs, h). length xs - h)"
    using larger_child_bounds [of h lt xs] by auto
qed simp

declare sift_down.simps [simp del]

definition pq_push :: "('a \<Rightarrow> 'a \<Rightarrow> bool) \<Rightarrow> 'a \<Rightarrow> 'a list \<Rightarrow> 'a list" where
  "pq_push lt v xs = sift_up lt (xs @ [v]) (length xs) v"

definition pq_pop :: "('a \<Rightarrow> 'a \<Rightarrow> bool) \<Rightarrow> 'a list \<Rightarrow> 'a list" where
  "pq_pop lt xs =
     (if length xs \<le> 1 then []
      else case sift_down lt (butlast xs) 0 of (ys, h) \<Rightarrow> sift_up lt ys h (last xs))"

definition pq_top :: "'a list \<Rightarrow> 'a" where
  "pq_top xs = xs ! 0"

definition is_heap :: "('a \<Rightarrow> 'a \<Rightarrow> bool) \<Rightarrow> 'a list \<Rightarrow> bool" where
  "is_heap lt xs \<longleftrightarrow> (\<forall>i. 0 < i \<and> i < length xs \<longrightarrow> \<not> lt (xs ! ((i - 1) div 2)) (xs ! i))"

subsection \<open>Sizes and contents\<close>

lemma length_sift_up [simp]: "length (sift_up lt xs h v) = length xs"
proof (induction lt xs h v rule: sift_up.induct)
  case (1 lt xs h v)
  then show ?case by (simp add: sift_up.simps [of lt xs h v])
qed

lemma length_sift_down: "sift_down lt xs h = (ys, k) \<Longrightarrow> length ys = length xs"
proof (induction lt xs h arbitrary: ys k rule: sift_down.induct)
  case (1 lt xs h)
  from "1.prems" show ?case
    by (cases "h < (length xs - 1) div 2")
      (auto simp: sift_down.simps [of lt xs h] split: if_splits dest: "1.IH" [rotated])
qed

lemma mset_sift_up:
  "h < length xs \<Longrightarrow> mset (sift_up lt xs h v) = mset (xs[h := v])"
proof (induction lt xs h v rule: sift_up.induct)
  case (1 lt xs h v)
  let ?p = "(h - 1) div 2"
  show ?case
  proof (cases "0 < h \<and> lt (xs ! ?p) v")
    case True
    then have "?p < h" by auto
    with "1.prems" have p: "?p < length xs" "h \<noteq> ?p" by auto
    with True "1.IH" have "mset (sift_up lt xs h v) = mset (xs[h := xs ! ?p, ?p := v])"
      by (simp add: sift_up.simps [of lt xs h v])
    also have "\<dots> = mset (xs[h := v])"
      using p "1.prems" by (intro mset_update_two) auto
    finally show ?thesis .
  next
    case False
    then show ?thesis by (subst sift_up.simps) (simp only: if_False)
  qed
qed

lemma sift_down_hole:
  assumes "sift_down lt xs h = (ys, k)" and "h < length xs"
  shows "k < length xs \<and> (\<forall>v. mset (ys[k := v]) = mset (xs[h := v]))"
  using assms
proof (induction lt xs h arbitrary: ys k rule: sift_down.induct)
  case (1 lt xs h)
  let ?c = "larger_child lt xs h"
  consider (inner) "h < (length xs - 1) div 2"
    | (half) "\<not> h < (length xs - 1) div 2" "2 \<le> length xs \<and> even (length xs) \<and> h = (length xs - 2) div 2"
    | (leaf) "\<not> h < (length xs - 1) div 2" "\<not> (2 \<le> length xs \<and> even (length xs) \<and> h = (length xs - 2) div 2)"
    by blast
  then show ?case
  proof cases
    case inner
    then have c: "?c < length xs" "h \<noteq> ?c"
      using larger_child_bounds [of h lt xs] by auto
    from inner "1.prems"(1) have "sift_down lt (xs[h := xs ! ?c]) ?c = (ys, k)"
      by (simp add: sift_down.simps [of lt xs h])
    with "1.IH" [OF inner] c
    have *: "k < length xs \<and> (\<forall>v. mset (ys[k := v]) = mset (xs[h := xs ! ?c, ?c := v]))"
      by simp
    have "mset (xs[h := xs ! ?c, ?c := v]) = mset (xs[h := v])" for v
      using c "1.prems"(2) by (intro mset_update_two) auto
    with * show ?thesis by simp
  next
    case half
    have "sift_down lt xs h = (xs[h := xs ! (2 * h + 1)], 2 * h + 1)"
      using half by (subst sift_down.simps) (simp only: if_False if_True simp_thms)
    with "1.prems" have k: "k = 2 * h + 1" and ys: "ys = xs[h := xs ! k]" by auto
    have "k < length xs" using half k by auto
    then have "mset (xs[h := xs ! k, k := v]) = mset (xs[h := v])" for v
      using k "1.prems"(2) by (intro mset_update_two) auto
    with \<open>k < length xs\<close> ys show ?thesis by simp
  next
    case leaf
    with "1.prems" show ?thesis by (auto simp: sift_down.simps [of lt xs h])
  qed
qed

lemma length_pq_push [heap_simps]: "length (pq_push lt v xs) = Suc (length xs)"
  by (simp add: pq_push_def)

lemma mset_pq_push [heap_simps]: "mset (pq_push lt v xs) = add_mset v (mset xs)"
  by (simp add: pq_push_def mset_sift_up)

lemma mset_pq_pop:
  assumes "xs \<noteq> []"
  shows "mset (pq_pop lt xs) = mset xs - {#pq_top xs#}"
proof (cases "length xs \<le> 1")
  case True
  with assms obtain x where "xs = [x]" by (cases xs) auto
  then show ?thesis by (simp add: pq_pop_def pq_top_def)
next
  case False
  obtain ys k where sd: "sift_down lt (butlast xs) 0 = (ys, k)" by fastforce
  have len: "0 < length (butlast xs)" using False by simp
  note hole = sift_down_hole [OF sd len]
  have k: "k < length ys" using hole length_sift_down [OF sd] by simp
  have "mset (pq_pop lt xs) = mset (ys[k := last xs])"
    using False sd k by (simp add: pq_pop_def mset_sift_up)
  also have "\<dots> = mset ((butlast xs)[0 := last xs])" using hole by blast
  also have "\<dots> = add_mset (last xs) (mset (butlast xs) - {#xs ! 0#})"
    using mset_update [OF len, of "last xs"] len by (simp add: nth_butlast)
  also have "\<dots> = mset (butlast xs) + {#last xs#} - {#xs ! 0#}"
    using nth_mem [OF len] len by (simp add: nth_butlast multiset_diff_union_assoc flip: add_mset_add_single)
  also have "mset (butlast xs) + {#last xs#} = mset xs"
    using assms by (metis append_butlast_last_id mset_append mset_single_iff_right)
  finally show ?thesis by (simp add: pq_top_def)
qed

lemma length_pq_pop [heap_simps]: "length (pq_pop lt xs) = length xs - 1"
proof (cases "xs = []")
  case False
  then have "pq_top xs \<in># mset xs" by (simp add: pq_top_def)
  then have "size (mset xs - {#pq_top xs#}) = length xs - 1"
    by (simp add: size_Diff_singleton)
  with mset_pq_pop [OF False, of lt] show ?thesis by (metis size_mset)
qed (simp add: pq_pop_def)

subsection \<open>Strict weak orders and the heap property\<close>

locale strict_weak_order =
  fixes lt :: "'a \<Rightarrow> 'a \<Rightarrow> bool"
  assumes irrefl: "\<not> lt a a"
    and trans: "lt a b \<Longrightarrow> lt b c \<Longrightarrow> lt a c"
    and neg_trans: "\<not> lt a b \<Longrightarrow> \<not> lt b c \<Longrightarrow> \<not> lt a c"
begin

lemma asym: "lt a b \<Longrightarrow> \<not> lt b a"
  using irrefl trans by blast

text \<open>
  A heap with a hole at \<open>h\<close>: the order holds on every edge that does not touch the
  hole, and across it from the parent of the hole to its children.
\<close>

definition holey :: "'a list \<Rightarrow> nat \<Rightarrow> bool" where
  "holey xs h \<longleftrightarrow> h < length xs
     \<and> (\<forall>i. 0 < i \<and> i < length xs \<and> i \<noteq> h \<and> (i - 1) div 2 \<noteq> h \<longrightarrow> \<not> lt (xs ! ((i - 1) div 2)) (xs ! i))
     \<and> (\<forall>i. 0 < h \<and> 0 < i \<and> i < length xs \<and> (i - 1) div 2 = h \<longrightarrow> \<not> lt (xs ! ((h - 1) div 2)) (xs ! i))"

lemma holeyI:
  assumes "h < length xs"
    and "\<And>i. 0 < i \<Longrightarrow> i < length xs \<Longrightarrow> i \<noteq> h \<Longrightarrow> (i - 1) div 2 \<noteq> h \<Longrightarrow> \<not> lt (xs ! ((i - 1) div 2)) (xs ! i)"
    and "\<And>i. 0 < h \<Longrightarrow> 0 < i \<Longrightarrow> i < length xs \<Longrightarrow> (i - 1) div 2 = h \<Longrightarrow> \<not> lt (xs ! ((h - 1) div 2)) (xs ! i)"
  shows "holey xs h"
  using assms unfolding holey_def by blast

lemma holey_edge:
  "holey xs h \<Longrightarrow> 0 < i \<Longrightarrow> i < length xs \<Longrightarrow> i \<noteq> h \<Longrightarrow> (i - 1) div 2 \<noteq> h
    \<Longrightarrow> \<not> lt (xs ! ((i - 1) div 2)) (xs ! i)"
  by (auto simp: holey_def)

lemma holey_across:
  "holey xs h \<Longrightarrow> 0 < h \<Longrightarrow> 0 < i \<Longrightarrow> i < length xs \<Longrightarrow> (i - 1) div 2 = h
    \<Longrightarrow> \<not> lt (xs ! ((h - 1) div 2)) (xs ! i)"
  by (auto simp: holey_def)

lemma heap_holey: "is_heap lt xs \<Longrightarrow> xs \<noteq> [] \<Longrightarrow> holey xs 0"
  by (auto simp: is_heap_def holey_def)

text \<open>Moving the hole up past a smaller parent.\<close>

lemma holey_up:
  assumes "holey xs h" and "0 < h"
  shows "holey (xs[h := xs ! ((h - 1) div 2)]) ((h - 1) div 2)"
proof -
  let ?p = "(h - 1) div 2"
  let ?ys = "xs[h := xs ! ?p]"
  have h: "h < length xs" using assms(1) by (simp add: holey_def)
  have p: "?p < h" using assms(2) by auto
  have edge: "\<not> lt (?ys ! ((i - 1) div 2)) (?ys ! i)"
    if i: "0 < i" "i < length xs" "i \<noteq> ?p" "(i - 1) div 2 \<noteq> ?p" for i
  proof (cases "(i - 1) div 2 = h")
    case True
    then have "i \<noteq> h" using i(1) by auto
    with True h i show ?thesis using holey_across [OF assms(1,2) i(1,2) True] by simp
  next
    case False
    moreover have "i \<noteq> h" using i(4) by auto
    ultimately show ?thesis using holey_edge [OF assms(1) i(1,2)] by simp
  qed
  have across: "\<not> lt (?ys ! ((?p - 1) div 2)) (?ys ! i)"
    if p0: "0 < ?p" and i: "0 < i" "i < length xs" "(i - 1) div 2 = ?p" for i
  proof -
    let ?g = "(?p - 1) div 2"
    have g: "?g < ?p" using p0 by auto
    have gp: "\<not> lt (xs ! ?g) (xs ! ?p)"
      using holey_edge [OF assms(1) p0] h p g by simp
    show ?thesis
    proof (cases "i = h")
      case True
      then show ?thesis using gp g p h by simp
    next
      case False
      then have "\<not> lt (xs ! ?p) (xs ! i)"
        using holey_edge [OF assms(1) i(1,2)] i(3) p by simp
      then show ?thesis using neg_trans gp False g p by simp
    qed
  qed
  show ?thesis
  proof (rule holeyI)
    show "?p < length ?ys" using p h by simp
  next
    fix i
    assume "0 < i" "i < length ?ys" "i \<noteq> ?p" "(i - 1) div 2 \<noteq> ?p"
    then show "\<not> lt (?ys ! ((i - 1) div 2)) (?ys ! i)" by (intro edge) simp_all
  next
    fix i
    assume "0 < ?p" "0 < i" "i < length ?ys" "(i - 1) div 2 = ?p"
    then show "\<not> lt (?ys ! ((?p - 1) div 2)) (?ys ! i)" by (intro across) simp_all
  qed
qed

text \<open>Filling the hole with a value no larger than its parent and no smaller than its children.\<close>

lemma holey_fill:
  assumes "holey xs h"
    and "0 < h \<Longrightarrow> \<not> lt (xs ! ((h - 1) div 2)) v"
    and "\<And>i. 0 < i \<Longrightarrow> i < length xs \<Longrightarrow> (i - 1) div 2 = h \<Longrightarrow> \<not> lt v (xs ! i)"
  shows "is_heap lt (xs[h := v])"
  unfolding is_heap_def
proof (intro allI impI)
  fix i assume i: "0 < i \<and> i < length (xs[h := v])"
  have h: "h < length xs" using assms(1) by (simp add: holey_def)
  consider "i = h" | "(i - 1) div 2 = h" | "i \<noteq> h" "(i - 1) div 2 \<noteq> h" by blast
  then show "\<not> lt (xs[h := v] ! ((i - 1) div 2)) (xs[h := v] ! i)"
  proof cases
    case 1
    then have "(h - 1) div 2 \<noteq> h" using i by auto
    with 1 i h assms(2) show ?thesis by simp
  next
    case 2
    then have "i \<noteq> h" using i by auto
    with 2 i h assms(3) show ?thesis by simp
  next
    case 3
    with i show ?thesis using holey_edge [OF assms(1)] by simp
  qed
qed

lemma heap_sift_up:
  assumes "holey xs h"
    and "\<And>i. 0 < i \<Longrightarrow> i < length xs \<Longrightarrow> (i - 1) div 2 = h \<Longrightarrow> \<not> lt v (xs ! i)"
  shows "is_heap lt (sift_up lt xs h v)"
  using assms
proof (induction h arbitrary: xs rule: less_induct)
  case (less h)
  let ?p = "(h - 1) div 2"
  show ?case
  proof (cases "0 < h \<and> lt (xs ! ?p) v")
    case True
    then have p: "?p < h" by auto
    have h: "h < length xs" using less.prems(1) by (simp add: holey_def)
    have vp: "\<not> lt v (xs ! ?p)" using asym True by blast
    have below: "\<not> lt v (xs[h := xs ! ?p] ! i)" if i: "0 < i" "i < length xs" "(i - 1) div 2 = ?p" for i
    proof (cases "i = h")
      case True
      then show ?thesis using vp h by simp
    next
      case False
      then have "\<not> lt (xs ! ?p) (xs ! i)"
        using holey_edge [OF less.prems(1) i(1,2)] i(3) p by simp
      then show ?thesis using neg_trans [OF vp] False by simp
    qed
    have "is_heap lt (sift_up lt (xs[h := xs ! ?p]) ?p v)"
    proof (rule less.IH [OF p holey_up [OF less.prems(1)]])
      show "0 < h" using True ..
    qed (use below in simp)
    then show ?thesis using True by (simp add: sift_up.simps [of lt xs h v])
  next
    case False
    have "sift_up lt xs h v = xs[h := v]"
      using False by (subst sift_up.simps) (simp only: if_False)
    moreover have "is_heap lt (xs[h := v])"
      by (rule holey_fill [OF less.prems(1)]) (use False less.prems(2) in blast)+
    ultimately show ?thesis by simp
  qed
qed

text \<open>Moving the hole down to the larger child.\<close>

lemma holey_down:
  assumes "holey xs h" and "h < (length xs - 1) div 2"
  shows "holey (xs[h := xs ! larger_child lt xs h]) (larger_child lt xs h)"
proof -
  let ?c = "larger_child lt xs h"
  let ?ys = "xs[h := xs ! ?c]"
  have h: "h < length xs" using assms(1) by (simp add: holey_def)
  have c: "h < ?c" "?c < length xs" "(?c - 1) div 2 = h"
    using assms(2) by (auto simp: larger_child_def)
  have edge: "\<not> lt (?ys ! ((i - 1) div 2)) (?ys ! i)"
    if i: "0 < i" "i < length xs" "i \<noteq> ?c" "(i - 1) div 2 \<noteq> ?c" for i
  proof -
    consider (at) "i = h" | (sib) "(i - 1) div 2 = h" | (off) "i \<noteq> h" "(i - 1) div 2 \<noteq> h" by blast
    then show ?thesis
    proof cases
      case at
      then have "(h - 1) div 2 \<noteq> h" using i by auto
      with at h i show ?thesis using holey_across [OF assms(1) _ _ c(2,3)] c(1) by simp
    next
      case sib
      then have "i = 2 * h + 1 \<or> i = 2 * h + 2" using i(1) by auto
      then have "\<not> lt (xs ! ?c) (xs ! i)"
        using i(3) asym irrefl by (auto simp: larger_child_def split: if_splits)
      moreover have "i \<noteq> h" using sib i(1) by auto
      ultimately show ?thesis using sib h by simp
    next
      case off
      then show ?thesis using holey_edge [OF assms(1) i(1,2)] by simp
    qed
  qed
  have across: "\<not> lt (?ys ! ((?c - 1) div 2)) (?ys ! i)"
    if i: "0 < i" "i < length xs" "(i - 1) div 2 = ?c" for i
  proof -
    have "i \<noteq> h" using i c(1) by auto
    then have "\<not> lt (xs ! ?c) (xs ! i)"
      using holey_edge [OF assms(1) i(1,2)] i(3) c(1) by simp
    then show ?thesis using \<open>i \<noteq> h\<close> c(3) h by simp
  qed
  show ?thesis
  proof (rule holeyI)
    show "?c < length ?ys" using c by simp
  next
    fix i
    assume "0 < i" "i < length ?ys" "i \<noteq> ?c" "(i - 1) div 2 \<noteq> ?c"
    then show "\<not> lt (?ys ! ((i - 1) div 2)) (?ys ! i)" by (intro edge) simp_all
  next
    fix i
    assume "0 < ?c" "0 < i" "i < length ?ys" "(i - 1) div 2 = ?c"
    then show "\<not> lt (?ys ! ((?c - 1) div 2)) (?ys ! i)" by (intro across) simp_all
  qed
qed

lemma sift_down_holey:
  assumes "sift_down lt xs h = (ys, k)" and "holey xs h"
  shows "holey ys k \<and> length ys \<le> 2 * k + 1"
  using assms
proof (induction "length xs - h" arbitrary: xs h rule: less_induct)
  case less
  consider (inner) "h < (length xs - 1) div 2"
    | (half) "\<not> h < (length xs - 1) div 2" "2 \<le> length xs \<and> even (length xs) \<and> h = (length xs - 2) div 2"
    | (leaf) "\<not> h < (length xs - 1) div 2" "\<not> (2 \<le> length xs \<and> even (length xs) \<and> h = (length xs - 2) div 2)"
    by blast
  then show ?case
  proof cases
    case inner
    let ?c = "larger_child lt xs h"
    from inner less.prems(1) have "sift_down lt (xs[h := xs ! ?c]) ?c = (ys, k)"
      by (simp add: sift_down.simps [of lt xs h])
    moreover have "length (xs[h := xs ! ?c]) - ?c < length xs - h"
      using larger_child_bounds [of h lt xs] inner by auto
    ultimately show ?thesis using less.hyps holey_down [OF less.prems(2) inner] by blast
  next
    case half
    have "sift_down lt xs h = (xs[h := xs ! (2 * h + 1)], 2 * h + 1)"
      using half by (subst sift_down.simps) (simp only: if_False if_True simp_thms)
    with less.prems(1) have k: "k = 2 * h + 1" and ys: "ys = xs[h := xs ! k]" by auto
    have len: "length xs = 2 * h + 2" using half(2) by auto
    have edge: "\<not> lt (ys ! ((i - 1) div 2)) (ys ! i)"
      if i: "0 < i" "i < length xs" "i \<noteq> k" for i
    proof (cases "i = h")
      case True
      then have "(h - 1) div 2 \<noteq> h" using i by auto
      with True i show ?thesis
        using holey_across [OF less.prems(2), of k] k len ys by simp
    next
      case False
      moreover have "(i - 1) div 2 \<noteq> h" using i len k by auto
      ultimately show ?thesis using holey_edge [OF less.prems(2) i(1,2)] ys by simp
    qed
    show ?thesis using edge len k ys by (auto simp: holey_def)
  next
    case leaf
    have "sift_down lt xs h = (xs, h)"
      using leaf by (subst sift_down.simps) (simp only: if_False)
    moreover have "length xs \<le> 2 * h + 1"
      using leaf by (cases "even (length xs)") (auto elim!: evenE oddE)
    ultimately show ?thesis using less.prems by auto
  qed
qed

lemma heap_pq_push: "is_heap lt xs \<Longrightarrow> is_heap lt (pq_push lt v xs)"
  unfolding pq_push_def
proof (rule heap_sift_up)
  assume heap: "is_heap lt xs"
  show "holey (xs @ [v]) (length xs)"
    by (rule holeyI) (use heap in \<open>auto simp: is_heap_def nth_append\<close>)
next
  fix i
  assume "0 < i" "i < length (xs @ [v])" "(i - 1) div 2 = length xs"
  then have False by auto
  then show "\<not> lt v ((xs @ [v]) ! i)" ..
qed

lemma heap_pq_pop:
  assumes "is_heap lt xs"
  shows "is_heap lt (pq_pop lt xs)"
proof (cases "length xs \<le> 1")
  case False
  obtain ys k where sd: "sift_down lt (butlast xs) 0 = (ys, k)" by fastforce
  have "is_heap lt (butlast xs)"
    using assms by (auto simp: is_heap_def nth_butlast)
  moreover have "butlast xs \<noteq> []" using False by (cases xs) auto
  ultimately have "holey (butlast xs) 0" by (rule heap_holey)
  from sift_down_holey [OF sd this] have hole: "holey ys k" "length ys \<le> 2 * k + 1" by auto
  have "is_heap lt (sift_up lt ys k (last xs))"
    by (rule heap_sift_up [OF hole(1)]) (use hole(2) in auto)
  then show ?thesis using False sd by (simp add: pq_pop_def)
qed (simp add: pq_pop_def is_heap_def)

lemma heap_top:
  assumes "is_heap lt xs" and "i < length xs"
  shows "\<not> lt (pq_top xs) (xs ! i)"
  using assms(2)
proof (induction i rule: less_induct)
  case (less i)
  show ?case
  proof (cases "i = 0")
    case True
    then show ?thesis by (simp add: pq_top_def irrefl)
  next
    case False
    then have p: "(i - 1) div 2 < i" by auto
    with less have "\<not> lt (pq_top xs) (xs ! ((i - 1) div 2))" by auto
    moreover have "\<not> lt (xs ! ((i - 1) div 2)) (xs ! i)"
      using assms(1) less.prems False by (auto simp: is_heap_def)
    ultimately show ?thesis using neg_trans by blast
  qed
qed

end

subsection \<open>The contract of a priority queue\<close>

text \<open>
  What the clients rely on: the queue holds a multiset of elements, \<open>top\<close> is one that
  no element exceeds, \<open>pop\<close> removes exactly that one.
\<close>

locale priority_queue = strict_weak_order lt
  for lt :: "'a \<Rightarrow> 'a \<Rightarrow> bool" +
  fixes push :: "'a \<Rightarrow> 'a list \<Rightarrow> 'a list"
    and pop :: "'a list \<Rightarrow> 'a list"
    and top :: "'a list \<Rightarrow> 'a"
    and invar :: "'a list \<Rightarrow> bool"
  assumes invar_empty: "invar []"
    and invar_push: "invar q \<Longrightarrow> invar (push v q)"
    and invar_pop: "invar q \<Longrightarrow> invar (pop q)"
    and mset_push: "mset (push v q) = add_mset v (mset q)"
    and mset_pop: "q \<noteq> [] \<Longrightarrow> mset (pop q) = mset q - {#top q#}"
    and top_in: "q \<noteq> [] \<Longrightarrow> top q \<in># mset q"
    and top_max: "invar q \<Longrightarrow> x \<in># mset q \<Longrightarrow> \<not> lt (top q) x"

sublocale strict_weak_order \<subseteq> std: priority_queue lt "pq_push lt" "pq_pop lt" pq_top "is_heap lt"
proof unfold_locales
  show "is_heap lt []" by (simp add: is_heap_def)
  fix q :: "'a list" and x v
  show "is_heap lt q \<Longrightarrow> is_heap lt (pq_push lt v q)" by (rule heap_pq_push)
  show "is_heap lt q \<Longrightarrow> is_heap lt (pq_pop lt q)" by (rule heap_pq_pop)
  show "mset (pq_push lt v q) = add_mset v (mset q)" by (rule mset_pq_push)
  show "q \<noteq> [] \<Longrightarrow> mset (pq_pop lt q) = mset q - {#pq_top q#}" by (rule mset_pq_pop)
  show "q \<noteq> [] \<Longrightarrow> pq_top q \<in># mset q" by (simp add: pq_top_def)
  show "is_heap lt q \<Longrightarrow> x \<in># mset q \<Longrightarrow> \<not> lt (pq_top q) x"
    by (auto simp: in_set_conv_nth dest: heap_top)
qed

text \<open>
  \<open>K\<close> is a best selection of at most \<open>k\<close> elements of \<open>S\<close>: as many as there are, and
  nothing left out is smaller than anything kept.
\<close>

definition k_best :: "('a \<Rightarrow> 'a \<Rightarrow> bool) \<Rightarrow> nat \<Rightarrow> 'a multiset \<Rightarrow> 'a multiset \<Rightarrow> bool" where
  "k_best lt k S K \<longleftrightarrow> K \<subseteq># S \<and> size K = min k (size S) \<and> (\<forall>a\<in>#K. \<forall>b\<in>#S - K. \<not> lt b a)"

lemma k_best_empty [simp]: "k_best lt k {#} {#}"
  by (simp add: k_best_def)

lemma k_best_subset: "k_best lt k S K \<Longrightarrow> K \<subseteq># S"
  by (simp add: k_best_def)

lemma k_best_size: "k_best lt k S K \<Longrightarrow> size K = min k (size S)"
  by (simp add: k_best_def)

lemma k_best_all:
  assumes "k_best lt k S K" and "size K < k"
  shows "K = S"
proof (rule ccontr)
  assume "K \<noteq> S"
  with assms(1) have "K \<subset># S" by (simp add: k_best_def subset_mset.less_le)
  then have "size K < size S" by (rule mset_subset_size)
  with assms show False by (simp add: k_best_def)
qed

lemma k_best_self: "size S \<le> k \<Longrightarrow> k_best lt k S S"
  by (simp add: k_best_def)

text \<open>The bounded queue: push, and pop when the bound is exceeded.\<close>

context priority_queue
begin

lemma size_pop: "q \<noteq> [] \<Longrightarrow> length (pop q) = length q - 1"
  using mset_pop [of q] top_in [of q] size_Diff_singleton [of "top q" "mset q"]
  by (simp flip: size_mset)

lemma k_best_push_room:
  assumes "k_best lt k S (mset q)" and "length q < k"
  shows "k_best lt k (add_mset v S) (mset (push v q))"
proof -
  have "mset q = S" using assms by (intro k_best_all) auto
  moreover have "size S \<le> k" using assms calculation by (metis less_imp_le size_mset)
  ultimately show ?thesis
    using assms(2) by (simp add: mset_push k_best_def flip: size_mset)
qed

lemma k_best_push_full:
  assumes "invar q" and "k_best lt k S (mset q)" and "length q = k"
  shows "k_best lt k (add_mset v S) (mset (pop (push v q)))"
proof -
  let ?p = "push v q"
  let ?t = "top ?p"
  have ne: "?p \<noteq> []" using mset_push [of v q] by (metis add_mset_not_empty mset_zero_iff)
  have t: "?t \<in># add_mset v (mset q)" using top_in [OF ne] mset_push by simp
  have K: "mset (pop ?p) = add_mset v (mset q) - {#?t#}" using mset_pop [OF ne] mset_push by simp
  have tmax: "\<not> lt ?t x" if "x \<in># add_mset v (mset q)" for x
    using top_max [OF invar_push [OF assms(1)]] that mset_push by metis
  have sub: "mset q \<subseteq># S" using assms(2) by (rule k_best_subset)
  have rest: "add_mset v S - (add_mset v (mset q) - {#?t#}) = add_mset ?t (S - mset q)"
    using add_mset_minus_swap [OF sub t] .
  have out: "\<not> lt b x" if b: "b \<in># S - mset q" and x: "x \<in># add_mset v (mset q) - {#?t#}" for b x
  proof (cases "x \<in># mset q")
    case True
    then show ?thesis using assms(2) b by (simp add: k_best_def)
  next
    case False
    have "x \<in># add_mset v (mset q)" using x by (rule in_diffD)
    with False have xv: "x = v" by simp
    with False x have "?t \<noteq> v" by auto
    then have tq: "?t \<in># mset q" using t by simp
    then have "\<not> lt b ?t" using assms(2) b by (simp add: k_best_def)
    moreover have "\<not> lt ?t x" using tmax xv by simp
    ultimately show ?thesis by (rule neg_trans)
  qed
  have "K' \<subseteq># add_mset v S" if "K' = add_mset v (mset q) - {#?t#}" for K'
    using that sub by (meson diff_subset_eq_self mset_subset_eq_add_mset_cancel subset_mset.order_trans)
  moreover have "size (add_mset v (mset q) - {#?t#}) = k"
    using t assms(3) by (simp add: size_Diff_singleton)
  moreover have "k \<le> size S" using sub assms(3) by (metis size_mset size_mset_mono)
  ultimately show ?thesis
    unfolding k_best_def K rest using out tmax by (auto dest: in_diffD)
qed

lemma k_best_skip:
  assumes "invar q" and "k_best lt k S (mset q)" and "length q = k" and "q \<noteq> [] \<Longrightarrow> \<not> lt v (top q)"
  shows "k_best lt k (add_mset v S) (mset q)"
proof -
  have sub: "mset q \<subseteq># S" using assms(2) by (rule k_best_subset)
  have "add_mset v S - mset q = add_mset v (S - mset q)"
    using sub by (rule add_mset_minus_subset)
  moreover have "\<not> lt v a" if "a \<in># mset q" for a
  proof -
    have "q \<noteq> []" using that by auto
    then show ?thesis using neg_trans [OF assms(4) top_max [OF assms(1) that]] by simp
  qed
  moreover have "k \<le> size S" using sub assms(3) by (metis size_mset size_mset_mono)
  ultimately show ?thesis
    using assms(2,3) sub by (auto simp: k_best_def intro: subset_mset.order_trans)
qed

end

subsection \<open>Emptying and trimming a queue\<close>

text \<open>
  \<open>pq_drain\<close> is the loop \<open>while (!q.empty()) { use(q.top()); q.pop(); }\<close>, as the list
  of elements it uses; \<open>pq_trim\<close> is \<open>while (q.size() > k) q.pop();\<close>.
\<close>

function pq_drain :: "('a \<Rightarrow> 'a \<Rightarrow> bool) \<Rightarrow> 'a list \<Rightarrow> 'a list" where
  "pq_drain lt q = (if q = [] then [] else pq_top q # pq_drain lt (pq_pop lt q))"
  by pat_completeness auto
termination
  by (relation "measure (\<lambda>(lt, q). length q)") (auto simp: heap_simps)

declare pq_drain.simps [simp del]

function pq_trim :: "('a \<Rightarrow> 'a \<Rightarrow> bool) \<Rightarrow> nat \<Rightarrow> 'a list \<Rightarrow> 'a list" where
  "pq_trim lt k q = (if k < length q then pq_trim lt k (pq_pop lt q) else q)"
  by pat_completeness auto
termination
  by (relation "measure (\<lambda>(lt, k, q). length q)") (auto simp: heap_simps)

declare pq_trim.simps [simp del]

lemma mset_pq_drain [heap_simps]: "mset (pq_drain lt q) = mset q"
proof (induction lt q rule: pq_drain.induct)
  case (1 lt q)
  show ?case
  proof (cases "q = []")
    case False
    then have "pq_top q \<in># mset q" by (simp add: pq_top_def)
    with 1 False show ?thesis
      by (simp add: pq_drain.simps [of lt q] mset_pq_pop)
  qed (simp add: pq_drain.simps)
qed

lemma set_pq_drain [heap_simps]: "set (pq_drain lt q) = set q"
  using mset_pq_drain [of lt q] by (metis set_mset_mset)

lemma length_pq_drain [heap_simps]: "length (pq_drain lt q) = length q"
  using mset_pq_drain [of lt q] by (metis size_mset)

lemma length_pq_trim [heap_simps]: "length (pq_trim lt k q) = min k (length q)"
proof (induction lt k q rule: pq_trim.induct)
  case (1 lt k q)
  then show ?case by (cases "k < length q") (auto simp: pq_trim.simps [of lt k q] heap_simps)
qed

context strict_weak_order
begin

lemma sorted_pq_drain:
  "is_heap lt q \<Longrightarrow> sorted_wrt (\<lambda>a b. \<not> lt a b) (pq_drain lt q)"
proof (induction "length q" arbitrary: q rule: less_induct)
  case less
  show ?case
  proof (cases "q = []")
    case False
    have "\<not> lt (pq_top q) x" if "x \<in> set (pq_drain lt (pq_pop lt q))" for x
    proof -
      have "x \<in># mset q"
        using that mset_pq_pop [OF False, of lt] by (metis in_diffD set_mset_mset set_pq_drain)
      then show ?thesis using std.top_max [OF less.prems] by blast
    qed
    moreover have "length (pq_pop lt q) < length q" using False by (simp add: heap_simps)
    ultimately show ?thesis
      using False less heap_pq_pop by (simp add: pq_drain.simps [of lt q])
  qed (simp add: pq_drain.simps)
qed

lemma pq_trim_heap_and_best:
  assumes "is_heap lt q" and "mset q \<subseteq># S" and "\<forall>a\<in>#mset q. \<forall>b\<in>#S - mset q. \<not> lt b a"
  shows "is_heap lt (pq_trim lt k q) \<and> mset (pq_trim lt k q) \<subseteq># S
    \<and> (\<forall>a\<in>#mset (pq_trim lt k q). \<forall>b\<in>#S - mset (pq_trim lt k q). \<not> lt b a)"
  using assms
proof (induction "length q" arbitrary: q rule: less_induct)
  case less
  show ?case
  proof (cases "k < length q")
    case True
    then have ne: "q \<noteq> []" by auto
    let ?p = "pq_pop lt q"
    have p: "mset ?p = mset q - {#pq_top q#}" by (rule mset_pq_pop [OF ne])
    have t: "pq_top q \<in># mset q" using ne by (simp add: pq_top_def)
    have sub: "mset ?p \<subseteq># S" using less.prems(2) p by (metis diff_subset_eq_self subset_mset.order_trans)
    have rest: "S - mset ?p = add_mset (pq_top q) (S - mset q)"
      unfolding p by (rule minus_remove_one [OF less.prems(2) t])
    have best: "\<forall>a\<in>#mset ?p. \<forall>b\<in>#S - mset ?p. \<not> lt b a"
      using less.prems(3) std.top_max [OF less.prems(1)] unfolding rest by (auto simp: p dest: in_diffD)
    have "length ?p < length q" using ne by (simp add: heap_simps)
    from less.hyps [OF this heap_pq_pop [OF less.prems(1)] sub best] True
    show ?thesis by (simp add: pq_trim.simps [of lt k q])
  next
    case False
    then show ?thesis using less.prems by (simp add: pq_trim.simps [of lt k q])
  qed
qed

lemma heap_pq_trim: "is_heap lt q \<Longrightarrow> is_heap lt (pq_trim lt k q)"
  using pq_trim_heap_and_best [of q "mset q" k] by simp

lemma k_best_pq_trim: "is_heap lt q \<Longrightarrow> k_best lt k (mset q) (mset (pq_trim lt k q))"
  using pq_trim_heap_and_best [of q "mset q" k] by (simp add: k_best_def heap_simps)

end

subsection \<open>The two orders the program uses\<close>

text \<open>
  \<open>CompareByFirst\<close> orders (distance, id) pairs by distance alone; \<open>pair_less\<close> is
  \<open>std::less<std::pair<...>>\<close>, which breaks ties on the second component.
\<close>

definition CompareByFirst :: "'d::linorder \<times> 'i \<Rightarrow> 'd \<times> 'i \<Rightarrow> bool" where
  "CompareByFirst a b \<longleftrightarrow> fst a < fst b"

definition pair_less :: "'d::linorder \<times> 'i::linorder \<Rightarrow> 'd \<times> 'i \<Rightarrow> bool" where
  "pair_less a b \<longleftrightarrow> fst a < fst b \<or> (\<not> fst b < fst a \<and> snd a < snd b)"

interpretation by_first: strict_weak_order CompareByFirst
  by unfold_locales (auto simp: CompareByFirst_def)

interpretation by_pair: strict_weak_order pair_less
  by unfold_locales (auto simp: pair_less_def)

end
