(* ===== verification/Bytes.thy ===== *)
theory Bytes
  imports Prelude
begin

text \<open>
  Memory and files as lists of bytes: what \<open>memcpy\<close>, the casts of \<open>char *\<close> to
  integer pointers and the helpers \<open>writeBinaryPOD\<close>/\<open>readBinaryPOD\<close> of \<open>hnswlib.h\<close> do.
  Integers are stored with the least significant byte first.
\<close>

type_synonym byte = "8 word"

fun le_bytes :: "nat \<Rightarrow> nat \<Rightarrow> byte list" where
  "le_bytes 0 x = []"
| "le_bytes (Suc n) x = of_nat (x mod 256) # le_bytes n (x div 256)"

fun le_val :: "byte list \<Rightarrow> nat" where
  "le_val [] = 0"
| "le_val (b # bs) = unat b + 256 * le_val bs"

definition get_bytes :: "byte list \<Rightarrow> nat \<Rightarrow> nat \<Rightarrow> byte list" where
  "get_bytes mem off n = take n (drop off mem)"

definition put_bytes :: "byte list \<Rightarrow> nat \<Rightarrow> byte list \<Rightarrow> byte list" where
  "put_bytes mem off bs = take off mem @ bs @ drop (off + length bs) mem"

text \<open>
  \<open>writeBinaryPOD\<close> appends the bytes of a value of \<open>n\<close> bytes. \<open>readBinaryPOD\<close> overwrites the
  variable with what the stream still has: on a short read the bytes that are not there keep their old
  value and the stream is exhausted.
\<close>

definition writeBinaryPOD :: "byte list \<Rightarrow> nat \<Rightarrow> nat \<Rightarrow> byte list" where
  "writeBinaryPOD out n x = out @ le_bytes n x"

definition readBinaryPOD :: "byte list \<Rightarrow> nat \<Rightarrow> nat \<Rightarrow> nat \<times> byte list" where
  "readBinaryPOD inp n old = (le_val (take n inp @ drop (length inp) (le_bytes n old)), drop n inp)"

text \<open>\<open>input.read(buf, n)\<close> on a buffer of at least \<open>n\<close> bytes.\<close>

definition stream_read :: "byte list \<Rightarrow> byte list \<Rightarrow> nat \<Rightarrow> byte list \<times> byte list" where
  "stream_read inp buf n = (put_bytes buf 0 (take n inp), drop n inp)"

lemma length_le_bytes [simp]: "length (le_bytes n x) = n"
  by (induction n arbitrary: x) simp_all

lemma le_val_le_bytes: "le_val (le_bytes n x) = x mod 256 ^ n"
proof (induction n arbitrary: x)
  case (Suc n)
  have "unat (of_nat (x mod 256) :: byte) = x mod 256"
    by (simp add: unat_of_nat)
  then show ?case using Suc [of "x div 256"] by (simp add: mod_mult2_eq)
qed simp

lemma le_val_le_bytes_id [simp]: "x < 256 ^ n \<Longrightarrow> le_val (le_bytes n x) = x"
  by (simp add: le_val_le_bytes)

lemma unat_byte: "unat (b :: byte) < 256"
proof -
  have "unat b < 2 ^ LENGTH(8)" by (rule unsigned_less)
  then show ?thesis by simp
qed

lemma le_val_bound: "le_val bs < 256 ^ length bs"
proof (induction bs)
  case (Cons b bs)
  have "unat b < 256" by (rule unat_byte)
  then show ?case using Cons by simp
qed simp

lemma le_bytes_le_val: "length bs = n \<Longrightarrow> le_bytes n (le_val bs) = bs"
proof (induction bs arbitrary: n)
  case (Cons b bs)
  have "unat b < 256" by (rule unat_byte)
  then show ?case using Cons by (cases n) simp_all
qed simp

lemma length_put_bytes [simp]:
  "off + length bs \<le> length mem \<Longrightarrow> length (put_bytes mem off bs) = length mem"
  by (simp add: put_bytes_def)

lemma length_get_bytes [simp]: "off + n \<le> length mem \<Longrightarrow> length (get_bytes mem off n) = n"
  by (simp add: get_bytes_def)

lemma nth_put_bytes:
  assumes "off + length bs \<le> length mem" and "i < length mem"
  shows "put_bytes mem off bs ! i = (if off \<le> i \<and> i < off + length bs then bs ! (i - off) else mem ! i)"
  using assms by (auto simp: put_bytes_def nth_append min_def)

lemma get_bytes_eq_iff:
  assumes "off + n \<le> length mem" and "length mem' = length mem"
  shows "get_bytes mem' off n = get_bytes mem off n \<longleftrightarrow> (\<forall>i. off \<le> i \<and> i < off + n \<longrightarrow> mem' ! i = mem ! i)"
proof -
  have "(\<forall>j<n. mem' ! (off + j) = mem ! (off + j)) \<longleftrightarrow> (\<forall>i. off \<le> i \<and> i < off + n \<longrightarrow> mem' ! i = mem ! i)"
    by (metis add_less_cancel_left le_add1 le_iff_add)
  then show ?thesis using assms by (auto simp: get_bytes_def list_eq_iff_nth_eq)
qed

lemma get_put_same:
  "off + length bs \<le> length mem \<Longrightarrow> get_bytes (put_bytes mem off bs) off (length bs) = bs"
  by (simp add: get_bytes_def put_bytes_def)

lemma get_put_disjoint:
  assumes "off + length bs \<le> length mem" and "off' + n \<le> length mem"
    and "off' + n \<le> off \<or> off + length bs \<le> off'"
  shows "get_bytes (put_bytes mem off bs) off' n = get_bytes mem off' n"
  using assms by (subst get_bytes_eq_iff) (auto simp: nth_put_bytes)

lemma readBinaryPOD_write:
  "x < 256 ^ n \<Longrightarrow> readBinaryPOD (le_bytes n x @ rest) n old = (x, rest)"
  by (simp add: readBinaryPOD_def)

lemma stream_read_full: "length bs = n \<Longrightarrow> length buf = n \<Longrightarrow> stream_read (bs @ rest) buf n = (bs, rest)"
  by (simp add: stream_read_def put_bytes_def)

lemma put_put_adjacent:
  assumes "off + length cs + length bs \<le> length mem"
  shows "put_bytes (put_bytes mem (off + length cs) bs) off cs = put_bytes mem off (cs @ bs)"
  using assms by (simp add: put_bytes_def add.assoc)

text \<open>An array of blocks of \<open>s\<close> bytes.\<close>

lemma block_bound: "i < n \<Longrightarrow> s * i + s \<le> n * (s :: nat)"
  using mult_le_mono1 [of "Suc i" n s] by (simp add: ac_simps)

lemma block_disjoint: "i \<noteq> j \<Longrightarrow> s * i + s \<le> s * j \<or> s * j + s \<le> s * (i :: nat)"
  using mult_le_mono2 [of "Suc i" j s] mult_le_mono2 [of "Suc j" i s] by (cases "i < j") auto

lemma get_put_block:
  assumes "length mem = n * s" and "length blk = s" and "i < n" and "j < n"
  shows "get_bytes (put_bytes mem (s * i) blk) (s * j) s = (if i = j then blk else get_bytes mem (s * j) s)"
proof (cases "i = j")
  case True
  then show ?thesis
    using get_put_same [of "s * j" blk mem] block_bound [OF assms(4), of s] assms by simp
next
  case False
  then show ?thesis
    using get_put_disjoint [of "s * i" blk mem "s * j" s] block_disjoint [OF False, of s]
      block_bound [OF assms(3), of s] block_bound [OF assms(4), of s] assms
    by auto
qed

lemma get_bytes_prefix: "m \<le> s \<Longrightarrow> get_bytes mem off m = take m (get_bytes mem off s)"
  by (simp add: get_bytes_def)

lemma get_bytes_suffix: "get_bytes mem (off + m) n = drop m (get_bytes mem off (m + n))"
  by (simp add: get_bytes_def drop_take ac_simps)

end
