(* ===== verification/Algorithm_Interface.thy ===== *)
theory Algorithm_Interface
  imports Std_Heap Bytes
begin

text \<open>
  The interfaces of \<open>hnswlib.h\<close>: \<open>SpaceInterface\<close> (size of a vector in bytes and distance
  function), the filter on labels (\<open>BaseFilterFunctor\<close>, where a null pointer is \<open>None\<close>), and
  \<open>AlgorithmInterface\<close> with its one implemented method \<open>searchKnnCloserFirst\<close>. The virtual
  \<open>searchKnn\<close> is an argument here; the locale \<open>algorithm_interface\<close> states what
  an implementation owes, and each index class interprets it.

  A vector is the list of its bytes, as the classes see it through \<open>const void *\<close>. Labels
  (\<open>size_t\<close>) are naturals below \<open>2 ^ 64\<close>.
\<close>

type_synonym labeltype = nat

record 'd space_interface =
  get_data_size :: nat
  get_dist_func :: "byte list \<Rightarrow> byte list \<Rightarrow> 'd"

type_synonym filter_functor = "(labeltype \<Rightarrow> bool) option"

text \<open>\<open>(!isIdAllowed) || (*isIdAllowed)(label)\<close>\<close>

definition allowed :: "filter_functor \<Rightarrow> labeltype \<Rightarrow> bool" where
  "allowed isIdAllowed label = (case isIdAllowed of None \<Rightarrow> True | Some f \<Rightarrow> f label)"

lemma allowed_None [simp]: "allowed None l"
  by (simp add: allowed_def)

text \<open>\<open>while (!ret.empty()) { result[--sz] = ret.top(); ret.pop(); }\<close>\<close>

function fill_back :: "('a \<Rightarrow> 'a \<Rightarrow> bool) \<Rightarrow> nat \<Rightarrow> 'a list \<Rightarrow> 'a list \<Rightarrow> 'a list" where
  "fill_back lt sz ret result =
     (if ret = [] then result
      else fill_back lt (sz - 1) (pq_pop lt ret) (result[sz - 1 := pq_top ret]))"
  by pat_completeness auto
termination
  by (relation "measure (\<lambda>(lt, sz, ret, result). length ret)") (auto simp: heap_simps)

declare fill_back.simps [simp del]

definition searchKnnCloserFirst ::
    "('q \<Rightarrow> nat \<Rightarrow> filter_functor \<Rightarrow> 'e + ('d::{linorder,zero} \<times> labeltype) list)
      \<Rightarrow> 'q \<Rightarrow> nat \<Rightarrow> filter_functor \<Rightarrow> 'e + ('d \<times> labeltype) list" where
  "searchKnnCloserFirst searchKnn query_data k isIdAllowed =
     bindE (searchKnn query_data k isIdAllowed)
       (\<lambda>ret. let sz = length ret in Inr (fill_back pair_less sz ret (replicate sz (0, 0))))"

lemma fill_back_drain:
  "length ret \<le> length result \<Longrightarrow>
   fill_back lt (length ret) ret result = rev (pq_drain lt ret) @ drop (length ret) result"
proof (induction "length ret" arbitrary: ret result)
  case 0
  then show ?case by (simp add: fill_back.simps pq_drain.simps)
next
  case (Suc n)
  let ?res = "result[n := pq_top ret]"
  have ne: "ret \<noteq> []" and len: "length (pq_pop lt ret) = n" and n: "n < length result"
    using Suc.hyps(2) Suc.prems by (auto simp: heap_simps)
  have "fill_back lt n (pq_pop lt ret) ?res = rev (pq_drain lt (pq_pop lt ret)) @ drop n ?res"
    using Suc.hyps(1) [OF len [symmetric], of ?res] len n by simp
  moreover have "drop n ?res = pq_top ret # drop (Suc n) result"
    using n by (simp add: drop_update_swap [symmetric] Cons_nth_drop_Suc [symmetric])
  ultimately show ?case
    using ne by (simp add: Suc.hyps(2) [symmetric] fill_back.simps [of _ _ ret] pq_drain.simps [of _ ret])
qed

locale algorithm_interface =
  fixes searchKnn :: "'q \<Rightarrow> nat \<Rightarrow> filter_functor \<Rightarrow> 'e + ('d::{linorder,zero} \<times> labeltype) list"
  assumes returns_heap: "searchKnn q k f = Inr r \<Longrightarrow> is_heap pair_less r"
    and returns_at_most: "searchKnn q k f = Inr r \<Longrightarrow> length r \<le> k"
begin

lemma closer_first:
  assumes "searchKnnCloserFirst searchKnn q k f = Inr result"
  shows "\<exists>r. searchKnn q k f = Inr r \<and> mset result = mset r \<and> length result \<le> k
    \<and> sorted (map fst result)"
proof -
  from assms obtain r where r: "searchKnn q k f = Inr r" and res: "result = fill_back pair_less (length r) r (replicate (length r) (0, 0))"
    by (auto simp: searchKnnCloserFirst_def bindE_Inr_iff Let_def)
  then have res': "result = rev (pq_drain pair_less r)" by (simp add: fill_back_drain)
  have "sorted_wrt (\<lambda>a b. \<not> pair_less a b) (pq_drain pair_less r)"
    by (rule by_pair.sorted_pq_drain [OF returns_heap [OF r]])
  then have "sorted_wrt (\<lambda>a b. fst a \<le> fst b) result"
    unfolding res' sorted_wrt_rev by (rule sorted_wrt_mono_rel [rotated]) (auto simp: pair_less_def)
  then have "sorted (map fst result)" by (simp add: sorted_wrt_map)
  then show ?thesis
    using r returns_at_most [OF r] res' by (auto simp: heap_simps)
qed

end

text \<open>A distance for examples: vectors are small integers.\<close>

definition byte_dist :: "byte list \<Rightarrow> byte list \<Rightarrow> int" where
  "byte_dist x y = \<bar>int (le_val x) - int (le_val y)\<bar>"

end
