(* ===== verification/Stop_Condition.thy ===== *)
theory Stop_Condition
  imports Algorithm_Interface Space_IP
begin

text \<open>
  \<open>hnswlib/stop_condition.h\<close>: the spaces whose vectors carry a document id behind the
  floats, and the two conditions that steer a search. \<open>stop_condition\<close> is the abstract
  class \<open>BaseSearchStopCondition\<close> as a record of its methods over the state of the
  object; the graph search calls it through that record. \<open>doc_counter_\<close> is a total
  function because \<open>operator[]\<close> of an \<open>unordered_map\<close> creates missing counters as 0.
  Counters are \<open>size_t\<close> and wrap.
\<close>

subsection \<open>Spaces with document ids\<close>

record 'f mv_space =
  mv_func :: 'f
  mv_data_size :: nat
  mv_vector_size :: nat
  mv_dim :: nat

text \<open>\<open>n\<close> is \<open>sizeof(DOCIDTYPE)\<close>.\<close>

definition MultiVectorL2Space ::
    "build \<Rightarrow> bool \<Rightarrow> bool \<Rightarrow> nat \<Rightarrow> simd16 \<Rightarrow> nat \<Rightarrow> simd16 \<times> l2_func mv_space" where
  "MultiVectorL2Space bld avx avx512 n ext dim =
     (let ext' = (if USE_RVV bld then ext else redirect_simd16 bld avx avx512 ext)
      in (ext', \<lparr>mv_func = choose_l2 bld ext' dim, mv_data_size = dim * 4 + n, mv_vector_size = dim * 4,
                mv_dim = dim\<rparr>))"

text \<open>This constructor does not assign \<open>dim_\<close>: the field keeps what the memory held.\<close>

definition MultiVectorInnerProductSpace ::
    "build \<Rightarrow> bool \<Rightarrow> bool \<Rightarrow> nat \<Rightarrow> nat \<Rightarrow> simd16 \<times> simd4 \<Rightarrow> nat \<Rightarrow> (simd16 \<times> simd4) \<times> ip_func mv_space" where
  "MultiVectorInnerProductSpace bld avx avx512 n uninit exts dim =
     (let ext = redirect_simd16 bld avx avx512 (fst exts);
          ext4 = redirect_simd4 bld avx (snd exts)
      in ((ext, ext4), \<lparr>mv_func = choose_ip bld ext ext4 dim, mv_data_size = dim * 4 + n, mv_vector_size = dim * 4,
                mv_dim = uninit\<rparr>))"

definition get_doc_id :: "'f mv_space \<Rightarrow> nat \<Rightarrow> byte list \<Rightarrow> nat" where
  "get_doc_id sp n datapoint = le_val (get_bytes datapoint (mv_vector_size sp) n)"

definition set_doc_id :: "'f mv_space \<Rightarrow> nat \<Rightarrow> byte list \<Rightarrow> nat \<Rightarrow> byte list" where
  "set_doc_id sp n datapoint doc_id = put_bytes datapoint (mv_vector_size sp) (le_bytes n doc_id)"

subsection \<open>The interface\<close>

record ('s, 'd) stop_condition =
  add_point_to_result :: "'s \<Rightarrow> labeltype \<Rightarrow> byte list \<Rightarrow> 'd \<Rightarrow> 's"
  remove_point_from_result :: "'s \<Rightarrow> labeltype \<Rightarrow> byte list \<Rightarrow> 'd \<Rightarrow> 's"
  should_stop_search :: "'s \<Rightarrow> 'd \<Rightarrow> 'd \<Rightarrow> bool"
  should_consider_candidate :: "'s \<Rightarrow> 'd \<Rightarrow> 'd \<Rightarrow> bool"
  should_remove_extra :: "'s \<Rightarrow> bool"
  filter_results :: "'s \<Rightarrow> ('d \<times> labeltype) list \<Rightarrow> ('s \<times> ('d \<times> labeltype) list) option"

definition dec64 :: "nat \<Rightarrow> nat" where
  "dec64 x = (x + (2 ^ 64 - 1)) mod 2 ^ 64"

definition inc64 :: "nat \<Rightarrow> nat" where
  "inc64 x = (x + 1) mod 2 ^ 64"

subsection \<open>Counting documents\<close>

record ('c, 'd) mv_state =
  curr_num_docs :: nat
  num_docs_to_search :: nat
  ef_collection :: nat
  doc_counter :: "'c \<Rightarrow> nat"
  search_results :: "('d \<times> 'c) list"

definition new_MultiVectorStop :: "nat \<Rightarrow> nat \<Rightarrow> ('c, 'd) mv_state" where
  "new_MultiVectorStop num_docs ef =
     \<lparr>curr_num_docs = 0, num_docs_to_search = num_docs, ef_collection = max ef num_docs,
      doc_counter = (\<lambda>_. 0), search_results = []\<rparr>"

definition mv_add_point :: "(byte list \<Rightarrow> 'c::linorder) \<Rightarrow> ('c, 'd::linorder) mv_state \<Rightarrow> byte list \<Rightarrow> 'd \<Rightarrow> ('c, 'd) mv_state" where
  "mv_add_point doc_of s datapoint dist =
     (let doc_id = doc_of datapoint;
          s = (if doc_counter s doc_id = 0 then s\<lparr>curr_num_docs := inc64 (curr_num_docs s)\<rparr> else s);
          s = s\<lparr>search_results := pq_push pair_less (dist, doc_id) (search_results s)\<rparr>
      in s\<lparr>doc_counter := (doc_counter s)(doc_id := inc64 (doc_counter s doc_id))\<rparr>)"

definition mv_uncount :: "('c, 'd) mv_state \<Rightarrow> 'c \<Rightarrow> ('c, 'd) mv_state" where
  "mv_uncount s doc_id =
     (let s = s\<lparr>doc_counter := (doc_counter s)(doc_id := dec64 (doc_counter s doc_id))\<rparr>
      in if doc_counter s doc_id = 0 then s\<lparr>curr_num_docs := dec64 (curr_num_docs s)\<rparr> else s)"

definition mv_pop_result :: "('c::linorder, 'd::linorder) mv_state \<Rightarrow> ('c, 'd) mv_state" where
  "mv_pop_result s = s\<lparr>search_results := pq_pop pair_less (search_results s)\<rparr>"

definition mv_remove_point :: "(byte list \<Rightarrow> 'c::linorder) \<Rightarrow> ('c, 'd::linorder) mv_state \<Rightarrow> byte list \<Rightarrow> ('c, 'd) mv_state" where
  "mv_remove_point doc_of s datapoint = mv_pop_result (mv_uncount s (doc_of datapoint))"

definition mv_should_stop :: "('c, 'd::linorder) mv_state \<Rightarrow> 'd \<Rightarrow> 'd \<Rightarrow> bool" where
  "mv_should_stop s candidate_dist lowerBound \<longleftrightarrow> lowerBound < candidate_dist \<and> curr_num_docs s = ef_collection s"

definition mv_should_consider :: "('c, 'd::linorder) mv_state \<Rightarrow> 'd \<Rightarrow> 'd \<Rightarrow> bool" where
  "mv_should_consider s candidate_dist lowerBound \<longleftrightarrow> curr_num_docs s < ef_collection s \<or> candidate_dist < lowerBound"

definition mv_should_remove_extra :: "('c, 'd) mv_state \<Rightarrow> bool" where
  "mv_should_remove_extra s \<longleftrightarrow> ef_collection s < curr_num_docs s"

text \<open>
  \<open>filter_results\<close>: \<open>None\<close> is \<open>back()\<close> or \<open>top()\<close> of something empty, or the failed assertion.
\<close>

function mv_filter_results ::
    "('c::linorder, 'd::linorder) mv_state \<Rightarrow> ('d \<times> labeltype) list \<Rightarrow> (('c, 'd) mv_state \<times> ('d \<times> labeltype) list) option" where
  "mv_filter_results s candidates =
     (if num_docs_to_search s < curr_num_docs s then
        if candidates = [] \<or> search_results s = [] \<or> fst (last candidates) \<noteq> fst (pq_top (search_results s)) then None
        else mv_filter_results (mv_pop_result (mv_uncount s (snd (pq_top (search_results s))))) (butlast candidates)
      else Some (s, candidates))"
  by pat_completeness auto
termination
  by (relation "measure (\<lambda>(s, candidates). length candidates)") auto

declare mv_filter_results.simps [simp del]

definition mv_stop_condition :: "(byte list \<Rightarrow> 'c::linorder) \<Rightarrow> (('c, 'd::linorder) mv_state, 'd) stop_condition" where
  "mv_stop_condition doc_of =
     \<lparr>add_point_to_result = (\<lambda>s label datapoint dist. mv_add_point doc_of s datapoint dist),
      remove_point_from_result = (\<lambda>s label datapoint dist. mv_remove_point doc_of s datapoint),
      should_stop_search = mv_should_stop,
      should_consider_candidate = mv_should_consider,
      should_remove_extra = mv_should_remove_extra,
      filter_results = mv_filter_results\<rparr>"

subsection \<open>Searching within a radius\<close>

record 'd eps_state =
  epsilon :: 'd
  min_num_candidates :: nat
  max_num_candidates :: nat
  curr_num_items :: nat

text \<open>The constructor asserts that the minimum does not exceed the maximum.\<close>

definition new_EpsilonStop :: "'d \<Rightarrow> nat \<Rightarrow> nat \<Rightarrow> 'd eps_state option" where
  "new_EpsilonStop eps mn mx =
     (if mn \<le> mx
      then Some \<lparr>epsilon = eps, min_num_candidates = mn, max_num_candidates = mx, curr_num_items = 0\<rparr>
      else None)"

definition eps_should_stop :: "'d::linorder eps_state \<Rightarrow> 'd \<Rightarrow> 'd \<Rightarrow> bool" where
  "eps_should_stop s candidate_dist lowerBound =
     (if lowerBound < candidate_dist \<and> curr_num_items s = max_num_candidates s then True
      else if epsilon s < candidate_dist \<and> min_num_candidates s \<le> curr_num_items s then True
      else False)"

definition eps_should_consider :: "'d::linorder eps_state \<Rightarrow> 'd \<Rightarrow> 'd \<Rightarrow> bool" where
  "eps_should_consider s candidate_dist lowerBound \<longleftrightarrow>
     curr_num_items s < max_num_candidates s \<or> candidate_dist < lowerBound"

function pop_back_while :: "('a list \<Rightarrow> bool) \<Rightarrow> 'a list \<Rightarrow> 'a list" where
  "pop_back_while P xs = (if xs \<noteq> [] \<and> P xs then pop_back_while P (butlast xs) else xs)"
  by pat_completeness auto
termination
  by (relation "measure (\<lambda>(P, xs). length xs)") auto

declare pop_back_while.simps [simp del]

definition eps_filter_results :: "'d::linorder eps_state \<Rightarrow> ('d \<times> labeltype) list \<Rightarrow> ('d \<times> labeltype) list" where
  "eps_filter_results s candidates =
     (let candidates = pop_back_while (\<lambda>c. epsilon s < fst (last c)) candidates
      in pop_back_while (\<lambda>c. max_num_candidates s < length c) candidates)"

definition eps_stop_condition :: "('d::linorder eps_state, 'd) stop_condition" where
  "eps_stop_condition =
     \<lparr>add_point_to_result = (\<lambda>s label datapoint dist. s\<lparr>curr_num_items := inc64 (curr_num_items s)\<rparr>),
      remove_point_from_result = (\<lambda>s label datapoint dist. s\<lparr>curr_num_items := dec64 (curr_num_items s)\<rparr>),
      should_stop_search = eps_should_stop,
      should_consider_candidate = eps_should_consider,
      should_remove_extra = (\<lambda>s. max_num_candidates s < curr_num_items s),
      filter_results = (\<lambda>s candidates. Some (s, eps_filter_results s candidates))\<rparr>"

subsection \<open>Document ids\<close>

text \<open>
  In a data point of a multi-vector L2 space the document id lies behind the vector: setting
  it changes neither the length of the point nor the bytes of its vector, and it reads back as set.
\<close>

theorem doc_id_roundtrip:
  assumes "MultiVectorL2Space bld avx avx512 n ext dim = (ext', sp)"
    and "length datapoint = mv_data_size sp" and "doc_id < 256 ^ n"
  shows "get_doc_id sp n (set_doc_id sp n datapoint doc_id) = doc_id
    \<and> length (set_doc_id sp n datapoint doc_id) = length datapoint
    \<and> get_bytes (set_doc_id sp n datapoint doc_id) 0 (mv_vector_size sp) = get_bytes datapoint 0 (mv_vector_size sp)"
proof -
  have "mv_vector_size sp + n = length datapoint"
    using assms by (auto simp: MultiVectorL2Space_def Let_def)
  then show ?thesis
    using assms(3) get_put_same [of "mv_vector_size sp" "le_bytes n doc_id" datapoint]
      get_put_disjoint [of "mv_vector_size sp" "le_bytes n doc_id" datapoint 0 "mv_vector_size sp"]
    by (simp add: get_doc_id_def set_doc_id_def)
qed

theorem doc_id_roundtrip_witness:
  "get_doc_id (snd (MultiVectorL2Space \<lparr>USE_SSE = False, USE_AVX = False, USE_AVX512 = False, USE_RVV = False\<rparr>
      False False 2 SSE 1)) 2
     (set_doc_id (snd (MultiVectorL2Space \<lparr>USE_SSE = False, USE_AVX = False, USE_AVX512 = False, USE_RVV = False\<rparr>
      False False 2 SSE 1)) 2 [1, 2, 3, 4, 0, 0] 513) = 513"
  using doc_id_roundtrip [of "\<lparr>USE_SSE = False, USE_AVX = False, USE_AVX512 = False, USE_RVV = False\<rparr>"
      False False 2 SSE 1 SSE _ "[1, 2, 3, 4, 0, 0]" 513]
  by (simp add: MultiVectorL2Space_def Let_def redirect_simd16_def)

text \<open>
  \<open>MultiVectorInnerProductSpace\<close> leaves its dimension uninitialised: whatever dimension is
  asked for, the distance is computed over as many floats as the memory happened to say. If it
  said 0, all vectors are at distance 1 from each other.
\<close>

theorem MultiVectorInnerProductSpace_dim_unset:
  fixes a b :: "'f::comm_ring_1 ptr"
  shows "mv_dim (snd (MultiVectorInnerProductSpace bld avx avx512 n uninit exts dim)) = uninit
    \<and> call_ip ops exts
        (mv_func (snd (MultiVectorInnerProductSpace
           \<lparr>USE_SSE = False, USE_AVX = False, USE_AVX512 = False, USE_RVV = False\<rparr> avx avx512 n 0 exts dim)))
        a b 0 = 1"
  by (simp add: MultiVectorInnerProductSpace_def Let_def choose_ip_def InnerProductDistance_def InnerProduct_sum)

subsection \<open>The document counter\<close>

text \<open>
  The counters agree with the queue: the counter of a document is how often it occurs there, and the number
  of documents is how many occur.
\<close>

definition mv_inv :: "('c::linorder, 'd::linorder) mv_state \<Rightarrow> bool" where
  "mv_inv s \<longleftrightarrow> is_heap pair_less (search_results s) \<and> length (search_results s) < 2 ^ 64
     \<and> (\<forall>c. doc_counter s c = count (image_mset snd (mset (search_results s))) c)
     \<and> curr_num_docs s = card (snd ` set (search_results s))"

lemma inc64_id: "x + 1 < 2 ^ 64 \<Longrightarrow> inc64 x = x + 1"
  by (simp add: inc64_def)

lemma dec64_id: "0 < x \<Longrightarrow> x < 2 ^ 64 \<Longrightarrow> dec64 x = x - 1"
proof -
  assume "0 < x" and x: "x < 2 ^ 64"
  then have "x + (2 ^ 64 - 1) = (x - 1) + 2 ^ 64" by simp
  then show ?thesis using x by (simp only: dec64_def mod_add_self2) simp
qed

lemma mv_inv_new: "mv_inv (new_MultiVectorStop num_docs ef)"
  by (simp add: mv_inv_def new_MultiVectorStop_def by_pair.std.invar_empty)

lemma card_docs_le: "card (snd ` set xs) \<le> length xs"
  by (rule order_trans [OF card_image_le card_length]) simp

lemma count_docs_le: "count (image_mset snd (mset xs)) c \<le> length xs"
  using count_le_size [of "image_mset snd (mset xs)" c] by simp

lemma set_pq_push: "set (pq_push lt v xs) = insert v (set xs)"
  using mset_pq_push [of lt v xs] by (metis set_mset_add_mset_insert set_mset_mset)

lemma mv_add_point_inv:
  assumes inv: "mv_inv s" and room: "length (search_results s) + 1 < 2 ^ 64"
  shows "mv_inv (mv_add_point doc_of s dp d)"
proof -
  let ?c = "doc_of dp" and ?xs = "search_results s"
  have cnt: "doc_counter s c = count (image_mset snd (mset ?xs)) c" for c
    using inv by (simp add: mv_inv_def)
  have num: "curr_num_docs s = card (snd ` set ?xs)" and heap: "is_heap pair_less ?xs"
    using inv by (simp_all add: mv_inv_def)
  have small: "inc64 (doc_counter s ?c) = doc_counter s ?c + 1"
    by (rule inc64_id) (use room count_docs_le [of ?xs ?c] in \<open>simp add: cnt\<close>)
  have small': "inc64 (curr_num_docs s) = curr_num_docs s + 1"
    by (rule inc64_id) (use room card_docs_le [of ?xs] in \<open>simp add: num\<close>)
  have zero: "doc_counter s ?c = 0 \<longleftrightarrow> ?c \<notin> snd ` set ?xs"
    by (auto simp: cnt count_eq_zero_iff image_iff)
  have "card (snd ` set (pq_push pair_less (d, ?c) ?xs))
      = curr_num_docs s + (if doc_counter s ?c = 0 then 1 else 0)"
    by (simp add: set_pq_push num zero card_insert_if)
  then have "doc_counter (mv_add_point doc_of s dp d) = (doc_counter s)(?c := doc_counter s ?c + 1)"
    "curr_num_docs (mv_add_point doc_of s dp d) = card (snd ` set (pq_push pair_less (d, ?c) ?xs))"
    "search_results (mv_add_point doc_of s dp d) = pq_push pair_less (d, ?c) ?xs"
    using small small' by (auto simp: mv_add_point_def Let_def)
  then show ?thesis
    using heap room cnt by (simp add: mv_inv_def heap_simps by_pair.heap_pq_push)
qed

lemma mv_pop_inv:
  assumes inv: "mv_inv s" and ne: "search_results s \<noteq> []" and c: "c = snd (pq_top (search_results s))"
    and s': "s' = mv_pop_result (mv_uncount s c)"
  shows "mv_inv s' \<and> curr_num_docs s \<le> curr_num_docs s' + 1 \<and> curr_num_docs s' \<le> curr_num_docs s
    \<and> num_docs_to_search s' = num_docs_to_search s
    \<and> search_results s' = pq_pop pair_less (search_results s)"
proof -
  let ?xs = "search_results s" and ?ys = "pq_pop pair_less (search_results s)"
  have cnt: "doc_counter s c = count (image_mset snd (mset ?xs)) c" for c
    using inv by (simp add: mv_inv_def)
  have num: "curr_num_docs s = card (snd ` set ?xs)" and heap: "is_heap pair_less ?xs"
    and len: "length ?xs < 2 ^ 64"
    using inv by (simp_all add: mv_inv_def)
  have top: "pq_top ?xs \<in># mset ?xs" by (rule by_pair.std.top_in [OF ne])
  then have m: "mset ?xs = add_mset (pq_top ?xs) (mset ?ys)" by (simp add: mset_pq_pop [OF ne])
  then have set_xs: "set ?xs = insert (pq_top ?xs) (set ?ys)" by (metis set_mset_add_mset_insert set_mset_mset)
  have img: "image_mset snd (mset ?xs) = add_mset c (image_mset snd (mset ?ys))" by (simp add: m c)
  then have dec: "dec64 (doc_counter s c) = count (image_mset snd (mset ?ys)) c"
    using count_docs_le [of ?xs c] len dec64_id [of "doc_counter s c"] by (simp add: cnt)
  have pos: "0 < curr_num_docs s" using ne by (simp add: num card_gt_0_iff)
  have decn: "dec64 (curr_num_docs s) = curr_num_docs s - 1"
    using pos len card_docs_le [of ?xs] by (intro dec64_id) (simp_all add: num)
  have zero: "count (image_mset snd (mset ?ys)) c = 0 \<longleftrightarrow> c \<notin> snd ` set ?ys"
    by (auto simp: count_eq_zero_iff image_iff)
  have card: "card (snd ` set ?ys) = curr_num_docs s - (if c \<in> snd ` set ?ys then 0 else 1)"
    by (simp add: num set_xs c [symmetric] card_insert_if)
  have "doc_counter s' = (doc_counter s)(c := count (image_mset snd (mset ?ys)) c)"
    "curr_num_docs s' = card (snd ` set ?ys)" "search_results s' = ?ys" "num_docs_to_search s' = num_docs_to_search s"
    using dec decn zero card by (simp_all add: s' mv_pop_result_def mv_uncount_def Let_def)
  then show ?thesis
    using heap len card pos cnt img
    by (auto simp: mv_inv_def by_pair.heap_pq_pop heap_simps)
qed

lemma sorted_le_last: "sorted xs \<Longrightarrow> x \<in> set xs \<Longrightarrow> x \<le> last xs"
  by (induction xs) auto

lemma mv_top_dist:
  assumes heap: "is_heap pair_less q" and ne: "q \<noteq> []" and sorted: "sorted (map fst candidates)"
    and same: "mset (map fst candidates) = mset (map fst q)"
  shows "candidates \<noteq> [] \<and> fst (last candidates) = fst (pq_top q)"
proof -
  from same have dists: "fst ` set candidates = fst ` set q" by (metis list.set_map set_mset_mset)
  then have ne': "candidates \<noteq> []" using ne by auto
  have "fst (pq_top q) \<in> fst ` set candidates" using dists by_pair.std.top_in [OF ne] by simp
  then have "fst (pq_top q) \<le> fst (last candidates)"
    using sorted_le_last [OF sorted, of "fst (pq_top q)"] ne' by (simp add: last_map)
  moreover have "fst (last candidates) \<in> fst ` set q" using dists ne' by (metis imageI last_in_set)
  then obtain p where p: "p \<in># mset q" "fst (last candidates) = fst p" by auto
  then have "fst p \<le> fst (pq_top q)" using by_pair.std.top_max [OF heap p(1)] by (auto simp: pair_less_def)
  ultimately show ?thesis using ne' p(2) by simp
qed

lemma mv_filter_results_spec:
  assumes "mv_inv s" and "sorted (map fst candidates)"
    and "mset (map fst candidates) = mset (map fst (search_results s))"
  shows "\<exists>s' n. mv_filter_results s candidates = Some (s', take n candidates) \<and> mv_inv s'
    \<and> curr_num_docs s' = min (curr_num_docs s) (num_docs_to_search s)
    \<and> mset (map fst (take n candidates)) = mset (map fst (search_results s'))"
  using assms
proof (induction "length candidates" arbitrary: s candidates)
  case 0
  then have "search_results s = []" by simp
  with 0 have "curr_num_docs s = 0" by (simp add: mv_inv_def)
  with 0 show ?case by (intro exI [of _ s] exI [of _ 0]) (simp add: mv_filter_results.simps)
next
  case (Suc m)
  let ?xs = "search_results s"
  show ?case
  proof (cases "num_docs_to_search s < curr_num_docs s")
    case False
    then show ?thesis
      using Suc.prems by (intro exI [of _ s] exI [of _ "length candidates"]) (simp add: mv_filter_results.simps)
  next
    case True
    have ne: "?xs \<noteq> []" using Suc.hyps(2) Suc.prems(3) by auto
    have heap: "is_heap pair_less ?xs" using Suc.prems(1) by (simp add: mv_inv_def)
    have top: "candidates \<noteq> []" "fst (last candidates) = fst (pq_top ?xs)"
      using mv_top_dist [OF heap ne Suc.prems(2,3)] by auto
    define s1 where "s1 = mv_pop_result (mv_uncount s (snd (pq_top ?xs)))"
    have s1: "mv_inv s1" "curr_num_docs s \<le> curr_num_docs s1 + 1" "curr_num_docs s1 \<le> curr_num_docs s"
      "num_docs_to_search s1 = num_docs_to_search s" "search_results s1 = pq_pop pair_less ?xs"
      using mv_pop_inv [OF Suc.prems(1) ne refl s1_def] by auto
    have step: "mv_filter_results s candidates = mv_filter_results s1 (butlast candidates)"
      using True top ne by (simp add: mv_filter_results.simps [of s candidates] s1_def)
    have "mset (map fst candidates) = add_mset (fst (last candidates)) (mset (map fst (butlast candidates)))"
      using arg_cong [OF append_butlast_last_id [OF top(1), symmetric], of "\<lambda>l. mset (map fst l)"] by simp
    moreover have "mset ?xs = add_mset (pq_top ?xs) (mset (pq_pop pair_less ?xs))"
      using by_pair.std.top_in [OF ne] by (simp add: mset_pq_pop [OF ne])
    ultimately have same: "mset (map fst (butlast candidates)) = mset (map fst (search_results s1))"
      using Suc.prems(3) top(2) by (simp add: s1(5))
    have sorted: "sorted (map fst (butlast candidates))"
      using sorted_wrt_take [OF Suc.prems(2), of "length candidates - 1"] by (simp add: butlast_conv_take take_map)
    obtain s' n where IH: "mv_filter_results s1 (butlast candidates) = Some (s', take n (butlast candidates))"
      "mv_inv s'" "curr_num_docs s' = min (curr_num_docs s1) (num_docs_to_search s1)"
      "mset (map fst (take n (butlast candidates))) = mset (map fst (search_results s'))"
    proof -
      have "m = length (butlast candidates)" using Suc.hyps(2) by simp
      from Suc.hyps(1) [OF this s1(1) sorted same] show thesis using that by blast
    qed
    have pre: "take n (butlast candidates) = take (min n (length candidates - 1)) candidates"
      by (simp add: butlast_conv_take)
    have "min (curr_num_docs s1) (num_docs_to_search s1) = min (curr_num_docs s) (num_docs_to_search s)"
      using True s1(2,3,4) by linarith
    then show ?thesis using IH step unfolding pre by metis
  qed
qed


text \<open>Two points of document 4 and one of document 6, one document wanted.\<close>

definition mv_demo :: "(nat, int) mv_state" where
  "mv_demo = mv_add_point (\<lambda>dp. le_val dp) (mv_add_point (\<lambda>dp. le_val dp) (mv_add_point (\<lambda>dp. le_val dp)
     (new_MultiVectorStop 1 5) [4] 10) [6] 30) [4] 20"

lemmas mv_eval = mv_add_point_def new_MultiVectorStop_def Let_def inc64_def pq_push_def sift_up.simps pair_less_def

lemma mv_demo_fields:
  "search_results mv_demo = [(30, 6), (10, 4), (20, 4)]" "curr_num_docs mv_demo = 2" "num_docs_to_search mv_demo = 1"
  by (simp_all add: mv_demo_def mv_eval)

lemma mv_demo_inv: "mv_inv mv_demo"
  unfolding mv_demo_def by (intro mv_add_point_inv mv_inv_new) (simp_all add: mv_eval)


definition mv_tie :: "(nat, int) mv_state" where
  "mv_tie = mv_add_point le_val (mv_add_point le_val (mv_add_point le_val (new_MultiVectorStop 1 2) [1] 5) [2] 5) [3] 1"


subsection \<open>The radius filter\<close>

lemma pop_back_while_snoc:
  "pop_back_while P [] = []"
  "pop_back_while P (xs @ [x]) = (if P (xs @ [x]) then pop_back_while P xs else xs @ [x])"
  by (simp_all add: pop_back_while.simps)

lemma pop_back_radius:
  "sorted (map fst xs) \<Longrightarrow> pop_back_while (\<lambda>c. e < fst (last c)) xs = filter (\<lambda>p. fst p \<le> e) xs"
proof (induction xs rule: rev_induct)
  case (snoc x xs)
  show ?case
  proof (cases "e < fst x")
    case True
    then show ?thesis using snoc by (simp add: pop_back_while_snoc sorted_append)
  next
    case False
    then have "\<forall>p\<in>set xs. fst p \<le> e" using snoc.prems by (auto simp: sorted_append)
    then show ?thesis using False by (simp add: pop_back_while_snoc)
  qed
qed (simp add: pop_back_while_snoc)

lemma pop_back_size: "pop_back_while (\<lambda>c. m < length c) xs = take m xs"
  by (induction xs rule: rev_induct) (auto simp: pop_back_while_snoc)

text \<open>
  \<open>EpsilonSearchStopCondition::filter_results\<close> keeps, of candidates in ascending order, exactly
  those within the radius, cut to the maximal number.
\<close>

theorem eps_filter_results_radius:
  assumes "sorted (map fst candidates)"
  shows "eps_filter_results s candidates = take (max_num_candidates s) (filter (\<lambda>p. fst p \<le> epsilon s) candidates)"
  using pop_back_radius [OF assms] by (simp add: eps_filter_results_def Let_def pop_back_size)

theorem eps_filter_results_radius_witness:
  "eps_filter_results \<lparr>epsilon = 4, min_num_candidates = 1, max_num_candidates = 2, curr_num_items = 4\<rparr>
     [(1 :: int, 10), (2, 11), (4, 12), (7, 13)] = [(1, 10), (2, 11)]"
  using eps_filter_results_radius [of "[(1 :: int, 10), (2, 11), (4, 12), (7, 13)]"
      "\<lparr>epsilon = 4, min_num_candidates = 1, max_num_candidates = 2, curr_num_items = 4\<rparr>"]
  by simp

end
