(* ===== verification/Parallel_For.thy ===== *)
theory Parallel_For
  imports Prelude
begin

text \<open>
  \<open>python_bindings/bindings.cpp\<close>, \<open>ParallelFor\<close>: the loop that shares the ids from \<open>start\<close> to \<open>end\<close> among
  threads through an atomic 64-bit counter.

  A thread's step is one access to shared data: the \<open>fetch_add\<close>, the call of \<open>fn\<close> (whose callers lock what they
  share), and, after an exception, the store to the counter. A schedule is the list of the threads in the order
  in which they step. \<open>fn\<close> maps an i, a thread and the shared state to the new state and the exception thrown, if any.
\<close>

type_synonym ('s, 'e) body = "nat \<Rightarrow> nat \<Rightarrow> 's \<Rightarrow> 's \<times> 'e option"

datatype tstate = Fetching | Working nat | Stopping | Finished

record ('s, 'e) pfor =
  pf_current :: nat
  pf_threads :: "tstate list"
  lastException :: "'e option"
  pf_shared :: 's

definition pf_start :: "nat \<Rightarrow> nat \<Rightarrow> 's \<Rightarrow> ('s, 'e) pfor" where
  "pf_start start numThreads s =
     \<lparr>pf_current = start, pf_threads = replicate numThreads Fetching, lastException = None, pf_shared = s\<rparr>"

definition pf_step :: "('s, 'e) body \<Rightarrow> nat \<Rightarrow> ('s, 'e) pfor \<Rightarrow> nat \<Rightarrow> ('s, 'e) pfor" where
  "pf_step fn end_id p t =
     (if t < length (pf_threads p) then
        (case pf_threads p ! t of
           Fetching \<Rightarrow>
             let i = pf_current p in
             p\<lparr>pf_current := (pf_current p + 1) mod 2 ^ 64,
               pf_threads := (pf_threads p)[t := if end_id \<le> i then Finished else Working i]\<rparr>
         | Working i \<Rightarrow>
             (case fn i t (pf_shared p) of
                (s, None) \<Rightarrow> p\<lparr>pf_shared := s, pf_threads := (pf_threads p)[t := Fetching]\<rparr>
              | (s, Some e) \<Rightarrow> p\<lparr>pf_shared := s, lastException := Some e, pf_threads := (pf_threads p)[t := Stopping]\<rparr>)
         | Stopping \<Rightarrow> p\<lparr>pf_current := end_id, pf_threads := (pf_threads p)[t := Finished]\<rparr>
         | Finished \<Rightarrow> p)
      else p)"

definition pf_run :: "('s, 'e) body \<Rightarrow> nat \<Rightarrow> ('s, 'e) pfor \<Rightarrow> nat list \<Rightarrow> ('s, 'e) pfor" where
  "pf_run fn end_id p sched = foldl (pf_step fn end_id) p sched"

definition all_finished :: "('s, 'e) pfor \<Rightarrow> bool" where
  "all_finished p \<longleftrightarrow> (\<forall>t\<in>set (pf_threads p). t = Finished)"

text \<open>The loop of a single thread; an exception ends it.\<close>

fun seq_for :: "('s, 'e) body \<Rightarrow> nat list \<Rightarrow> 's \<Rightarrow> 's \<times> 'e option" where
  "seq_for fn [] s = (s, None)"
| "seq_for fn (i # ids) s = (case fn i 0 s of (s, None) \<Rightarrow> seq_for fn ids s | (s, Some e) \<Rightarrow> (s, Some e))"

text \<open>
  The result is \<open>None\<close> if the schedule ends before all threads do. \<open>hardware_concurrency\<close> may return 0.
\<close>

definition ParallelFor ::
    "nat \<Rightarrow> nat list \<Rightarrow> nat \<Rightarrow> nat \<Rightarrow> nat \<Rightarrow> ('s, 'e) body \<Rightarrow> 's \<Rightarrow> ('s \<times> 'e option) option" where
  "ParallelFor hardware_concurrency sched start end_id numThreads fn s =
     (let numThreads = (if numThreads = 0 then hardware_concurrency else numThreads) in
      if numThreads = 1 then Some (seq_for fn [start..<end_id] s)
      else let p = pf_run fn end_id (pf_start start numThreads s) sched in
           if all_finished p then Some (pf_shared p, lastException p) else None)"

subsection \<open>Every schedule that lets all threads step ends\<close>

definition weight :: "tstate \<Rightarrow> nat" where
  "weight t = (case t of Fetching \<Rightarrow> 1 | Working _ \<Rightarrow> 3 | Stopping \<Rightarrow> 2 | Finished \<Rightarrow> 0)"

definition pf_measure :: "nat \<Rightarrow> ('s, 'e) pfor \<Rightarrow> nat" where
  "pf_measure end_id p = 3 * (end_id - pf_current p) + sum_list (map weight (pf_threads p))"

text \<open>
  The counter does not wrap: it exceeds \<open>start\<close> and \<open>end\<close> by at most the number of threads that are finished.
\<close>

definition counter_ok :: "nat \<Rightarrow> ('s, 'e) pfor \<Rightarrow> bool" where
  "counter_ok lim p \<longleftrightarrow> pf_current p \<le> lim + length (filter (\<lambda>t. t = Finished) (pf_threads p))
     \<and> lim + length (pf_threads p) < 2 ^ 64"

lemma sum_list_weight_update:
  assumes "t < length ts"
  shows "sum_list (map weight (ts[t := x])) + weight (ts ! t) = sum_list (map weight ts) + weight x"
  using assms
proof (induction ts arbitrary: t)
  case (Cons a ts)
  then show ?case by (cases t) (simp_all add: ac_simps)
qed simp

lemma pf_step_length [simp]: "length (pf_threads (pf_step fn end_id p t)) = length (pf_threads p)"
  by (simp add: pf_step_def Let_def split: tstate.splits prod.splits option.splits)

lemma counter_no_wrap:
  assumes "counter_ok lim p" and "t < length (pf_threads p)" and "pf_threads p ! t = Fetching"
  shows "(pf_current p + 1) mod 2 ^ 64 = pf_current p + 1"
proof -
  have "length (filter (\<lambda>t. t = Finished) (pf_threads p)) < length (pf_threads p)"
    using nth_mem [OF assms(2)] assms(3) by (intro length_filter_less [of "pf_threads p ! t"]) simp_all
  then have "pf_current p + 1 < 2 ^ 64" using assms by (simp add: counter_ok_def)
  then show ?thesis by (rule mod_less)
qed

lemma pf_step_counter:
  assumes ok: "counter_ok lim p" and lim: "end_id \<le> lim"
  shows "counter_ok lim (pf_step fn end_id p t)"
proof (cases "t < length (pf_threads p)")
  case True
  note upd = length_filter_update [OF True, of "\<lambda>t. t = Finished"]
  show ?thesis
  proof (cases "pf_threads p ! t")
    case Fetching
    show ?thesis
      using ok lim True Fetching upd [of Finished] upd [of "Working (pf_current p)"] counter_no_wrap [OF ok True Fetching]
      by (auto simp: counter_ok_def pf_step_def Let_def)
  next
    case (Working i)
    then show ?thesis
      using ok True upd [of Fetching] upd [of Stopping]
      by (auto simp: counter_ok_def pf_step_def split: prod.splits option.splits)
  next
    case Stopping
    then show ?thesis using ok lim True by (simp add: counter_ok_def pf_step_def)
  next
    case Finished
    then show ?thesis using ok True by (simp add: pf_step_def)
  qed
next
  case False
  then show ?thesis using ok by (simp add: pf_step_def)
qed

lemma pf_step_measure:
  assumes ok: "counter_ok lim p" and t: "t < length (pf_threads p)" and live: "pf_threads p ! t \<noteq> Finished"
  shows "pf_measure end_id (pf_step fn end_id p t) < pf_measure end_id p"
proof (cases "pf_threads p ! t")
  case Fetching
  then show ?thesis
    using sum_list_weight_update [OF t, of Finished] sum_list_weight_update [OF t, of "Working (pf_current p)"]
      counter_no_wrap [OF ok t Fetching] t
    by (auto simp: pf_measure_def pf_step_def Let_def weight_def)
next
  case (Working i)
  then show ?thesis
    using sum_list_weight_update [OF t, of Fetching] sum_list_weight_update [OF t, of Stopping] t
    by (auto simp: pf_measure_def pf_step_def weight_def split: prod.splits option.splits)
next
  case Stopping
  then show ?thesis
    using sum_list_weight_update [OF t, of Finished] t by (auto simp: pf_measure_def pf_step_def weight_def)
qed (use live in simp)

lemma pf_step_idle:
  "\<not> (t < length (pf_threads p) \<and> pf_threads p ! t \<noteq> Finished) \<Longrightarrow> pf_step fn end_id p t = p"
  by (auto simp: pf_step_def)

lemma pf_step_finished:
  "u < length (pf_threads p) \<Longrightarrow> pf_threads p ! u = Finished \<Longrightarrow> pf_threads (pf_step fn end_id p t) ! u = Finished"
  by (cases "t = u") (auto simp: pf_step_def Let_def split: tstate.splits prod.splits option.splits)

text \<open>A thread that is not finished after a run has used up the measure by its own steps.\<close>

lemma pf_run_measure:
  assumes "counter_ok lim p" and "end_id \<le> lim" and "u < length (pf_threads p)"
    and "pf_threads (pf_run fn end_id p sched) ! u \<noteq> Finished"
  shows "pf_measure end_id (pf_run fn end_id p sched) + count_list sched u \<le> pf_measure end_id p"
  using assms
proof (induction sched arbitrary: p)
  case Nil
  then show ?case by (simp add: pf_run_def)
next
  case (Cons t sched)
  let ?q = "pf_step fn end_id p t"
  have run: "pf_run fn end_id p (t # sched) = pf_run fn end_id ?q sched" by (simp add: pf_run_def)
  have IH: "pf_measure end_id (pf_run fn end_id ?q sched) + count_list sched u \<le> pf_measure end_id ?q"
    using Cons.prems pf_step_counter [OF Cons.prems(1,2)] by (intro Cons.IH) (simp_all add: run)
  have live: "pf_threads p ! u \<noteq> Finished"
  proof
    assume fin: "pf_threads p ! u = Finished"
    have "pf_threads (pf_run fn end_id q sched) ! u = Finished"
      if "u < length (pf_threads q)" "pf_threads q ! u = Finished" for q
      using that by (induction sched arbitrary: q) (simp_all add: pf_run_def pf_step_finished)
    then show False using Cons.prems(3,4) fin unfolding run by (simp add: pf_step_finished)
  qed
  show ?case
  proof (cases "t = u")
    case True
    then have "pf_measure end_id ?q < pf_measure end_id p"
      using pf_step_measure [OF Cons.prems(1)] Cons.prems(3) live by simp
    then show ?thesis using IH True run by simp
  next
    case False
    have "pf_measure end_id ?q \<le> pf_measure end_id p"
      using pf_step_measure [OF Cons.prems(1), of t] pf_step_idle [of t p] by (metis less_imp_le order_refl)
    then show ?thesis using IH False by (simp add: run)
  qed
qed

subsection \<open>Which ids are processed\<close>

text \<open>The effect of a sequence of calls: the last exception wins.\<close>

definition call :: "('s, 'e) body \<Rightarrow> 's \<times> 'e option \<Rightarrow> nat \<times> nat \<Rightarrow> 's \<times> 'e option" where
  "call fn r c = (case fn (fst c) (snd c) (fst r) of (s, None) \<Rightarrow> (s, snd r) | (s, Some e) \<Rightarrow> (s, Some e))"

definition calls :: "('s, 'e) body \<Rightarrow> 's \<Rightarrow> (nat \<times> nat) list \<Rightarrow> 's \<times> 'e option" where
  "calls fn s cs = foldl (call fn) (s, None) cs"

definition working :: "tstate list \<Rightarrow> nat set" where
  "working ts = {i. Working i \<in> set ts}"

definition one_worker :: "tstate list \<Rightarrow> bool" where
  "one_worker ts \<longleftrightarrow> (\<forall>t u i. t < length ts \<longrightarrow> u < length ts \<longrightarrow> ts ! t = Working i \<longrightarrow> ts ! u = Working i \<longrightarrow> t = u)"

text \<open>
  After the calls \<open>cs\<close>: processed and current ids are distinct and were handed out; as long as there was no exception,
  every id handed out is processed or being processed, and a thread only ends when none is left.
\<close>

definition pf_inv :: "('s, 'e) body \<Rightarrow> nat \<Rightarrow> nat \<Rightarrow> 's \<Rightarrow> (nat \<times> nat) list \<Rightarrow> ('s, 'e) pfor \<Rightarrow> bool" where
  "pf_inv fn start end_id s cs p \<longleftrightarrow> (pf_shared p, lastException p) = calls fn s cs
     \<and> distinct (map fst cs) \<and> (\<forall>c\<in>set cs. snd c < length (pf_threads p))
     \<and> (\<forall>i\<in>fst ` set cs \<union> working (pf_threads p). start \<le> i \<and> i < end_id \<and> i < pf_current p)
     \<and> fst ` set cs \<inter> working (pf_threads p) = {}
     \<and> one_worker (pf_threads p) \<and> (start \<le> pf_current p \<or> end_id \<le> pf_current p)
     \<and> (lastException p = None \<longrightarrow> {start..<min (pf_current p) end_id} \<subseteq> fst ` set cs \<union> working (pf_threads p)
          \<and> Stopping \<notin> set (pf_threads p) \<and> (Finished \<in> set (pf_threads p) \<longrightarrow> end_id \<le> pf_current p))"

lemma working_nth: "i \<in> working ts \<longleftrightarrow> (\<exists>t<length ts. ts ! t = Working i)"
  by (auto simp: working_def in_set_conv_nth)

lemma in_set_update_cases: "x \<in> set (xs[t := y]) \<Longrightarrow> x = y \<or> x \<in> set xs"
  using set_update_subset_insert by fastforce

lemma working_update:
  assumes "t < length ts" and "\<forall>u<length ts. u \<noteq> t \<longrightarrow> (\<forall>i. ts ! t = Working i \<longrightarrow> ts ! u \<noteq> Working i)"
  shows "working (ts[t := x]) = (working ts - {i. ts ! t = Working i}) \<union> {i. x = Working i}"
  using assms by (auto simp: working_nth nth_list_update split: if_splits)

lemma calls_snoc: "calls fn s (cs @ [c]) = call fn (calls fn s cs) c"
  by (simp add: calls_def)

lemma one_worker_update:
  assumes "one_worker ts" and "\<forall>i. x = Working i \<longrightarrow> i \<notin> working ts"
  shows "one_worker (ts[k := x])"
  unfolding one_worker_def
proof (intro allI impI)
  fix t u i
  assume "t < length (ts[k := x])" "u < length (ts[k := x])" "ts[k := x] ! t = Working i" "ts[k := x] ! u = Working i"
  then show "t = u"
    using assms by (cases "t = k"; cases "u = k") (auto simp: working_nth one_worker_def)
qed

lemma pf_inv_parts:
  assumes "pf_inv fn start end_id s cs p"
  shows "calls fn s cs = (pf_shared p, lastException p)" "distinct (map fst cs)" "\<forall>c\<in>set cs. snd c < length (pf_threads p)"
    "\<forall>i\<in>fst ` set cs \<union> working (pf_threads p). start \<le> i \<and> i < end_id \<and> i < pf_current p"
    "fst ` set cs \<inter> working (pf_threads p) = {}" "one_worker (pf_threads p)" "start \<le> pf_current p \<or> end_id \<le> pf_current p"
    "lastException p = None \<Longrightarrow> {start..<min (pf_current p) end_id} \<subseteq> fst ` set cs \<union> working (pf_threads p)"
    "lastException p = None \<Longrightarrow> Stopping \<notin> set (pf_threads p)"
    "lastException p = None \<Longrightarrow> Finished \<in> set (pf_threads p) \<Longrightarrow> end_id \<le> pf_current p"
  using assms unfolding pf_inv_def by (metis, blast+)

lemma working_change:
  assumes "one_worker ts" and "t < length ts"
  shows "working (ts[t := x]) = (working ts - {i. ts ! t = Working i}) \<union> {i. x = Working i}"
  using assms by (intro working_update) (auto simp: one_worker_def)

lemma pf_inv_fetch:
  assumes ok: "counter_ok lim p" and inv: "pf_inv fn start end_id s cs p" and t: "t < length (pf_threads p)" "pf_threads p ! t = Fetching"
  shows "pf_inv fn start end_id s cs (pf_step fn end_id p t)"
proof -
  let ?ts = "pf_threads p"
  note old = pf_inv_parts [OF inv]
  define x where "x = (if end_id \<le> pf_current p then Finished else Working (pf_current p))"
  have st: "pf_step fn end_id p t = p\<lparr>pf_current := pf_current p + 1, pf_threads := ?ts[t := x]\<rparr>"
    using t counter_no_wrap [OF ok t] by (simp add: pf_step_def Let_def x_def)
  have fresh: "pf_current p \<notin> working ?ts" "pf_current p \<notin> fst ` set cs" using old(4) by auto
  have w: "working (?ts[t := x]) = working ?ts \<union> (if end_id \<le> pf_current p then {} else {pf_current p})"
    unfolding working_change [OF old(6) t(1)] using t(2) by (auto simp: x_def)
  have "\<forall>i\<in>fst ` set cs \<union> working (?ts[t := x]). start \<le> i \<and> i < end_id \<and> i < pf_current p + 1"
    unfolding w using old(4,7) by (auto intro: less_SucI)
  moreover have "fst ` set cs \<inter> working (?ts[t := x]) = {}" unfolding w using old(5) fresh(2) by auto
  moreover have "one_worker (?ts[t := x])" using fresh(1) by (intro one_worker_update [OF old(6)]) (auto simp: x_def)
  moreover have "{start..<min (pf_current p + 1) end_id} \<subseteq> fst ` set cs \<union> working (?ts[t := x])" if "lastException p = None"
  proof
    fix i assume i: "i \<in> {start..<min (pf_current p + 1) end_id}"
    show "i \<in> fst ` set cs \<union> working (?ts[t := x])"
    proof (cases "i = pf_current p")
      case False
      then have "i \<in> {start..<min (pf_current p) end_id}" using i by auto
      then show ?thesis using old(8) [OF that] unfolding w by blast
    qed (use i w in auto)
  qed
  moreover have "Stopping \<notin> set (?ts[t := x])" if "lastException p = None"
    using old(9) [OF that] in_set_update_cases [of Stopping ?ts t x] by (auto simp: x_def split: if_splits)
  moreover have "end_id \<le> pf_current p + 1" if "lastException p = None" "Finished \<in> set (?ts[t := x])"
    using old(10) [OF that(1)] in_set_update_cases [OF that(2)] by (auto simp: x_def split: if_splits)
  moreover have "start \<le> pf_current p + 1 \<or> end_id \<le> pf_current p + 1" using old(7) by auto
  ultimately show ?thesis
    unfolding pf_inv_def st using old(1,2,3) by simp
qed

lemma pf_inv_call:
  assumes inv: "pf_inv fn start end_id s cs p" and t: "t < length (pf_threads p)" "pf_threads p ! t = Working i"
  shows "pf_inv fn start end_id s (cs @ [(i, t)]) (pf_step fn end_id p t)"
proof -
  let ?ts = "pf_threads p"
  note old = pf_inv_parts [OF inv]
  obtain s' exc where fn: "fn i t (pf_shared p) = (s', exc)" by (cases "fn i t (pf_shared p)")
  define x where "x = (if exc = None then Fetching else Stopping)"
  define e' where "e' = (if exc = None then lastException p else exc)"
  have st: "pf_step fn end_id p t = p\<lparr>pf_shared := s', lastException := e', pf_threads := ?ts[t := x]\<rparr>"
    using t fn by (cases exc) (simp_all add: pf_step_def x_def e'_def)
  have run: "calls fn s (cs @ [(i, t)]) = (s', e')"
    using old(1) fn by (cases exc) (simp_all add: calls_snoc call_def e'_def)
  have i: "i \<in> working ?ts" using t by (auto simp: working_nth)
  have w: "working (?ts[t := x]) = working ?ts - {i}"
    unfolding working_change [OF old(6) t(1)] using t(2) by (auto simp: x_def)
  have un: "insert i (fst ` set cs) \<union> working (?ts[t := x]) = fst ` set cs \<union> working ?ts" using i unfolding w by auto
  have "one_worker (?ts[t := x])" by (intro one_worker_update [OF old(6)]) (auto simp: x_def)
  moreover have "fst ` set (cs @ [(i, t)]) \<inter> working (?ts[t := x]) = {}" using old(5) unfolding w by auto
  moreover have "distinct (map fst (cs @ [(i, t)]))" using old(2,5) i by auto
  moreover have "Stopping \<notin> set (?ts[t := x])" if "e' = None"
    using old(9) in_set_update_cases [of Stopping ?ts t x] that by (auto simp: x_def e'_def split: if_splits)
  moreover have "end_id \<le> pf_current p" if "e' = None" "Finished \<in> set (?ts[t := x])"
    using old(10) in_set_update_cases [OF that(2)] that(1) by (auto simp: x_def e'_def split: if_splits)
  moreover have "{start..<min (pf_current p) end_id} \<subseteq> fst ` set cs \<union> working ?ts" if "e' = None"
    using old(8) that by (auto simp: e'_def split: if_splits)
  ultimately show ?thesis
    unfolding pf_inv_def st using old(3,4,7) t(1) by (simp add: run un del: Un_insert_left)
qed

lemma pf_step_inv:
  assumes ok: "counter_ok lim p" and inv: "pf_inv fn start end_id s cs p"
  shows "\<exists>cs'. pf_inv fn start end_id s cs' (pf_step fn end_id p t)"
proof (cases "t < length (pf_threads p) \<and> pf_threads p ! t \<noteq> Finished")
  case False
  then show ?thesis using inv pf_step_idle [OF False] by metis
next
  case True
  then have t: "t < length (pf_threads p)" by simp
  show ?thesis
  proof (cases "pf_threads p ! t")
    case Fetching
    then show ?thesis using pf_inv_fetch [OF ok inv t] by blast
  next
    case (Working i)
    then show ?thesis using pf_inv_call [OF inv t] by blast
  next
    case Stopping
    let ?ts = "pf_threads p"
    note old = pf_inv_parts [OF inv]
    have "lastException p \<noteq> None" using old(9) nth_mem [OF t] Stopping by fastforce
    then obtain e where exc: "lastException p = Some e" by blast
    have w: "working (?ts[t := Finished]) = working ?ts"
      unfolding working_change [OF old(6) t] using Stopping by simp
    have one: "one_worker (?ts[t := Finished])" by (intro one_worker_update [OF old(6)]) simp
    have "pf_inv fn start end_id s cs (pf_step fn end_id p t)"
      unfolding pf_inv_def using Stopping t old(1-5) exc one w by (simp add: pf_step_def)
    then show ?thesis by blast
  qed (use True in simp)
qed

lemma pf_run_inv:
  assumes "counter_ok lim p" and "end_id \<le> lim" and "pf_inv fn start end_id s cs p"
  shows "\<exists>cs'. pf_inv fn start end_id s cs' (pf_run fn end_id p sched)"
  using assms
proof (induction sched arbitrary: p cs)
  case (Cons t sched)
  from pf_step_inv [OF Cons.prems(1,3)] obtain cs' where "pf_inv fn start end_id s cs' (pf_step fn end_id p t)" by blast
  from Cons.IH [OF pf_step_counter [OF Cons.prems(1,2)] Cons.prems(2) this] show ?case by (simp add: pf_run_def)
qed (auto simp: pf_run_def)

lemma pf_start_ok:
  assumes "max start end_id + n < 2 ^ 64"
  shows "counter_ok (max start end_id) (pf_start start n s)" "pf_inv fn start end_id s [] (pf_start start n s)"
proof -
  show "counter_ok (max start end_id) (pf_start start n s)" using assms by (simp add: counter_ok_def pf_start_def)
  have "working (replicate n Fetching) = {}" by (auto simp: working_def)
  then show "pf_inv fn start end_id s [] (pf_start start n s)"
    by (simp add: pf_inv_def pf_start_def calls_def one_worker_def)
qed

text \<open>The loop of one thread is a sequence of calls too.\<close>

lemma seq_for_calls:
  "\<exists>m\<le>length is. seq_for fn is s = calls fn s (map (\<lambda>i. (i, 0)) (take m is))
    \<and> (snd (seq_for fn is s) = None \<longrightarrow> m = length is)"
proof (induction "is" arbitrary: s)
  case (Cons i "is")
  obtain s' exc where fn: "fn i 0 s = (s', exc)" by (cases "fn i 0 s")
  show ?case
  proof (cases exc)
    case None
    have eq: "seq_for fn (i # is) s = seq_for fn is s'" using fn None by simp
    have fold: "calls fn s' cs = calls fn s ((i, 0) # cs)" for cs using fn None by (simp add: calls_def call_def)
    obtain m where m: "m \<le> length is" "seq_for fn is s' = calls fn s' (map (\<lambda>i. (i, 0)) (take m is))"
      "snd (seq_for fn is s') = None \<longrightarrow> m = length is"
      using Cons.IH [of s'] by (elim exE conjE) (rule that)
    have "seq_for fn (i # is) s = calls fn s (map (\<lambda>i. (i, 0)) (take (Suc m) (i # is)))"
      unfolding eq m(2) take_Suc_Cons list.map by (rule fold)
    moreover have "snd (seq_for fn (i # is) s) = None \<longrightarrow> Suc m = length (i # is)" using m(3) unfolding eq by simp
    moreover have "Suc m \<le> length (i # is)" using m(1) by simp
    ultimately show ?thesis by (intro exI [of _ "Suc m"] conjI)
  next
    case (Some e)
    then show ?thesis using fn by (intro exI [of _ 1]) (simp add: calls_def call_def)
  qed
qed (simp add: calls_def)

lemma ParallelFor_calls:
  assumes run: "ParallelFor hw sched start end_id numThreads fn s = Some (s', exc)"
    and n: "n = (if numThreads = 0 then hw else numThreads)" "0 < n" and lim: "max start end_id + n < 2 ^ 64"
  shows "\<exists>cs. calls fn s cs = (s', exc) \<and> distinct (map fst cs) \<and> fst ` set cs \<subseteq> {start..<end_id} \<and> (\<forall>c\<in>set cs. snd c < n)
    \<and> (exc = None \<longrightarrow> fst ` set cs = {start..<end_id})"
proof (cases "n = 1")
  case True
  then have seq: "seq_for fn [start..<end_id] s = (s', exc)" using run n by (simp add: ParallelFor_def Let_def)
  obtain m where c: "seq_for fn [start..<end_id] s = calls fn s (map (\<lambda>i. (i, 0)) (take m [start..<end_id]))"
    and e: "snd (seq_for fn [start..<end_id] s) = None \<longrightarrow> m = length [start..<end_id]"
    using seq_for_calls [of "[start..<end_id]" fn s] by (elim exE conjE) (rule that)
  have m: "calls fn s (map (\<lambda>i. (i, 0)) (take m [start..<end_id])) = (s', exc)" by (rule trans [OF c [symmetric] seq])
  have me: "exc = None \<longrightarrow> m = length [start..<end_id]" using e unfolding seq by simp
  let ?cs = "map (\<lambda>i. (i, 0 :: nat)) (take m [start..<end_id])"
  have "map fst ?cs = take m [start..<end_id]" by (simp add: comp_def)
  moreover have "fst ` set ?cs = set (take m [start..<end_id])" by (simp add: image_image)
  moreover have "set (take m [start..<end_id]) \<subseteq> {start..<end_id}" using set_take_subset by fastforce
  moreover have "exc = None \<longrightarrow> set (take m [start..<end_id]) = {start..<end_id}" using me by auto
  ultimately show ?thesis using m True by (intro exI [of _ ?cs]) auto
next
  case False
  let ?p = "pf_run fn end_id (pf_start start n s) sched"
  have fin: "all_finished ?p" and res: "s' = pf_shared ?p" "exc = lastException ?p"
    using run n False by (auto simp: ParallelFor_def Let_def split: if_splits)
  obtain cs where inv: "pf_inv fn start end_id s cs ?p"
    using pf_run_inv [where fn = fn and s = s and sched = sched, OF pf_start_ok(1) [OF lim] max.cobounded2 pf_start_ok(2) [OF lim]]
    by blast
  note p = pf_inv_parts [OF inv]
  have len: "length (pf_threads (pf_run fn end_id p sched)) = length (pf_threads p)" for p :: "('a, 'b) pfor"
    by (induction sched arbitrary: p) (simp_all add: pf_run_def)
  have n': "length (pf_threads ?p) = n" by (simp add: len pf_start_def)
  have none: "working (pf_threads ?p) = {}" using fin by (auto simp: all_finished_def working_def)
  have "pf_threads ?p ! 0 = Finished" "pf_threads ?p ! 0 \<in> set (pf_threads ?p)"
    using fin n' n(2) by (auto simp: all_finished_def)
  then have last: "exc = None \<Longrightarrow> end_id \<le> pf_current ?p" using p(10) res(2) by simp
  have sub: "fst ` set cs \<subseteq> {start..<end_id}" using p(4) by (meson UnI1 atLeastLessThan_iff subsetI)
  have "fst ` set cs = {start..<end_id}" if "exc = None"
    using sub p(8) that last [OF that] none res(2) by (simp add: min_absorb2 subset_antisym)
  moreover have "calls fn s cs = (s', exc)" "\<forall>c\<in>set cs. snd c < n" using p(1,3) by (simp_all add: res n')
  ultimately show ?thesis using p(2) sub by blast
qed

text \<open>
  \<^bold>\<open>C14.\<close> However the threads interleave, the parallel loop has the effect of calling the body one id after the
  other, each id at most once, only on ids of the range and with the number of an existing thread; if it ends without an
  exception, every id of the range was processed exactly once; and the exception it rethrows is the last one that a call threw.
\<close>

theorem ParallelFor_exactly_once:
  assumes "ParallelFor hw sched start end_id numThreads fn s = Some (s', exc)"
    and "n = (if numThreads = 0 then hw else numThreads)" and "0 < n" and "max start end_id + n < 2 ^ 64"
  shows "\<exists>cs. calls fn s cs = (s', exc) \<and> distinct (map fst cs) \<and> fst ` set cs \<subseteq> {start..<end_id} \<and> (\<forall>c\<in>set cs. snd c < n)
    \<and> (exc = None \<longrightarrow> fst ` set cs = {start..<end_id})"
  by (rule ParallelFor_calls [OF assms])

definition log_body :: "(nat list, string) body" where
  "log_body i t s = (s @ [i], if i = 7 then Some ''seven'' else None)"

lemma two_fetching: "replicate 2 Fetching = [Fetching, Fetching]"
  by (simp add: numeral_2_eq_2)

theorem ParallelFor_exactly_once_witness:
  "ParallelFor 4 [0, 1, 1, 0, 1, 0, 1, 1] 2 5 2 log_body [] = Some ([3, 2, 4], None)
    \<and> (\<exists>cs. calls log_body [] cs = ([3, 2, 4], None) \<and> fst ` set cs = {2..<5})"
proof -
  have "ParallelFor 4 [0, 1, 1, 0, 1, 0, 1, 1] 2 5 2 log_body [] = Some ([3, 2, 4], None)"
    by (simp add: ParallelFor_def pf_run_def pf_start_def pf_step_def log_body_def all_finished_def two_fetching)
  then show ?thesis using ParallelFor_exactly_once [of 4 "[0, 1, 1, 0, 1, 0, 1, 1]" 2 5 2 log_body "[]" "[3, 2, 4]" None 2] by auto
qed

text \<open>
  \<^bold>\<open>C15.\<close> Every schedule that gives each thread enough steps lets the loop end, whatever the body does: three steps per id
  and one per thread are enough.
\<close>

theorem ParallelFor_ends:
  assumes lim: "max start end_id + n < 2 ^ 64" and n: "n = (if numThreads = 0 then hw else numThreads)"
    and fair: "\<forall>t<n. 3 * (end_id - start) + n < count_list sched t"
  shows "\<exists>r. ParallelFor hw sched start end_id numThreads fn s = Some r"
proof (cases "n = 1")
  case True
  then show ?thesis using n by (auto simp: ParallelFor_def Let_def)
next
  case False
  let ?q = "pf_start start n s :: ('a, 'b) pfor" and ?p = "pf_run fn end_id (pf_start start n s) sched"
  have len: "length (pf_threads (pf_run fn end_id p sched)) = length (pf_threads p)" for p :: "('a, 'b) pfor"
    by (induction sched arbitrary: p) (simp_all add: pf_run_def)
  have m: "pf_measure end_id ?q = 3 * (end_id - start) + n"
    by (simp add: pf_measure_def pf_start_def weight_def sum_list_replicate)
  have "pf_threads ?p ! t = Finished" if t: "t < n" for t
  proof (rule ccontr)
    assume "pf_threads ?p ! t \<noteq> Finished"
    then have "pf_measure end_id ?p + count_list sched t \<le> 3 * (end_id - start) + n"
      using pf_run_measure [where fn = fn and sched = sched, OF pf_start_ok(1) [OF lim] max.cobounded2, of t s] t m
      by (simp add: pf_start_def)
    then show False using fair t by fastforce
  qed
  then have "all_finished ?p" by (auto simp: all_finished_def in_set_conv_nth len pf_start_def)
  then show ?thesis using False n by (simp add: ParallelFor_def Let_def)
qed

theorem ParallelFor_ends_witness:
  "\<exists>r. ParallelFor 2 (concat (replicate 12 [0, 1])) 5 8 0 log_body [] = Some r"
proof -
  have "count_list (concat (replicate k [0, 1])) t = (if t < 2 then k else 0)" for k t :: nat
    by (induction k) (auto simp: less_Suc_eq numeral_2_eq_2)
  then show ?thesis using ParallelFor_ends [of 5 8 2 0 2 "concat (replicate 12 [0, 1])" log_body "[]"] by simp
qed

text \<open>
  The comment on the counter says that setting it to \<open>end\<close> works for every value of \<open>size_t\<close>. With the largest value as
  \<open>end\<close> and two threads it does not: the thread that finds nothing left wraps the counter to 0, and the next thread
  processes id 0, here of an empty range.
\<close>

theorem ParallelFor_wraps:
  "ParallelFor 1 [0, 1, 1, 1] (2 ^ 64 - 1) (2 ^ 64 - 1) 2 (\<lambda>i t s. (s @ [i], Some ''stop'')) [] = Some ([0], Some ''stop'')"
  by (simp add: ParallelFor_def pf_run_def pf_start_def pf_step_def all_finished_def two_fetching)

text \<open>Without threads to start, which is what a \<open>hardware_concurrency\<close> of 0 means, nothing is processed and nothing reported.\<close>

theorem ParallelFor_no_threads: "ParallelFor 0 sched start end_id 0 fn s = Some (s, None)"
proof -
  have "pf_run fn end_id (pf_start start 0 s) sched = pf_start start 0 s"
    by (induction sched) (simp_all add: pf_run_def pf_start_def pf_step_def)
  then show ?thesis by (simp add: ParallelFor_def all_finished_def) (simp add: pf_start_def)
qed

end
