(* ===== verification/Hnsw_State.thy ===== *)
theory Hnsw_State
  imports Complex_Main Algorithm_Interface Visited_List
begin

text \<open>
  \<open>hnswlib/hnswalg.h\<close>, the data of \<open>HierarchicalNSW\<close> and the operations that do not
  walk the graph.

  The level-0 block of an element (\<open>data_level0_memory_\<close>) is a record: the link list, the
  vector's bytes and the label. A link list is its four-byte header (a 16-bit count, the
  byte whose lowest bit is the delete mark, and a byte that is never used) followed by all
  its slots, used or not. \<open>linkLists_[i]\<close> is the list of the link lists of element \<open>i\<close>
  on levels 1, 2, \dots; a pointer that is null or was never assigned is the empty list. The theory \<open>Hnsw_Persist\<close>
  relates these records to the bytes the class really stores.

  Internal ids (\<open>tableint\<close>) are naturals; \<open>-1\<close> is \<open>2 ^ 32 - 1\<close>. Locks are not modelled:
  the operations run one at a time. What the class takes from libraries is in the record
  \<open>hnsw_env\<close>: the largest distance, the levels drawn from the random generator, the draws
  of \<open>updatePoint\<close>, the iteration order of \<open>std::unordered_set\<close>, whether \<open>malloc\<close> grants
  a request, and the contents of fresh memory.

  An exception is \<open>Throw\<close> with its message. \<open>Bad_access\<close> is an access outside
  allocated memory and \<open>Empty_container\<close> the use of \<open>back()\<close> or \<open>top()\<close> on an empty
  container, both undefined in C++.
\<close>

type_synonym tableint = nat

datatype hnsw_error = Throw string | Assertion | Bad_access | Empty_container

record linklist =
  ll_count :: nat
  ll_mark :: byte
  ll_pad :: byte
  ll_slots :: "tableint list"

record elem =
  e_links :: linklist
  e_data :: "byte list"
  e_label :: labeltype

record 'd hnsw_env =
  dmax :: 'd
  random_level :: "nat \<Rightarrow> nat \<Rightarrow> nat"
  update_draw :: "nat \<Rightarrow> real"
  uset_iter :: "nat list \<Rightarrow> nat list"
  malloc_ok :: "nat \<Rightarrow> bool"
  vl_junk :: "nat \<Rightarrow> vl_type"
  mem_junk :: "nat \<Rightarrow> elem"

record 'd hnsw =
  max_elements :: nat
  cur_element_count :: nat
  size_data_per_element :: nat
  size_links_per_element :: nat
  num_deleted :: nat
  hnM :: nat
  maxM :: nat
  maxM0 :: nat
  ef_construction :: nat
  hnEf :: nat
  hnMult :: nat
  maxlevel :: int
  vl_pool :: visited_list_pool
  enterpoint_node :: tableint
  size_links_level0 :: nat
  offsetData :: nat
  offsetLevel0 :: nat
  label_offset :: nat
  data_level0 :: "elem list"
  linkLists :: "linklist list list"
  element_levels :: "nat list"
  hn_data_size :: nat
  hn_fstdistfunc :: "byte list \<Rightarrow> byte list \<Rightarrow> 'd"
  label_lookup :: "labeltype \<rightharpoonup> tableint"
  level_draws :: nat
  update_draws :: nat
  metric_distance_computations :: nat
  metric_hops :: nat
  allow_replace_deleted :: bool
  deleted_elements :: "tableint list"

definition no_node :: tableint where
  "no_node = 2 ^ 32 - 1"

definition DELETE_MARK :: byte where
  "DELETE_MARK = 1"

subsection \<open>Construction\<close>

text \<open>
  \<open>mult\<close> is the bit pattern of the double \<open>1 / log(M_)\<close>, which only the random level and the file
  use. The visited lists and link locks are as many as elements.
\<close>

definition new_HierarchicalNSW ::
    "'d hnsw_env \<Rightarrow> (nat \<Rightarrow> nat) \<Rightarrow> 'd space_interface \<Rightarrow> nat \<Rightarrow> nat \<Rightarrow> nat \<Rightarrow> bool \<Rightarrow> hnsw_error + 'd hnsw" where
  "new_HierarchicalNSW env mult_of s max_els M_arg ef_arg allow_replace =
     (let M' = (if M_arg \<le> 10000 then M_arg else 10000);
          M0 = M' * 2;
          links0 = M0 * 4 + 4;
          size_data = links0 + get_data_size s + 8
      in bindE (guardE (malloc_ok env (max_els * size_data)) (Throw ''Not enough memory'')) (\<lambda>_.
         bindE (guardE (malloc_ok env (8 * max_els))
             (Throw ''Not enough memory: HierarchicalNSW failed to allocate linklists'')) (\<lambda>_.
         Inr \<lparr>max_elements = max_els, cur_element_count = 0, size_data_per_element = size_data,
              size_links_per_element = M' * 4 + 4, num_deleted = 0, hnM = M', maxM = M', maxM0 = M0,
              ef_construction = max ef_arg M', hnEf = 10, hnMult = mult_of M', maxlevel = -1,
              vl_pool = new_VisitedListPool (vl_junk env) 1 max_els, enterpoint_node = no_node,
              size_links_level0 = links0, offsetData = links0, offsetLevel0 = 0,
              label_offset = links0 + get_data_size s,
              data_level0 = map (mem_junk env) [0..<max_els], linkLists = replicate max_els [],
              element_levels = replicate max_els 0, hn_data_size = get_data_size s,
              hn_fstdistfunc = get_dist_func s, label_lookup = Map.empty, level_draws = 0,
              update_draws = 0, metric_distance_computations = 0, metric_hops = 0,
              allow_replace_deleted = allow_replace, deleted_elements = []\<rparr>)))"

definition setEf :: "nat \<Rightarrow> 'd hnsw \<Rightarrow> 'd hnsw" where
  "setEf ef h = h\<lparr>hnEf := ef\<rparr>"

unbundle bit_operations_syntax

text \<open>\<open>label & (MAX_LABEL_OPERATION_LOCKS - 1)\<close>, the lock that guards a label.\<close>

definition label_lock_id :: "labeltype \<Rightarrow> nat" where
  "label_lock_id label = unat ((of_nat label :: 64 word) AND (65536 - 1))"

definition getRandomLevel :: "'d hnsw_env \<Rightarrow> 'd hnsw \<Rightarrow> nat \<times> 'd hnsw" where
  "getRandomLevel env h =
     (random_level env (hnMult h) (level_draws h), h\<lparr>level_draws := level_draws h + 1\<rparr>)"

subsection \<open>Access to elements and link lists\<close>

definition elem_at :: "'d hnsw \<Rightarrow> tableint \<Rightarrow> hnsw_error + elem" where
  "elem_at h i = (if i < length (data_level0 h) then Inr (data_level0 h ! i) else Inl Bad_access)"

definition getExternalLabel :: "'d hnsw \<Rightarrow> tableint \<Rightarrow> hnsw_error + labeltype" where
  "getExternalLabel h internal_id = bindE (elem_at h internal_id) (\<lambda>e. Inr (e_label e))"

definition getDataByInternalId :: "'d hnsw \<Rightarrow> tableint \<Rightarrow> hnsw_error + byte list" where
  "getDataByInternalId h internal_id = bindE (elem_at h internal_id) (\<lambda>e. Inr (e_data e))"

definition put_elem :: "'d hnsw \<Rightarrow> tableint \<Rightarrow> elem \<Rightarrow> 'd hnsw" where
  "put_elem h i e = h\<lparr>data_level0 := (data_level0 h)[i := e]\<rparr>"

definition setExternalLabel :: "'d hnsw \<Rightarrow> tableint \<Rightarrow> labeltype \<Rightarrow> hnsw_error + 'd hnsw" where
  "setExternalLabel h internal_id label =
     bindE (elem_at h internal_id) (\<lambda>e. Inr (put_elem h internal_id (e\<lparr>e_label := label\<rparr>)))"

definition setData :: "'d hnsw \<Rightarrow> tableint \<Rightarrow> byte list \<Rightarrow> hnsw_error + 'd hnsw" where
  "setData h internal_id data_point =
     bindE (elem_at h internal_id) (\<lambda>e. Inr (put_elem h internal_id (e\<lparr>e_data := take (hn_data_size h) data_point\<rparr>)))"

definition get_linklist0 :: "'d hnsw \<Rightarrow> tableint \<Rightarrow> hnsw_error + linklist" where
  "get_linklist0 h internal_id = bindE (elem_at h internal_id) (\<lambda>e. Inr (e_links e))"

definition get_linklist :: "'d hnsw \<Rightarrow> tableint \<Rightarrow> nat \<Rightarrow> hnsw_error + linklist" where
  "get_linklist h internal_id level =
     (if internal_id < length (linkLists h) \<and> 0 < level \<and> level - 1 < length (linkLists h ! internal_id)
      then Inr (linkLists h ! internal_id ! (level - 1)) else Inl Bad_access)"

definition get_linklist_at_level :: "'d hnsw \<Rightarrow> tableint \<Rightarrow> nat \<Rightarrow> hnsw_error + linklist" where
  "get_linklist_at_level h internal_id level =
     (if level = 0 then get_linklist0 h internal_id else get_linklist h internal_id level)"

definition put_linklist_at_level :: "'d hnsw \<Rightarrow> tableint \<Rightarrow> nat \<Rightarrow> linklist \<Rightarrow> 'd hnsw" where
  "put_linklist_at_level h i level ll =
     (if level = 0 then put_elem h i ((data_level0 h ! i)\<lparr>e_links := ll\<rparr>)
      else h\<lparr>linkLists := (linkLists h)[i := (linkLists h ! i)[level - 1 := ll]]\<rparr>)"

definition getListCount :: "linklist \<Rightarrow> nat" where
  "getListCount ll = ll_count ll"

definition setListCount :: "nat \<Rightarrow> linklist \<Rightarrow> linklist" where
  "setListCount n ll = ll\<lparr>ll_count := n mod 2 ^ 16\<rparr>"

text \<open>The ids a list holds; a count beyond the slots would read other memory.\<close>

definition link_ids :: "linklist \<Rightarrow> hnsw_error + tableint list" where
  "link_ids ll =
     (if getListCount ll \<le> length (ll_slots ll) then Inr (take (getListCount ll) (ll_slots ll)) else Inl Bad_access)"

definition getConnectionsWithLock :: "'d hnsw \<Rightarrow> tableint \<Rightarrow> nat \<Rightarrow> hnsw_error + tableint list" where
  "getConnectionsWithLock h internalId level = bindE (get_linklist_at_level h internalId level) link_ids"

subsection \<open>Deleting\<close>

definition elem_deleted :: "elem \<Rightarrow> bool" where
  "elem_deleted e \<longleftrightarrow> ll_mark (e_links e) AND DELETE_MARK \<noteq> 0"

definition isMarkedDeleted :: "'d hnsw \<Rightarrow> tableint \<Rightarrow> hnsw_error + bool" where
  "isMarkedDeleted h internalId = bindE (elem_at h internalId) (\<lambda>e. Inr (elem_deleted e))"

definition uset_insert :: "'a \<Rightarrow> 'a list \<Rightarrow> 'a list" where
  "uset_insert x xs = (if x \<in> set xs then xs else xs @ [x])"

definition set_mark :: "(byte \<Rightarrow> byte) \<Rightarrow> elem \<Rightarrow> elem" where
  "set_mark f e = e\<lparr>e_links := (e_links e)\<lparr>ll_mark := f (ll_mark (e_links e))\<rparr>\<rparr>"

definition markDeletedInternal :: "'d hnsw \<Rightarrow> tableint \<Rightarrow> hnsw_error + 'd hnsw" where
  "markDeletedInternal h internalId =
     bindE (guardE (internalId < cur_element_count h) Assertion) (\<lambda>_.
     bindE (elem_at h internalId) (\<lambda>e.
       if \<not> elem_deleted e then
         let h = put_elem h internalId (set_mark (\<lambda>b. b OR DELETE_MARK) e);
             h = h\<lparr>num_deleted := num_deleted h + 1\<rparr>
         in Inr (if allow_replace_deleted h
                 then h\<lparr>deleted_elements := uset_insert internalId (deleted_elements h)\<rparr> else h)
       else Inl (Throw ''The requested to delete element is already deleted'')))"

definition unmarkDeletedInternal :: "'d hnsw \<Rightarrow> tableint \<Rightarrow> hnsw_error + 'd hnsw" where
  "unmarkDeletedInternal h internalId =
     bindE (guardE (internalId < cur_element_count h) Assertion) (\<lambda>_.
     bindE (elem_at h internalId) (\<lambda>e.
       if elem_deleted e then
         let h = put_elem h internalId (set_mark (\<lambda>b. b AND NOT DELETE_MARK) e);
             h = h\<lparr>num_deleted := num_deleted h - 1\<rparr>
         in Inr (if allow_replace_deleted h
                 then h\<lparr>deleted_elements := removeAll internalId (deleted_elements h)\<rparr> else h)
       else Inl (Throw ''The requested to undelete element is not deleted'')))"

definition find_label :: "'d hnsw \<Rightarrow> labeltype \<Rightarrow> hnsw_error + tableint" where
  "find_label h label =
     (case label_lookup h label of None \<Rightarrow> Inl (Throw ''Label not found'') | Some i \<Rightarrow> Inr i)"

definition markDelete :: "'d hnsw \<Rightarrow> labeltype \<Rightarrow> hnsw_error + 'd hnsw" where
  "markDelete h label = bindE (find_label h label) (markDeletedInternal h)"

definition unmarkDelete :: "'d hnsw \<Rightarrow> labeltype \<Rightarrow> hnsw_error + 'd hnsw" where
  "unmarkDelete h label = bindE (find_label h label) (unmarkDeletedInternal h)"

text \<open>
  \<open>getDataByLabel\<close> returns the first \<open>dim\<close> values of the vector; \<open>n\<close> is their size in bytes.
\<close>

definition getDataByLabel :: "'d hnsw \<Rightarrow> labeltype \<Rightarrow> nat \<Rightarrow> hnsw_error + byte list" where
  "getDataByLabel h label n =
     bindE (find_label h label) (\<lambda>internalId.
     bindE (isMarkedDeleted h internalId) (\<lambda>del.
       if del then Inl (Throw ''Label not found'')
       else bindE (getDataByInternalId h internalId) (\<lambda>d.
            bindE (guardE (n \<le> length d) Bad_access) (\<lambda>_. Inr (take n d)))))"

subsection \<open>Resizing\<close>

definition resize_list :: "nat \<Rightarrow> (nat \<Rightarrow> 'a) \<Rightarrow> 'a list \<Rightarrow> 'a list" where
  "resize_list n fresh xs = take n xs @ map fresh [length xs..<n]"

definition resizeIndex :: "'d hnsw_env \<Rightarrow> nat \<Rightarrow> 'd hnsw \<Rightarrow> hnsw_error + 'd hnsw" where
  "resizeIndex env new_max_elements h =
     (if new_max_elements < cur_element_count h
      then Inl (Throw ''Cannot resize, max element is less than the current number of elements'')
      else let h = h\<lparr>vl_pool := new_VisitedListPool (vl_junk env) 1 new_max_elements\<rparr>;
               h = h\<lparr>element_levels := resize_list new_max_elements (\<lambda>_. 0) (element_levels h)\<rparr>
           in bindE (guardE (malloc_ok env (new_max_elements * size_data_per_element h))
                (Throw ''Not enough memory: resizeIndex failed to allocate base layer'')) (\<lambda>_.
              let h = h\<lparr>data_level0 := resize_list new_max_elements (mem_junk env) (data_level0 h)\<rparr>
              in bindE (guardE (malloc_ok env (8 * new_max_elements))
                   (Throw ''Not enough memory: resizeIndex failed to allocate other layers'')) (\<lambda>_.
                 let h = h\<lparr>linkLists := resize_list new_max_elements (\<lambda>_. []) (linkLists h)\<rparr>
                 in Inr (h\<lparr>max_elements := new_max_elements\<rparr>))))"

subsection \<open>Invariants\<close>

abbreviation lvl :: "'d hnsw \<Rightarrow> tableint \<Rightarrow> nat" where
  "lvl h i \<equiv> element_levels h ! i"

definition list_cap :: "'d hnsw \<Rightarrow> nat \<Rightarrow> nat" where
  "list_cap h level = (if level = 0 then maxM0 h else maxM h)"

definition at_level :: "'d hnsw \<Rightarrow> tableint \<Rightarrow> nat \<Rightarrow> linklist" where
  "at_level h i level = (if level = 0 then e_links (data_level0 h ! i) else linkLists h ! i ! (level - 1))"

definition ids_of :: "linklist \<Rightarrow> tableint list" where
  "ids_of ll = take (ll_count ll) (ll_slots ll)"

definition nbrs :: "'d hnsw \<Rightarrow> tableint \<Rightarrow> nat \<Rightarrow> tableint list" where
  "nbrs h i level = ids_of (at_level h i level)"

text \<open>
  A link list of element \<open>i\<close> on a level: as many slots as the level allows, each a 32-bit value, a count
  within them, and links to distinct other elements that exist on that level.
\<close>

definition ll_ok :: "'d hnsw \<Rightarrow> tableint \<Rightarrow> nat \<Rightarrow> linklist \<Rightarrow> bool" where
  "ll_ok h i level ll \<longleftrightarrow> length (ll_slots ll) = list_cap h level \<and> ll_count ll \<le> list_cap h level
     \<and> distinct (ids_of ll) \<and> (\<forall>s\<in>set (ll_slots ll). s < 2 ^ 32)
     \<and> (\<forall>j\<in>set (ids_of ll). j < cur_element_count h \<and> j \<noteq> i \<and> level \<le> lvl h j)"

definition links_wf :: "'d hnsw \<Rightarrow> bool" where
  "links_wf h \<longleftrightarrow> length (data_level0 h) = max_elements h \<and> length (linkLists h) = max_elements h
     \<and> length (element_levels h) = max_elements h \<and> cur_element_count h \<le> max_elements h
     \<and> max_elements h < 2 ^ 32 \<and> maxM h = hnM h \<and> maxM0 h = hnM h * 2 \<and> hnM h \<le> 10000
     \<and> pool_ok (max_elements h) (vl_pool h)
     \<and> (\<forall>i<cur_element_count h. (lvl h i \<noteq> 0 \<longrightarrow> length (linkLists h ! i) = lvl h i)
          \<and> length (e_data (data_level0 h ! i)) = hn_data_size h
          \<and> (\<forall>level\<le>lvl h i. ll_ok h i level (at_level h i level)))"

definition entry_wf :: "'d hnsw \<Rightarrow> bool" where
  "entry_wf h \<longleftrightarrow>
     (if cur_element_count h = 0 then enterpoint_node h = no_node \<and> maxlevel h = -1
      else enterpoint_node h < cur_element_count h \<and> maxlevel h = int (lvl h (enterpoint_node h))
        \<and> (\<forall>i<cur_element_count h. int (lvl h i) \<le> maxlevel h))"

definition labels_wf :: "'d hnsw \<Rightarrow> bool" where
  "labels_wf h \<longleftrightarrow> (\<forall>l i. label_lookup h l = Some i
     \<longleftrightarrow> i < cur_element_count h \<and> e_label (data_level0 h ! i) = l)"

definition deleted_ids :: "'d hnsw \<Rightarrow> tableint set" where
  "deleted_ids h = {i. i < cur_element_count h \<and> elem_deleted (data_level0 h ! i)}"

definition deleted_wf :: "'d hnsw \<Rightarrow> bool" where
  "deleted_wf h \<longleftrightarrow> num_deleted h = card (deleted_ids h)
     \<and> distinct (deleted_elements h)
     \<and> set (deleted_elements h) = (if allow_replace_deleted h then deleted_ids h else {})"

definition hnsw_wf :: "'d hnsw \<Rightarrow> bool" where
  "hnsw_wf h \<longleftrightarrow> links_wf h \<and> entry_wf h \<and> labels_wf h \<and> deleted_wf h"

text \<open>The layout of the level-0 block and of the upper link lists that the constructor computes.\<close>

definition layout_wf :: "'d hnsw \<Rightarrow> bool" where
  "layout_wf h \<longleftrightarrow> size_links_level0 h = maxM0 h * 4 + 4 \<and> size_links_per_element h = maxM h * 4 + 4
     \<and> offsetLevel0 h = 0 \<and> offsetData h = size_links_level0 h \<and> label_offset h = offsetData h + hn_data_size h
     \<and> size_data_per_element h = label_offset h + 8"

text \<open>The parameters that no operation changes.\<close>

definition same_params :: "'d hnsw \<Rightarrow> 'd hnsw \<Rightarrow> bool" where
  "same_params h h' \<longleftrightarrow> hnM h' = hnM h \<and> ef_construction h' = ef_construction h \<and> hn_data_size h' = hn_data_size h
     \<and> hn_fstdistfunc h' = hn_fstdistfunc h \<and> allow_replace_deleted h' = allow_replace_deleted h
     \<and> size_data_per_element h' = size_data_per_element h \<and> size_links_per_element h' = size_links_per_element h
     \<and> size_links_level0 h' = size_links_level0 h \<and> offsetData h' = offsetData h \<and> offsetLevel0 h' = offsetLevel0 h
     \<and> label_offset h' = label_offset h \<and> hnMult h' = hnMult h"

subsection \<open>Reading under the invariant\<close>

lemma links_wf_bounds:
  assumes "links_wf h" and "i < cur_element_count h"
  shows "i < length (data_level0 h)" "i < length (linkLists h)" "i < length (element_levels h)"
    "lvl h i \<noteq> 0 \<Longrightarrow> length (linkLists h ! i) = lvl h i" "length (e_data (data_level0 h ! i)) = hn_data_size h"
  using assms by (auto simp: links_wf_def)

lemma elem_at_ok [result_simps]: "links_wf h \<Longrightarrow> i < cur_element_count h \<Longrightarrow> elem_at h i = Inr (data_level0 h ! i)"
  using links_wf_bounds(1) [of h i] by (simp add: elem_at_def)

lemma get_linklist_ok [result_simps]:
  assumes "links_wf h" and "i < cur_element_count h" and "level \<le> lvl h i"
  shows "get_linklist_at_level h i level = Inr (at_level h i level)"
  using links_wf_bounds [OF assms(1,2)] assms
  by (auto simp: get_linklist_at_level_def get_linklist0_def get_linklist_def at_level_def elem_at_def)

lemma links_wf_ll_ok: "links_wf h \<Longrightarrow> i < cur_element_count h \<Longrightarrow> level \<le> lvl h i \<Longrightarrow> ll_ok h i level (at_level h i level)"
  by (simp add: links_wf_def)

lemma link_ids_ok: "ll_ok h i level ll \<Longrightarrow> link_ids ll = Inr (ids_of ll)"
  by (simp add: link_ids_def ids_of_def getListCount_def ll_ok_def)

lemma getConnections_ok [result_simps]:
  assumes "links_wf h" and "i < cur_element_count h" and "level \<le> lvl h i"
  shows "getConnectionsWithLock h i level = Inr (nbrs h i level)"
  using link_ids_ok [OF links_wf_ll_ok [OF assms]]
  by (simp add: getConnectionsWithLock_def get_linklist_ok [OF assms] nbrs_def)

lemma nbrs_ok:
  assumes "links_wf h" and "i < cur_element_count h" and "level \<le> lvl h i"
  shows "distinct (nbrs h i level)" "length (nbrs h i level) \<le> list_cap h level"
    and "j \<in> set (nbrs h i level) \<Longrightarrow> j < cur_element_count h \<and> j \<noteq> i \<and> level \<le> lvl h j"
  using links_wf_ll_ok [OF assms] by (auto simp: ll_ok_def nbrs_def ids_of_def)

lemma ll_ok_cong:
  "maxM h' = maxM h \<Longrightarrow> maxM0 h' = maxM0 h \<Longrightarrow> cur_element_count h' = cur_element_count h
    \<Longrightarrow> element_levels h' = element_levels h \<Longrightarrow> ll_ok h' = ll_ok h"
  by (intro ext) (simp add: ll_ok_def list_cap_def)

text \<open>
  Which fields the graph invariant reads. An operation that changes other fields keeps it.
\<close>

lemma links_wf_cong:
  assumes "data_level0 h' = data_level0 h" "linkLists h' = linkLists h" "element_levels h' = element_levels h"
    "max_elements h' = max_elements h" "cur_element_count h' = cur_element_count h"
    "maxM h' = maxM h" "maxM0 h' = maxM0 h" "hnM h' = hnM h" "hn_data_size h' = hn_data_size h"
    "pool_ok (max_elements h) (vl_pool h')"
  shows "links_wf h \<Longrightarrow> links_wf h'"
proof -
  have eq: "ll_ok h' = ll_ok h" "at_level h' = at_level h"
    by (rule ll_ok_cong, simp_all only: assms) (intro ext, simp add: at_level_def assms(1,2))
  assume "links_wf h"
  then show ?thesis
    using assms(10) unfolding links_wf_def assms(1-9) eq by (elim conjE) (intro conjI; assumption)
qed

subsection \<open>Writing link lists\<close>

lemma at_level_put:
  assumes "links_wf h" and "i < cur_element_count h" and "level \<le> lvl h i"
  shows "at_level (put_linklist_at_level h i level ll) j level' =
    (if i = j \<and> level = level' then ll else at_level h j level')"
proof -
  note b = links_wf_bounds [OF assms(1,2)]
  show ?thesis
  proof (cases "level = 0")
    case True
    then show ?thesis
      using b by (cases "i = j") (auto simp: at_level_def put_linklist_at_level_def put_elem_def)
  next
    case False
    then have eq: "level - 1 = level' - 1 \<longleftrightarrow> level = level'" if "level' \<noteq> 0" using that by auto
    have "level - 1 < length (linkLists h ! i)" using False assms(3) b by simp
    then show ?thesis
      using b False eq by (cases "i = j") (auto simp: at_level_def put_linklist_at_level_def)
  qed
qed

lemma length_nested_update: "length (xs[i := (xs ! i)[k := y]] ! j) = length (xs ! j)"
  by (cases "i = j"; cases "i < length xs") (simp_all add: list_update_beyond)

lemma e_data_update: "e_data (es[i := (es ! i)\<lparr>e_links := ll\<rparr>] ! j) = e_data (es ! j)"
  by (cases "i = j"; cases "i < length es") (simp_all add: list_update_beyond)

lemma e_label_update: "e_label (es[i := (es ! i)\<lparr>e_links := ll\<rparr>] ! j) = e_label (es ! j)"
  by (cases "i = j"; cases "i < length es") (simp_all add: list_update_beyond)

lemmas nested_update_frame = length_nested_update e_data_update e_label_update

lemma put_linklist_frame [frame_simps]:
  fixes h i level ll
  defines "h' \<equiv> put_linklist_at_level h i level ll"
  shows "max_elements h' = max_elements h" "cur_element_count h' = cur_element_count h"
    "maxM h' = maxM h" "maxM0 h' = maxM0 h" "hnM h' = hnM h" "hn_data_size h' = hn_data_size h"
    "element_levels h' = element_levels h" "vl_pool h' = vl_pool h" "enterpoint_node h' = enterpoint_node h"
    "maxlevel h' = maxlevel h" "label_lookup h' = label_lookup h" "num_deleted h' = num_deleted h"
    "deleted_elements h' = deleted_elements h" "allow_replace_deleted h' = allow_replace_deleted h"
    "hn_fstdistfunc h' = hn_fstdistfunc h" "ef_construction h' = ef_construction h" "hnEf h' = hnEf h"
    "length (data_level0 h') = length (data_level0 h)" "length (linkLists h') = length (linkLists h)"
    "length (linkLists h' ! j) = length (linkLists h ! j)"
    "e_data (data_level0 h' ! j) = e_data (data_level0 h ! j)"
    "e_label (data_level0 h' ! j) = e_label (data_level0 h ! j)"
    "size_data_per_element h' = size_data_per_element h" "size_links_per_element h' = size_links_per_element h"
    "size_links_level0 h' = size_links_level0 h" "offsetData h' = offsetData h" "offsetLevel0 h' = offsetLevel0 h"
    "label_offset h' = label_offset h" "hnMult h' = hnMult h"
  unfolding h'_def put_linklist_at_level_def put_elem_def by (simp_all add: nested_update_frame)

lemma links_wf_put:
  assumes wf: "links_wf h" and i: "i < cur_element_count h" "level \<le> lvl h i" and ok: "ll_ok h i level ll"
  shows "links_wf (put_linklist_at_level h i level ll)"
proof -
  let ?h = "put_linklist_at_level h i level ll"
  have [simp]: "ll_ok ?h = ll_ok h" by (rule ll_ok_cong) (simp_all add: frame_simps)
  show ?thesis
    using wf ok unfolding links_wf_def by (auto simp: frame_simps at_level_put [OF wf i])
qed

lemma put_elem_frame [frame_simps]:
  fixes h i e
  defines "h' \<equiv> put_elem h i e"
  shows "max_elements h' = max_elements h" "cur_element_count h' = cur_element_count h"
    "maxM h' = maxM h" "maxM0 h' = maxM0 h" "hnM h' = hnM h" "hn_data_size h' = hn_data_size h"
    "element_levels h' = element_levels h" "vl_pool h' = vl_pool h" "enterpoint_node h' = enterpoint_node h"
    "maxlevel h' = maxlevel h" "label_lookup h' = label_lookup h" "num_deleted h' = num_deleted h"
    "deleted_elements h' = deleted_elements h" "allow_replace_deleted h' = allow_replace_deleted h"
    "hn_fstdistfunc h' = hn_fstdistfunc h" "ef_construction h' = ef_construction h" "hnEf h' = hnEf h"
    "length (data_level0 h') = length (data_level0 h)" "linkLists h' = linkLists h"
    "size_data_per_element h' = size_data_per_element h" "size_links_per_element h' = size_links_per_element h"
    "size_links_level0 h' = size_links_level0 h" "offsetData h' = offsetData h" "offsetLevel0 h' = offsetLevel0 h"
    "label_offset h' = label_offset h" "hnMult h' = hnMult h"
  unfolding h'_def put_elem_def by simp_all

lemma nth_put_elem [simp]:
  "i < length (data_level0 h) \<Longrightarrow> data_level0 (put_elem h i e) ! j = (if i = j then e else data_level0 h ! j)"
  by (simp add: put_elem_def)

text \<open>Changing an element's label, vector or mark leaves the graph alone.\<close>

lemma links_wf_put_elem:
  assumes wf: "links_wf h" and i: "i < cur_element_count h"
    and same: "ll_count (e_links e) = ll_count (e_links (data_level0 h ! i))"
      "ll_slots (e_links e) = ll_slots (e_links (data_level0 h ! i))"
    and len: "length (e_data e) = hn_data_size h"
  shows "links_wf (put_elem h i e)"
proof -
  let ?h = "put_elem h i e"
  have ll: "ll_ok ?h = ll_ok h" by (rule ll_ok_cong) (simp_all add: frame_simps)
  have "ll_ok h j level (at_level ?h j level) = ll_ok h j level (at_level h j level)" for j level
    using same links_wf_bounds(1) [OF wf i] by (auto simp: at_level_def frame_simps ll_ok_def ids_of_def)
  then show ?thesis
    using wf len links_wf_bounds(1) [OF wf i] unfolding links_wf_def ll by (auto simp: frame_simps)
qed

lemma nbrs_put_elem:
  assumes "i < length (data_level0 h)" and "ll_count (e_links e) = ll_count (e_links (data_level0 h ! i))"
    "ll_slots (e_links e) = ll_slots (e_links (data_level0 h ! i))"
  shows "nbrs (put_elem h i e) j level = nbrs h j level"
  using assms by (auto simp: nbrs_def ids_of_def at_level_def frame_simps)

subsection \<open>Delete marks\<close>

lemma elem_deleted_bit: "elem_deleted e \<longleftrightarrow> bit (ll_mark (e_links e)) 0"
  by (simp add: elem_deleted_def DELETE_MARK_def and_one_eq bit_0 odd_iff_mod_2_eq_one)

lemma set_mark_fields [simp]:
  "ll_count (e_links (set_mark f e)) = ll_count (e_links e)"
  "ll_slots (e_links (set_mark f e)) = ll_slots (e_links e)"
  "e_data (set_mark f e) = e_data e" "e_label (set_mark f e) = e_label e"
  "ll_mark (e_links (set_mark f e)) = f (ll_mark (e_links e))"
  by (simp_all add: set_mark_def)

lemma mark_bits:
  "bit (b OR DELETE_MARK) 0" "\<not> bit (b AND NOT DELETE_MARK) 0"
  "\<not> bit b 0 \<Longrightarrow> (b OR DELETE_MARK) AND NOT DELETE_MARK = b"
proof -
  show "bit (b OR DELETE_MARK) 0" "\<not> bit (b AND NOT DELETE_MARK) 0"
    by (simp_all add: DELETE_MARK_def bit_or_iff bit_and_iff bit_not_iff bit_1_iff)
  show "(b OR DELETE_MARK) AND NOT DELETE_MARK = b" if "\<not> bit b 0"
    using that by (auto intro!: bit_word_eqI gr0I simp: DELETE_MARK_def bit_or_iff bit_and_iff bit_not_iff bit_1_iff)
qed

lemma finite_deleted_ids [simp]: "finite (deleted_ids h)"
  by (simp add: deleted_ids_def)

lemma hnsw_wf_cong:
  assumes "links_wf h'" and "hnsw_wf h"
    "cur_element_count h' = cur_element_count h" "enterpoint_node h' = enterpoint_node h" "maxlevel h' = maxlevel h"
    "element_levels h' = element_levels h" "label_lookup h' = label_lookup h"
    "\<And>i. i < cur_element_count h \<Longrightarrow> e_label (data_level0 h' ! i) = e_label (data_level0 h ! i)"
    "deleted_wf h'"
  shows "hnsw_wf h'"
proof -
  have "entry_wf h' = entry_wf h" unfolding entry_wf_def assms(3-6) ..
  moreover have "labels_wf h'" using assms(2) unfolding hnsw_wf_def labels_wf_def by (auto simp: assms(3,7,8))
  ultimately show ?thesis using assms(1,2,9) by (simp add: hnsw_wf_def)
qed

lemma markDeletedInternal_ok:
  assumes wf: "hnsw_wf h" and i: "i < cur_element_count h" "i \<notin> deleted_ids h"
  shows "\<exists>h'. markDeletedInternal h i = Inr h' \<and> hnsw_wf h' \<and> deleted_ids h' = insert i (deleted_ids h)
    \<and> label_lookup h' = label_lookup h \<and> cur_element_count h' = cur_element_count h
    \<and> unmarkDeletedInternal h' i = Inr h"
proof -
  let ?e = "data_level0 h ! i"
  let ?h = "put_elem h i (set_mark (\<lambda>b. b OR DELETE_MARK) ?e)"
  let ?h' = "?h\<lparr>num_deleted := num_deleted h + 1,
     deleted_elements := (if allow_replace_deleted h then uset_insert i (deleted_elements h) else deleted_elements h)\<rparr>"
  have links: "links_wf h" and del: "deleted_wf h" using wf by (simp_all add: hnsw_wf_def)
  note b = links_wf_bounds [OF links i(1)]
  have live: "\<not> elem_deleted ?e" using i by (simp add: deleted_ids_def)
  have run: "markDeletedInternal h i = Inr ?h'"
    using i live b by (simp add: markDeletedInternal_def elem_at_def frame_simps Let_def)
  have ids: "deleted_ids ?h' = insert i (deleted_ids h)"
    using i b by (auto simp: deleted_ids_def frame_simps elem_deleted_bit mark_bits)
  have "links_wf ?h" using links_wf_put_elem [OF links i(1)] b by simp
  then have l: "links_wf ?h'" by (rule links_wf_cong [rotated -1]) (use links in \<open>simp_all add: frame_simps links_wf_def\<close>)
  have d: "deleted_wf ?h'"
    using del i ids unfolding deleted_wf_def by (auto simp: frame_simps uset_insert_def)
  have w: "hnsw_wf ?h'" using b by (intro hnsw_wf_cong [OF l wf] d) (auto simp: frame_simps)
  have un: "unmarkDeletedInternal ?h' i = Inr h"
  proof -
    have "i \<notin> set (deleted_elements h)" using del i by (auto simp: deleted_wf_def split: if_splits)
    then have "removeAll i (uset_insert i (deleted_elements h)) = deleted_elements h"
      by (simp add: uset_insert_def)
    moreover have "set_mark (\<lambda>b. b AND NOT DELETE_MARK) (set_mark (\<lambda>b. b OR DELETE_MARK) ?e) = ?e"
      using mark_bits(3) live by (simp add: set_mark_def elem_deleted_bit)
    moreover have "elem_deleted (set_mark (\<lambda>b. b OR DELETE_MARK) ?e)"
      by (simp add: elem_deleted_bit mark_bits)
    ultimately show ?thesis
      using i b by (simp add: unmarkDeletedInternal_def elem_at_def put_elem_def Let_def)
  qed
  show ?thesis using run ids w un by (intro exI [of _ ?h'] conjI) (simp_all add: frame_simps)
qed

lemma markDeletedInternal_params: "markDeletedInternal h i = Inr h' \<Longrightarrow> same_params h h'"
  by (auto simp: markDeletedInternal_def bindE_Inr_iff Let_def same_params_def frame_simps split: if_splits)

text \<open>
  An index of three one-byte vectors for the examples: labels 7, 8, 9, a chain on level 0, and elements 0
  and 2 linked on level 1.
\<close>

definition demo_env :: "int hnsw_env" where
  "demo_env = \<lparr>dmax = 1000, random_level = (\<lambda>_ _. 0), update_draw = (\<lambda>_. 0), uset_iter = (\<lambda>xs. xs),
     malloc_ok = (\<lambda>_. True), vl_junk = (\<lambda>_. 0),
     mem_junk = (\<lambda>_. \<lparr>e_links = \<lparr>ll_count = 0, ll_mark = 0, ll_pad = 0, ll_slots = []\<rparr>, e_data = [], e_label = 0\<rparr>)\<rparr>"

definition demo_links :: "nat \<Rightarrow> tableint list \<Rightarrow> linklist" where
  "demo_links n slots = \<lparr>ll_count = n, ll_mark = 0, ll_pad = 0, ll_slots = slots\<rparr>"

definition hn_demo :: "int hnsw" where
  "hn_demo =
     \<lparr>max_elements = 4, cur_element_count = 3, size_data_per_element = 21, size_links_per_element = 8,
      num_deleted = 0, hnM = 1, maxM = 1, maxM0 = 2, ef_construction = 2, hnEf = 2, hnMult = 0, maxlevel = 1,
      vl_pool = new_VisitedListPool (\<lambda>_. 0) 1 4, enterpoint_node = 0, size_links_level0 = 12, offsetData = 12,
      offsetLevel0 = 0, label_offset = 13,
      data_level0 = [\<lparr>e_links = demo_links 1 [1, 0], e_data = [10], e_label = 7\<rparr>,
                     \<lparr>e_links = demo_links 2 [0, 2], e_data = [20], e_label = 8\<rparr>,
                     \<lparr>e_links = demo_links 1 [1, 0], e_data = [30], e_label = 9\<rparr>,
                     \<lparr>e_links = demo_links 0 [0, 0], e_data = [0], e_label = 0\<rparr>],
      linkLists = [[demo_links 1 [2]], [], [demo_links 1 [0]], []], element_levels = [1, 0, 1, 0],
      hn_data_size = 1, hn_fstdistfunc = byte_dist, label_lookup = [7 \<mapsto> 0, 8 \<mapsto> 1, 9 \<mapsto> 2],
      level_draws = 3, update_draws = 0, metric_distance_computations = 0, metric_hops = 0,
      allow_replace_deleted = True, deleted_elements = []\<rparr>"

lemma less_three: "i < (3 :: nat) \<longleftrightarrow> i = 0 \<or> i = 1 \<or> i = 2"
  by auto

lemma hn_demo_links_wf: "links_wf hn_demo"
proof -
  have "pool_ok 4 (vl_pool hn_demo)" by (simp add: hn_demo_def)
  moreover have "\<forall>level\<le>lvl hn_demo i. ll_ok hn_demo i level (at_level hn_demo i level)" if "i < 3" for i
    using that unfolding less_three
    by (elim disjE) (auto simp: hn_demo_def demo_links_def ll_ok_def at_level_def list_cap_def ids_of_def le_Suc_eq)
  moreover have "length (linkLists hn_demo ! i) = lvl hn_demo i \<and> length (e_data (data_level0 hn_demo ! i)) = 1" if "i < 3" for i
    using that unfolding less_three by (elim disjE) (simp_all add: hn_demo_def)
  ultimately show ?thesis
    unfolding links_wf_def by (simp add: hn_demo_def)
qed

lemma hn_demo_deleted: "deleted_ids hn_demo = {}"
proof -
  have "\<not> elem_deleted (data_level0 hn_demo ! i)" if "i < 3" for i
    using that unfolding less_three by (elim disjE) (simp_all add: hn_demo_def elem_deleted_def demo_links_def)
  then show ?thesis by (auto simp: deleted_ids_def hn_demo_def)
qed

lemma hn_demo_wf: "hnsw_wf hn_demo"
proof -
  have "entry_wf hn_demo" by (auto simp: entry_wf_def hn_demo_def less_three)
  moreover have "label_lookup hn_demo l = Some i \<longleftrightarrow> i < cur_element_count hn_demo \<and> e_label (data_level0 hn_demo ! i) = l" for l i
    by (cases "i = 0 \<or> i = 1 \<or> i = 2") (auto simp: hn_demo_def)
  then have "labels_wf hn_demo" by (simp add: labels_wf_def)
  moreover have "deleted_wf hn_demo" by (simp add: deleted_wf_def hn_demo_deleted) (simp add: hn_demo_def)
  ultimately show ?thesis by (simp add: hnsw_wf_def hn_demo_links_wf)
qed

lemma hn_demo_fields:
  "cur_element_count hn_demo = 3" "max_elements hn_demo = 4" "label_lookup hn_demo 8 = Some 1" "hn_data_size hn_demo = 1"
  by (simp_all add: hn_demo_def)

text \<open>
  \<^bold>\<open>C24.\<close> Deleting by label: for a label that is not in the index \<open>markDelete\<close> throws, for a live
  element it sets the mark and keeps the whole invariant, so that the number of deleted elements is
  the number of marks; deleting again throws, and \<open>unmarkDelete\<close> restores the index exactly.
\<close>

theorem markDelete_unmarkDelete:
  assumes wf: "hnsw_wf h"
  shows "case label_lookup h l of
      None \<Rightarrow> markDelete h l = Inl (Throw ''Label not found'')
    | Some i \<Rightarrow>
        if i \<in> deleted_ids h then markDelete h l = Inl (Throw ''The requested to delete element is already deleted'')
        else \<exists>h'. markDelete h l = Inr h' \<and> hnsw_wf h' \<and> num_deleted h' = num_deleted h + 1
          \<and> markDelete h' l = Inl (Throw ''The requested to delete element is already deleted'')
          \<and> unmarkDelete h' l = Inr h"
proof (cases "label_lookup h l")
  case None
  then show ?thesis by (simp add: markDelete_def find_label_def)
next
  case (Some i)
  have again: "markDelete g l = Inl (Throw ''The requested to delete element is already deleted'')"
    if "links_wf g" "label_lookup g l = Some i" "i \<in> deleted_ids g" for g :: "'a hnsw"
    using that by (simp add: markDelete_def find_label_def markDeletedInternal_def deleted_ids_def elem_at_ok)
  have i: "i < cur_element_count h" and links: "links_wf h" using wf Some by (auto simp: hnsw_wf_def labels_wf_def)
  show ?thesis
  proof (cases "i \<in> deleted_ids h")
    case True
    then show ?thesis using again [OF links Some] Some by simp
  next
    case False
    obtain h' where h': "markDeletedInternal h i = Inr h'" "hnsw_wf h'" "deleted_ids h' = insert i (deleted_ids h)"
      "label_lookup h' = label_lookup h" "unmarkDeletedInternal h' i = Inr h"
      using markDeletedInternal_ok [OF wf i False] by blast
    then have "num_deleted h' = num_deleted h + 1"
      using wf False by (simp add: hnsw_wf_def deleted_wf_def)
    then show ?thesis
      using h' Some False again [of h'] by (simp add: markDelete_def unmarkDelete_def find_label_def hnsw_wf_def)
  qed
qed

theorem markDelete_unmarkDelete_witness:
  "\<exists>h'. markDelete hn_demo 8 = Inr h' \<and> hnsw_wf h' \<and> unmarkDelete h' 8 = Inr hn_demo"
  using markDelete_unmarkDelete [OF hn_demo_wf, of 8] by (auto simp: hn_demo_fields hn_demo_deleted)

subsection \<open>Construction and resizing\<close>

text \<open>
  The constructor establishes the invariant of an empty index, and whatever \<open>M\<close> it is given, the
  capacity of a link list stays below \<open>2 ^ 16\<close>, so that every count fits the 16 bits it is stored in.
\<close>

theorem new_HierarchicalNSW_wf:
  assumes "new_HierarchicalNSW env mult_of s max_els M_arg ef_arg allow_replace = Inr h" and "max_els < 2 ^ 32"
  shows "hnsw_wf h \<and> cur_element_count h = 0 \<and> maxM0 h < 2 ^ 16 \<and> hnM h \<le> ef_construction h
    \<and> label_offset h + 8 = size_data_per_element h \<and> max_elements h = max_els"
proof -
  have "hnM h \<le> 10000" "maxM0 h = hnM h * 2" using assms(1)
    by (auto simp: new_HierarchicalNSW_def Let_def bindE_Inr_iff)
  then have "maxM0 h < 2 ^ 16" by simp
  then show ?thesis
    using assms
    by (auto simp: new_HierarchicalNSW_def Let_def bindE_Inr_iff hnsw_wf_def links_wf_def entry_wf_def labels_wf_def
        deleted_wf_def deleted_ids_def)
qed

theorem new_HierarchicalNSW_wf_witness:
  "\<exists>h. new_HierarchicalNSW demo_env (\<lambda>_. 0) \<lparr>get_data_size = 1, get_dist_func = byte_dist\<rparr> 5 20000 3 True = Inr h
    \<and> hnsw_wf h \<and> maxM0 h < 2 ^ 16"
proof -
  have "\<exists>h. new_HierarchicalNSW demo_env (\<lambda>_. 0) \<lparr>get_data_size = 1, get_dist_func = byte_dist\<rparr> 5 20000 3 True = Inr h"
    by (simp add: new_HierarchicalNSW_def Let_def demo_env_def)
  then show ?thesis using new_HierarchicalNSW_wf [where env = demo_env and max_els = 5] by fastforce
qed

lemma length_resize_list [simp]: "length (resize_list n f xs) = n"
  by (simp add: resize_list_def min_def)

lemma nth_resize_list: "i < n \<Longrightarrow> i < length xs \<Longrightarrow> resize_list n f xs ! i = xs ! i"
  by (simp add: resize_list_def nth_append)

lemma resizeIndex_ok:
  assumes wf: "hnsw_wf h" and mem: "\<And>n. malloc_ok env n" and n: "n < 2 ^ 32"
  shows "if n < cur_element_count h
    then resizeIndex env n h = Inl (Throw ''Cannot resize, max element is less than the current number of elements'')
    else \<exists>h'. resizeIndex env n h = Inr h' \<and> hnsw_wf h' \<and> max_elements h' = n \<and> same_params h h'
      \<and> (\<forall>i<cur_element_count h. data_level0 h' ! i = data_level0 h ! i \<and> lvl h' i = lvl h i
           \<and> (\<forall>level. nbrs h' i level = nbrs h i level))"
proof (cases "n < cur_element_count h")
  case True
  then show ?thesis by (simp add: resizeIndex_def)
next
  case False
  let ?c = "cur_element_count h"
  let ?h = "h\<lparr>vl_pool := new_VisitedListPool (vl_junk env) 1 n,
     element_levels := resize_list n (\<lambda>_. 0) (element_levels h),
     data_level0 := resize_list n (mem_junk env) (data_level0 h),
     linkLists := resize_list n (\<lambda>_. []) (linkLists h), max_elements := n\<rparr>"
  have links: "links_wf h" and ent: "entry_wf h" and lab: "labels_wf h" and del: "deleted_wf h"
    using wf by (simp_all add: hnsw_wf_def)
  have run: "resizeIndex env n h = Inr ?h" using False mem by (simp add: resizeIndex_def Let_def)
  have same: "data_level0 ?h ! i = data_level0 h ! i \<and> linkLists ?h ! i = linkLists h ! i \<and> lvl ?h i = lvl h i" if "i < ?c" for i
    using that False links_wf_bounds [OF links that] by (simp add: nth_resize_list)
  have at: "at_level ?h i level = at_level h i level" if "i < ?c" for i level
    using same [OF that] unfolding at_level_def by simp
  have ll: "ll_ok ?h i level l \<longleftrightarrow> ll_ok h i level l" for i level l
    using same by (auto simp: ll_ok_def list_cap_def)
  have "links_wf ?h"
    using links False n same unfolding links_wf_def ll by (auto simp: at [unfolded One_nat_def])
  moreover have "entry_wf ?h"
    using ent same unfolding entry_wf_def by auto
  moreover have "labels_wf ?h"
    using lab same unfolding labels_wf_def by auto
  moreover have "deleted_ids ?h = deleted_ids h" using same by (auto simp: deleted_ids_def)
  then have "deleted_wf ?h" using del by (simp add: deleted_wf_def)
  ultimately have "hnsw_wf ?h" by (simp add: hnsw_wf_def)
  then show ?thesis using False run same at by (auto simp: nbrs_def same_params_def)
qed

text \<open>
  \<open>resizeIndex\<close> throws exactly when the new size cannot hold the elements; otherwise (memory
  granted) the index has the new size, the invariant holds, and every element keeps its vector, label, mark,
  level and links.
\<close>

theorem resizeIndex_keeps:
  assumes wf: "hnsw_wf h" and mem: "\<And>n. malloc_ok env n" and n: "n < 2 ^ 32"
  shows "if n < cur_element_count h
    then resizeIndex env n h = Inl (Throw ''Cannot resize, max element is less than the current number of elements'')
    else \<exists>h'. resizeIndex env n h = Inr h' \<and> hnsw_wf h' \<and> max_elements h' = n
      \<and> (\<forall>i<cur_element_count h. data_level0 h' ! i = data_level0 h ! i \<and> lvl h' i = lvl h i
           \<and> (\<forall>level. nbrs h' i level = nbrs h i level))"
  using resizeIndex_ok [OF assms] by (auto split: if_splits)

theorem resizeIndex_keeps_witness:
  "\<exists>h'. resizeIndex demo_env 9 hn_demo = Inr h' \<and> hnsw_wf h' \<and> max_elements h' = 9
    \<and> data_level0 h' ! 2 = data_level0 hn_demo ! 2"
  using resizeIndex_keeps [OF hn_demo_wf, of demo_env 9] by (auto simp: hn_demo_fields demo_env_def)

end
