(* ===== verification/Hnsw_Search.thy ===== *)
theory Hnsw_Search
  imports Hnsw_State Stop_Condition
begin

text \<open>
  \<open>hnswlib/hnswalg.h\<close>, the searches: the best-first search of one layer while an element is inserted
  (\<open>searchBaseLayer\<close>), the one that answers queries (\<open>searchBaseLayerST\<close>, with its template
  flags as arguments), the greedy descent through the upper layers, and the two query
  operations \<open>searchKnn\<close> and \<open>searchStopConditionClosest\<close>.

  Distances are elements of an ordered abelian group: comparisons are total (no NaN) and the negation
  that turns the max-queue into a min-queue reverses the order. Prefetches have no effect and are
  left out.

  All loops are total functions. In the best-first loops every iteration takes a candidate away, and
  a candidate is only added for a node that was not tagged before, so the untagged nodes and the
  candidates together become fewer. In the greedy descent the distance of the current node
  decreases strictly among finitely many values.
\<close>

subsection \<open>Searching a layer during construction\<close>

record 'd layer_search =
  ls_vl :: visited_list
  ls_top :: "('d \<times> tableint) list"
  ls_cand :: "('d \<times> tableint) list"
  ls_lb :: 'd

text \<open>The body of the loop over the neighbours of a node.\<close>

definition bl_visit ::
    "'d::linordered_ab_group_add hnsw \<Rightarrow> byte list \<Rightarrow> 'd layer_search \<Rightarrow> tableint \<Rightarrow> hnsw_error + 'd layer_search" where
  "bl_visit h data_point s candidate_id =
     bindE (guardE (candidate_id < length (mass (ls_vl s))) Bad_access) (\<lambda>_.
     if is_visited (ls_vl s) candidate_id then Inr s
     else let s = s\<lparr>ls_vl := mark_visited candidate_id (ls_vl s)\<rparr> in
       bindE (elem_at h candidate_id) (\<lambda>e.
         let dist1 = hn_fstdistfunc h data_point (e_data e) in
         if length (ls_top s) < ef_construction h \<or> dist1 < ls_lb s then
           let s = s\<lparr>ls_cand := pq_push CompareByFirst (- dist1, candidate_id) (ls_cand s)\<rparr>;
               s = (if \<not> elem_deleted e
                    then s\<lparr>ls_top := pq_push CompareByFirst (dist1, candidate_id) (ls_top s)\<rparr> else s);
               s = (if ef_construction h < length (ls_top s)
                    then s\<lparr>ls_top := pq_pop CompareByFirst (ls_top s)\<rparr> else s)
           in Inr (if ls_top s \<noteq> [] then s\<lparr>ls_lb := fst (pq_top (ls_top s))\<rparr> else s)
         else Inr s))"

text \<open>What becomes less in every iteration.\<close>

definition search_work :: "('d, 'z) layer_search_scheme \<Rightarrow> nat" where
  "search_work s = length (filter (\<lambda>t. t \<noteq> curV (ls_vl s)) (mass (ls_vl s))) + length (ls_cand s)"

lemma search_work_mark:
  assumes "i < length (mass vl)" and "\<not> is_visited vl i"
  shows "Suc (length (filter (\<lambda>t. t \<noteq> curV (mark_visited i vl)) (mass (mark_visited i vl))))
    = length (filter (\<lambda>t. t \<noteq> curV vl) (mass vl))"
  using assms length_filter_update [of i "mass vl" "\<lambda>t. t \<noteq> curV vl" "curV vl"]
  by (simp add: mark_visited_def is_visited_def)

lemma bl_visit_work:
  assumes "bl_visit h q s i = Inr s'"
  shows "search_work s' \<le> search_work s"
proof -
  have i: "i < length (mass (ls_vl s))" using assms by (auto simp: bl_visit_def bindE_Inr_iff)
  show ?thesis
  proof (cases "is_visited (ls_vl s) i")
    case True
    then show ?thesis using assms by (simp add: bl_visit_def bindE_Inr_iff)
  next
    case False
    note m = search_work_mark [OF i False]
    from False assms have "ls_vl s' = mark_visited i (ls_vl s) \<and> length (ls_cand s') \<le> Suc (length (ls_cand s))"
      by (auto simp: bl_visit_def bindE_Inr_iff Let_def heap_simps split: if_splits)
    then show ?thesis using m by (auto simp: search_work_def)
  qed
qed

lemma foldE_work:
  assumes "foldE f s xs = Inr s'" and "\<And>t x t'. f t x = Inr t' \<Longrightarrow> search_work t' \<le> search_work t"
  shows "search_work s' \<le> search_work s"
  using assms(1) by (rule foldE_invariant [where P = "\<lambda>t. search_work t \<le> search_work s"]) (auto dest: assms(2))

lemma search_work_pop:
  assumes "ls_cand s \<noteq> []"
  shows "search_work (s\<lparr>ls_cand := pq_pop CompareByFirst (ls_cand s)\<rparr>) < search_work s"
  using assms by (simp add: search_work_def heap_simps)

function bl_loop ::
    "'d::linordered_ab_group_add hnsw \<Rightarrow> byte list \<Rightarrow> nat \<Rightarrow> 'd layer_search \<Rightarrow> hnsw_error + 'd layer_search" where
  "bl_loop h data_point layer s =
     (if ls_cand s = [] then Inr s
      else let curr_el_pair = pq_top (ls_cand s) in
        if ls_lb s < - fst curr_el_pair \<and> length (ls_top s) = ef_construction h then Inr s
        else bindE (bindE (get_linklist_at_level h (snd curr_el_pair) layer) link_ids) (\<lambda>datal.
             bindE (foldE (bl_visit h data_point) (s\<lparr>ls_cand := pq_pop CompareByFirst (ls_cand s)\<rparr>) datal)
               (bl_loop h data_point layer)))"
  by pat_completeness auto
termination
proof (relation "measure (\<lambda>(h, q, layer, s). search_work s)")
  fix h :: "'d::linordered_ab_group_add hnsw" and q layer s p ids s'
  assume "ls_cand s \<noteq> []"
    and "foldE (bl_visit h q) (s\<lparr>ls_cand := pq_pop CompareByFirst (ls_cand s)\<rparr>) ids = Inr s'"
  then have "search_work s' < search_work s"
    using foldE_work [of "bl_visit h q" _ ids s', OF _ bl_visit_work] search_work_pop [of s] by fastforce
  then show "((h, q, layer, s'), h, q, layer, s) \<in> measure (\<lambda>(h, q, layer, s). search_work s)" by simp
qed simp

declare bl_loop.simps [simp del]

definition searchBaseLayer ::
    "'d::linordered_ab_group_add hnsw_env \<Rightarrow> 'd hnsw \<Rightarrow> tableint \<Rightarrow> byte list \<Rightarrow> nat
      \<Rightarrow> hnsw_error + ('d \<times> tableint) list \<times> 'd hnsw" where
  "searchBaseLayer env h ep_id data_point layer =
     (let (vl, vpool) = getFreeVisitedList (vl_junk env) (vl_pool h) in
      bindE (elem_at h ep_id) (\<lambda>e.
      let (top, lb) = (if \<not> elem_deleted e
                       then let dist = hn_fstdistfunc h data_point (e_data e)
                            in (pq_push CompareByFirst (dist, ep_id) [], dist)
                       else ([], dmax env)) in
      bindE (guardE (ep_id < length (mass vl)) Bad_access) (\<lambda>_.
      bindE (bl_loop h data_point layer
               \<lparr>ls_vl = mark_visited ep_id vl, ls_top = top, ls_cand = pq_push CompareByFirst (- lb, ep_id) [],
                ls_lb = lb\<rparr>) (\<lambda>s.
      Inr (ls_top s, h\<lparr>vl_pool := releaseVisitedList (ls_vl s) vpool\<rparr>)))))"

subsection \<open>Searching the base layer for a query\<close>

text \<open>
  The template flags \<open>bare_bone_search\<close> and \<open>collect_metrics\<close> are \<open>bare\<close> and \<open>metrics\<close>. Where the
  source tests \<open>!bare_bone_search && stop_condition\<close> the stop condition that counts is \<open>active_stop\<close>.
  \<open>ls_stop\<close> is the state of the stop condition's object.
\<close>

record ('d, 's) st_search = "'d layer_search" +
  ls_stop :: 's
  ls_hops :: nat
  ls_comps :: nat

definition active_stop :: "bool \<Rightarrow> 'c option \<Rightarrow> 'c option" where
  "active_stop bare stop = (if bare then None else stop)"

definition admits :: "bool \<Rightarrow> filter_functor \<Rightarrow> elem \<Rightarrow> bool" where
  "admits bare isIdAllowed e \<longleftrightarrow> bare \<or> (\<not> elem_deleted e \<and> allowed isIdAllowed (e_label e))"

text \<open>\<open>while (flag_remove_extra) ...\<close>\<close>

function st_remove_extra ::
    "'d::linordered_ab_group_add hnsw \<Rightarrow> nat \<Rightarrow> ('s, 'd) stop_condition option \<Rightarrow> 'd \<Rightarrow> ('d, 's) st_search
      \<Rightarrow> hnsw_error + ('d, 's) st_search" where
  "st_remove_extra h ef stop d s =
     (if (case stop of None \<Rightarrow> ef < length (ls_top s) | Some c \<Rightarrow> should_remove_extra c (ls_stop s)) then
        if ls_top s = [] then Inl Empty_container
        else let i = snd (pq_top (ls_top s));
                 s' = s\<lparr>ls_top := pq_pop CompareByFirst (ls_top s)\<rparr>
             in (case stop of
                   None \<Rightarrow> st_remove_extra h ef stop d s'
                 | Some c \<Rightarrow> bindE (elem_at h i) (\<lambda>e.
                     st_remove_extra h ef stop d
                       (s'\<lparr>ls_stop := remove_point_from_result c (ls_stop s') (e_label e) (e_data e) d\<rparr>)))
      else Inr s)"
  by pat_completeness auto
termination
  by (relation "measure (\<lambda>(h, ef, stop, d, s). length (ls_top s))") (auto simp: heap_simps)

declare st_remove_extra.simps [simp del]

text \<open>A candidate that is considered joins the queues.\<close>

definition st_take ::
    "'d::linordered_ab_group_add hnsw \<Rightarrow> nat \<Rightarrow> bool \<Rightarrow> filter_functor \<Rightarrow> ('s, 'd) stop_condition option
      \<Rightarrow> ('d, 's) st_search \<Rightarrow> tableint \<Rightarrow> elem \<Rightarrow> 'd \<Rightarrow> hnsw_error + ('d, 's) st_search" where
  "st_take h ef bare isIdAllowed stop s candidate_id e d =
     (let s = s\<lparr>ls_cand := pq_push CompareByFirst (- d, candidate_id) (ls_cand s)\<rparr>;
          s = (if admits bare isIdAllowed e
               then let s = s\<lparr>ls_top := pq_push CompareByFirst (d, candidate_id) (ls_top s)\<rparr>
                    in (case active_stop bare stop of
                          Some c \<Rightarrow> s\<lparr>ls_stop := add_point_to_result c (ls_stop s) (e_label e) (e_data e) d\<rparr>
                        | None \<Rightarrow> s)
               else s)
      in bindE (st_remove_extra h ef (active_stop bare stop) d s) (\<lambda>s.
           Inr (if ls_top s \<noteq> [] then s\<lparr>ls_lb := fst (pq_top (ls_top s))\<rparr> else s)))"

definition st_visit ::
    "'d::linordered_ab_group_add hnsw \<Rightarrow> byte list \<Rightarrow> nat \<Rightarrow> bool \<Rightarrow> filter_functor \<Rightarrow> ('s, 'd) stop_condition option
      \<Rightarrow> ('d, 's) st_search \<Rightarrow> tableint \<Rightarrow> hnsw_error + ('d, 's) st_search" where
  "st_visit h data_point ef bare isIdAllowed stop s candidate_id =
     bindE (guardE (candidate_id < length (mass (ls_vl s))) Bad_access) (\<lambda>_.
     if \<not> is_visited (ls_vl s) candidate_id then
       let s = s\<lparr>ls_vl := mark_visited candidate_id (ls_vl s)\<rparr> in
       bindE (elem_at h candidate_id) (\<lambda>e.
         let dist = hn_fstdistfunc h data_point (e_data e);
             flag_consider_candidate =
               (case active_stop bare stop of
                  Some c \<Rightarrow> should_consider_candidate c (ls_stop s) dist (ls_lb s)
                | None \<Rightarrow> length (ls_top s) < ef \<or> dist < ls_lb s)
         in if flag_consider_candidate then st_take h ef bare isIdAllowed stop s candidate_id e dist
            else Inr s)
     else Inr s)"

definition st_stops :: "nat \<Rightarrow> bool \<Rightarrow> ('s, 'd) stop_condition option \<Rightarrow> ('d::linordered_ab_group_add, 's) st_search \<Rightarrow> 'd \<Rightarrow> bool" where
  "st_stops ef bare stop s candidate_dist =
     (if bare then ls_lb s < candidate_dist
      else case stop of
             Some c \<Rightarrow> should_stop_search c (ls_stop s) candidate_dist (ls_lb s)
           | None \<Rightarrow> ls_lb s < candidate_dist \<and> length (ls_top s) = ef)"

lemma st_remove_extra_frame:
  "st_remove_extra h ef stop d s = Inr s' \<Longrightarrow>
   ls_vl s' = ls_vl s \<and> ls_cand s' = ls_cand s \<and> ls_lb s' = ls_lb s \<and> ls_hops s' = ls_hops s \<and> ls_comps s' = ls_comps s"
proof (induction h ef stop d s rule: st_remove_extra.induct)
  case (1 h ef stop d s)
  show ?case
    using "1.prems" "1.IH"
    by (subst (asm) st_remove_extra.simps) (auto simp: Let_def bindE_Inr_iff split: if_splits option.splits)
qed

lemma st_take_frame:
  assumes "st_take h ef bare f stop s i e d = Inr s'"
  shows "ls_vl s' = ls_vl s \<and> length (ls_cand s') = Suc (length (ls_cand s))"
proof -
  define s1 where "s1 = s\<lparr>ls_cand := pq_push CompareByFirst (- d, i) (ls_cand s)\<rparr>"
  define s2 where "s2 = (if admits bare f e
     then let t = s1\<lparr>ls_top := pq_push CompareByFirst (d, i) (ls_top s1)\<rparr>
          in (case active_stop bare stop of
                Some c \<Rightarrow> t\<lparr>ls_stop := add_point_to_result c (ls_stop t) (e_label e) (e_data e) d\<rparr> | None \<Rightarrow> t)
     else s1)"
  have 2: "ls_vl s2 = ls_vl s" "length (ls_cand s2) = Suc (length (ls_cand s))"
    by (simp_all add: s2_def s1_def Let_def heap_simps split: option.split)
  obtain s3 where 3: "st_remove_extra h ef (active_stop bare stop) d s2 = Inr s3"
    "s' = (if ls_top s3 \<noteq> [] then s3\<lparr>ls_lb := fst (pq_top (ls_top s3))\<rparr> else s3)"
    using assms unfolding st_take_def Let_def s2_def s1_def by (auto simp: bindE_Inr_iff)
  then show ?thesis using st_remove_extra_frame [OF 3(1)] 2 by simp
qed

lemma st_visit_work:
  assumes "st_visit h q ef bare f stop s i = Inr s'"
  shows "search_work s' \<le> search_work s"
proof -
  have i: "i < length (mass (ls_vl s))" using assms by (auto simp: st_visit_def bindE_Inr_iff)
  show ?thesis
  proof (cases "is_visited (ls_vl s) i")
    case True
    then show ?thesis using assms by (simp add: st_visit_def bindE_Inr_iff)
  next
    case False
    note m = search_work_mark [OF i False]
    from False assms have "ls_vl s' = mark_visited i (ls_vl s) \<and> length (ls_cand s') \<le> Suc (length (ls_cand s))"
      using i by (auto simp: st_visit_def bindE_Inr_iff Let_def dest!: st_take_frame split: if_splits)
    then show ?thesis using m by (auto simp: search_work_def)
  qed
qed

function st_loop ::
    "'d::linordered_ab_group_add hnsw \<Rightarrow> byte list \<Rightarrow> nat \<Rightarrow> bool \<Rightarrow> bool \<Rightarrow> filter_functor \<Rightarrow> ('s, 'd) stop_condition option
      \<Rightarrow> ('d, 's) st_search \<Rightarrow> hnsw_error + ('d, 's) st_search" where
  "st_loop h data_point ef bare metrics isIdAllowed stop s =
     (if ls_cand s = [] then Inr s
      else let current_node_pair = pq_top (ls_cand s) in
        if st_stops ef bare stop s (- fst current_node_pair) then Inr s
        else bindE (bindE (get_linklist0 h (snd current_node_pair)) link_ids) (\<lambda>ids.
             let s' = s\<lparr>ls_cand := pq_pop CompareByFirst (ls_cand s)\<rparr>;
                 s' = (if metrics then s'\<lparr>ls_hops := ls_hops s + 1, ls_comps := ls_comps s + length ids\<rparr> else s')
             in bindE (foldE (st_visit h data_point ef bare isIdAllowed stop) s' ids)
                  (st_loop h data_point ef bare metrics isIdAllowed stop)))"
  by pat_completeness auto
termination
proof (relation "measure (\<lambda>(h, q, ef, bare, metrics, f, stop, s). search_work s)")
  fix h :: "'d::linordered_ab_group_add hnsw" and q ef bare metrics f and stop :: "('s, 'd) stop_condition option"
    and s p ids s1 s2 s'
  assume c: "ls_cand s \<noteq> []" and s1: "s1 = s\<lparr>ls_cand := pq_pop CompareByFirst (ls_cand s)\<rparr>"
    and s2: "s2 = (if metrics then s1\<lparr>ls_hops := ls_hops s + 1, ls_comps := ls_comps s + length ids\<rparr> else s1)"
    and fold: "foldE (st_visit h q ef bare f stop) s2 ids = Inr s'"
  have "search_work s' \<le> search_work s2" by (rule foldE_work [OF fold st_visit_work])
  also have "search_work s2 = search_work s1" by (simp add: s2 search_work_def)
  also have "\<dots> < search_work s" using search_work_pop [OF c] by (simp add: s1)
  finally show "((h, q, ef, bare, metrics, f, stop, s'), h, q, ef, bare, metrics, f, stop, s)
      \<in> measure (\<lambda>(h, q, ef, bare, metrics, f, stop, s). search_work s)" by simp
qed simp

declare st_loop.simps [simp del]

definition searchBaseLayerST ::
    "'d::linordered_ab_group_add hnsw_env \<Rightarrow> bool \<Rightarrow> bool \<Rightarrow> 'd hnsw \<Rightarrow> tableint \<Rightarrow> byte list \<Rightarrow> nat \<Rightarrow> filter_functor
      \<Rightarrow> ('s, 'd) stop_condition option \<Rightarrow> 's \<Rightarrow> hnsw_error + ('d \<times> tableint) list \<times> 's \<times> 'd hnsw" where
  "searchBaseLayerST env bare metrics h ep_id data_point ef isIdAllowed stop stop_state =
     (let (vl, vpool) = getFreeVisitedList (vl_junk env) (vl_pool h) in
      bindE (elem_at h ep_id) (\<lambda>e.
      let (top, lb, st) =
            (if admits bare isIdAllowed e
             then let dist = hn_fstdistfunc h data_point (e_data e)
                  in (pq_push CompareByFirst (dist, ep_id) [], dist,
                      case active_stop bare stop of
                        Some c \<Rightarrow> add_point_to_result c stop_state (e_label e) (e_data e) dist
                      | None \<Rightarrow> stop_state)
             else ([], dmax env, stop_state)) in
      bindE (guardE (ep_id < length (mass vl)) Bad_access) (\<lambda>_.
      bindE (st_loop h data_point ef bare metrics isIdAllowed stop
               \<lparr>ls_vl = mark_visited ep_id vl, ls_top = top, ls_cand = pq_push CompareByFirst (- lb, ep_id) [],
                ls_lb = lb, ls_stop = st, ls_hops = 0, ls_comps = 0\<rparr>) (\<lambda>s.
      Inr (ls_top s, ls_stop s,
           h\<lparr>vl_pool := releaseVisitedList (ls_vl s) vpool,
             metric_hops := metric_hops h + ls_hops s,
             metric_distance_computations := metric_distance_computations h + ls_comps s\<rparr>)))))"

subsection \<open>Greedy descent\<close>

text \<open>
  The loops that walk down the upper layers, in \<open>addPoint\<close>, \<open>repairConnectionsForUpdate\<close>, \<open>searchKnn\<close> and
  \<open>searchStopConditionClosest\<close>. \<open>check\<close> is whether the loop tests the candidate's id, which
  \<open>repairConnectionsForUpdate\<close> does not. The hops and distance computations are counted for the
  two query operations.
\<close>

record 'd greedy =
  g_obj :: tableint
  g_dist :: 'd
  g_hops :: nat
  g_comps :: nat

definition greedy_visit ::
    "bool \<Rightarrow> 'd::linorder hnsw \<Rightarrow> byte list \<Rightarrow> 'd greedy \<times> bool \<Rightarrow> tableint \<Rightarrow> hnsw_error + 'd greedy \<times> bool" where
  "greedy_visit check h query_data gc cand =
     (if check \<and> max_elements h < cand then Inl (Throw ''cand error'')
      else bindE (elem_at h cand) (\<lambda>e.
        let d = hn_fstdistfunc h query_data (e_data e) in
        Inr (if d < g_dist (fst gc) then ((fst gc)\<lparr>g_obj := cand, g_dist := d\<rparr>, True) else gc)))"

definition elem_dist :: "'d hnsw \<Rightarrow> byte list \<Rightarrow> tableint \<Rightarrow> 'd" where
  "elem_dist h q i = hn_fstdistfunc h q (e_data (data_level0 h ! i))"

lemma greedy_visit_fold:
  assumes "foldE (greedy_visit check h q) (g, False) ids = Inr (g', changed)"
  shows "g_dist g' \<le> g_dist g \<and> (\<not> changed \<longrightarrow> g' = g)
    \<and> (changed \<longrightarrow> g_dist g' < g_dist g \<and> g_obj g' \<in> set ids \<and> g_obj g' < length (data_level0 h)
         \<and> g_dist g' = elem_dist h q (g_obj g'))
    \<and> (\<forall>i\<in>set ids. g_dist g' \<le> elem_dist h q i) \<and> g_hops g' = g_hops g \<and> g_comps g' = g_comps g"
  using assms
proof (induction ids arbitrary: g' changed rule: rev_induct)
  case (snoc i ids)
  from snoc.prems obtain g1 c1 where 1: "foldE (greedy_visit check h q) (g, False) ids = Inr (g1, c1)"
    "greedy_visit check h q (g1, c1) i = Inr (g', changed)"
    by (auto simp: foldE_append bindE_Inr_iff)
  from 1(2) have i: "i < length (data_level0 h)"
    by (auto simp: greedy_visit_def elem_at_def bindE_Inr_iff split: if_splits)
  with 1(2) have "(g', changed) = (if elem_dist h q i < g_dist g1 then (g1\<lparr>g_obj := i, g_dist := elem_dist h q i\<rparr>, True) else (g1, c1))"
    by (auto simp: greedy_visit_def elem_at_def bindE_Inr_iff elem_dist_def Let_def split: if_splits)
  with snoc.IH [OF 1(1)] i show ?case by (auto split: if_splits)
qed simp

function greedy_while ::
    "bool \<Rightarrow> 'd::linorder hnsw \<Rightarrow> byte list \<Rightarrow> nat \<Rightarrow> 'd greedy \<Rightarrow> hnsw_error + 'd greedy" where
  "greedy_while check h query_data level g =
     bindE (bindE (get_linklist_at_level h (g_obj g) level) link_ids) (\<lambda>datal.
     bindE (foldE (greedy_visit check h query_data)
              (g\<lparr>g_hops := g_hops g + 1, g_comps := g_comps g + length datal\<rparr>, False) datal) (\<lambda>gc.
       if snd gc then greedy_while check h query_data level (fst gc) else Inr (fst gc)))"
  by pat_completeness auto
termination
proof (relation "measure (\<lambda>(check, h, q, level, g). card {i. i < length (data_level0 h) \<and> elem_dist h q i < g_dist g})")
  fix check and h :: "'d::linorder hnsw" and q level and ids :: "tableint list" and g :: "'d greedy" and gc :: "'d greedy \<times> bool"
  let ?g = "g\<lparr>g_hops := g_hops g + 1, g_comps := g_comps g + length ids\<rparr>"
  assume fold: "foldE (greedy_visit check h q) (?g, False) ids = Inr gc" and "snd gc"
  from fold have "foldE (greedy_visit check h q) (?g, False) ids = Inr (fst gc, snd gc)" by simp
  from greedy_visit_fold [OF this] \<open>snd gc\<close> have less: "g_dist (fst gc) < g_dist g" and obj: "g_obj (fst gc) < length (data_level0 h)"
    "g_dist (fst gc) = elem_dist h q (g_obj (fst gc))"
    by auto
  let ?S = "\<lambda>d. {i. i < length (data_level0 h) \<and> elem_dist h q i < d}"
  have "?S (g_dist (fst gc)) \<subset> ?S (g_dist g)" using less obj by (force simp: psubset_eq)
  then have "card (?S (g_dist (fst gc))) < card (?S (g_dist g))" by (intro psubset_card_mono) simp_all
  then show "((check, h, q, level, fst gc), check, h, q, level, g)
    \<in> measure (\<lambda>(check, h, q, level, g). card {i. i < length (data_level0 h) \<and> elem_dist h q i < g_dist g})"
    by simp
qed simp

declare greedy_while.simps [simp del]

text \<open>\<open>for (int level = top; level > bottom; level--)\<close>\<close>

fun greedy_down :: "bool \<Rightarrow> 'd::linorder hnsw \<Rightarrow> byte list \<Rightarrow> nat \<Rightarrow> nat \<Rightarrow> 'd greedy \<Rightarrow> hnsw_error + 'd greedy" where
  "greedy_down check h query_data bottom level g =
     (if bottom < level
      then bindE (greedy_while check h query_data level g) (greedy_down check h query_data bottom (level - 1))
      else Inr g)"

declare greedy_down.simps [simp del]

subsection \<open>Queries\<close>

text \<open>The common first half of the two query operations, on an index that is not empty.\<close>

definition descend_to_base :: "'d::linordered_ab_group_add hnsw \<Rightarrow> byte list \<Rightarrow> hnsw_error + 'd greedy \<times> 'd hnsw" where
  "descend_to_base h query_data =
     bindE (elem_at h (enterpoint_node h)) (\<lambda>e.
     bindE (greedy_down True h query_data 0 (nat (maxlevel h))
              \<lparr>g_obj = enterpoint_node h, g_dist = hn_fstdistfunc h query_data (e_data e), g_hops = 0, g_comps = 0\<rparr>) (\<lambda>g.
     Inr (g, h\<lparr>metric_hops := metric_hops h + g_hops g,
               metric_distance_computations := metric_distance_computations h + g_comps g\<rparr>)))"

definition label_result ::
    "'d::linordered_ab_group_add hnsw \<Rightarrow> ('d \<times> labeltype) list \<Rightarrow> 'd \<times> tableint \<Rightarrow> hnsw_error + ('d \<times> labeltype) list" where
  "label_result h result rez =
     bindE (getExternalLabel h (snd rez)) (\<lambda>label. Inr (pq_push pair_less (fst rez, label) result))"

definition searchKnn ::
    "'d::linordered_ab_group_add hnsw_env \<Rightarrow> 'd hnsw \<Rightarrow> byte list \<Rightarrow> nat \<Rightarrow> filter_functor
      \<Rightarrow> hnsw_error + ('d \<times> labeltype) list \<times> 'd hnsw" where
  "searchKnn env h query_data k isIdAllowed =
     (if cur_element_count h = 0 then Inr ([], h)
      else bindE (descend_to_base h query_data) (\<lambda>(g, h).
        let bare_bone_search = (num_deleted h = 0 \<and> isIdAllowed = None) in
        bindE (searchBaseLayerST env bare_bone_search False h (g_obj g) query_data (max (hnEf h) k) isIdAllowed None ())
          (\<lambda>(top_candidates, _, h).
        let top_candidates = pq_trim CompareByFirst k top_candidates in
        bindE (foldE (label_result h) [] (pq_drain CompareByFirst top_candidates)) (\<lambda>result. Inr (result, h)))))"

text \<open>
  \<open>searchStopConditionClosest\<close> copies the pairs of the queue into the result, whose second
  components are labels by their type.
\<close>

definition searchStopConditionClosest ::
    "'d::linordered_ab_group_add hnsw_env \<Rightarrow> 'd hnsw \<Rightarrow> byte list \<Rightarrow> ('s, 'd) stop_condition \<Rightarrow> 's \<Rightarrow> filter_functor
      \<Rightarrow> hnsw_error + ('d \<times> labeltype) list \<times> 's \<times> 'd hnsw" where
  "searchStopConditionClosest env h query_data stop stop_state isIdAllowed =
     (if cur_element_count h = 0 then Inr ([], stop_state, h)
      else bindE (descend_to_base h query_data) (\<lambda>(g, h).
        bindE (searchBaseLayerST env False False h (g_obj g) query_data 0 isIdAllowed (Some stop) stop_state)
          (\<lambda>(top_candidates, stop_state, h).
        let sz = length top_candidates;
            result = fill_back CompareByFirst sz top_candidates (replicate sz (0, 0))
        in (case filter_results stop stop_state result of
              None \<Rightarrow> Inl Empty_container
            | Some (stop_state, result) \<Rightarrow> Inr (result, stop_state, h)))))"

end
