(* ===== verification/Hnsw_Search_Correct.thy ===== *)
theory Hnsw_Search_Correct
  imports Hnsw_Search
begin

text \<open>
  What the searches of \<open>Hnsw_Search\<close> return. The best-first search is studied without a stop condition; then
  its steps are pure functions, and one invariant carries all results: the queues hold true distances of
  tagged nodes, at most \<open>ef\<close> of them in the result.
\<close>

subsection \<open>One step as a function\<close>

definition st_taken ::
    "nat \<Rightarrow> bool \<Rightarrow> ('d::linordered_ab_group_add, 'z) layer_search_scheme \<Rightarrow> tableint \<Rightarrow> 'd \<Rightarrow> ('d, 'z) layer_search_scheme" where
  "st_taken ef adm s i d =
     (let top = pq_trim CompareByFirst ef (if adm then pq_push CompareByFirst (d, i) (ls_top s) else ls_top s)
      in s\<lparr>ls_cand := pq_push CompareByFirst (- d, i) (ls_cand s), ls_top := top,
           ls_lb := if top \<noteq> [] then fst (pq_top top) else ls_lb s\<rparr>)"

definition st_visited ::
    "'d::linordered_ab_group_add hnsw \<Rightarrow> byte list \<Rightarrow> nat \<Rightarrow> bool \<Rightarrow> filter_functor
      \<Rightarrow> ('d, 'z) layer_search_scheme \<Rightarrow> tableint \<Rightarrow> ('d, 'z) layer_search_scheme" where
  "st_visited h q ef bare f s i =
     (if is_visited (ls_vl s) i then s
      else let s' = s\<lparr>ls_vl := mark_visited i (ls_vl s)\<rparr>; d = elem_dist h q i
           in if length (ls_top s) < ef \<or> d < ls_lb s
              then st_taken ef (admits bare f (data_level0 h ! i)) s' i d else s')"

lemma st_remove_extra_None:
  "st_remove_extra h ef None d s = Inr (s\<lparr>ls_top := pq_trim CompareByFirst ef (ls_top s)\<rparr>)"
proof (induction "length (ls_top s)" arbitrary: s rule: less_induct)
  case less
  show ?case
  proof (cases "ef < length (ls_top s)")
    case True
    then have "ls_top s \<noteq> []" by auto
    with True less show ?thesis
      by (subst st_remove_extra.simps) (simp add: Let_def heap_simps pq_trim.simps [of _ ef "ls_top s"])
  next
    case False
    then show ?thesis by (subst st_remove_extra.simps) (simp add: pq_trim.simps)
  qed
qed

lemma st_take_pure:
  assumes "active_stop bare stop = None"
  shows "st_take h ef bare f stop s i e d = Inr (st_taken ef (admits bare f e) s i d)"
  by (simp add: st_take_def assms st_remove_extra_None st_taken_def Let_def)

lemma st_visit_pure:
  assumes "links_wf h" and "active_stop bare stop = None" and "i < cur_element_count h"
    and "i < length (mass (ls_vl s))"
  shows "st_visit h q ef bare f stop s i = Inr (st_visited h q ef bare f s i)"
  using assms by (simp add: st_visit_def st_visited_def elem_at_ok Let_def st_take_pure elem_dist_def)

subsection \<open>The invariant\<close>

definition st_inv ::
    "'d::linordered_ab_group_add hnsw \<Rightarrow> byte list \<Rightarrow> nat \<Rightarrow> bool \<Rightarrow> filter_functor \<Rightarrow> ('d, 'z) layer_search_scheme \<Rightarrow> bool" where
  "st_inv h q ef bare f s \<longleftrightarrow>
     vl_ok (max_elements h) (ls_vl s) \<and> is_heap CompareByFirst (ls_top s) \<and> is_heap CompareByFirst (ls_cand s)
     \<and> distinct (map snd (ls_top s)) \<and> length (ls_top s) \<le> max 1 ef
     \<and> (\<forall>p\<in>set (ls_top s). snd p < cur_element_count h \<and> fst p = elem_dist h q (snd p)
          \<and> admits bare f (data_level0 h ! snd p) \<and> is_visited (ls_vl s) (snd p))
     \<and> (\<forall>p\<in>set (ls_cand s). snd p < cur_element_count h \<and> is_visited (ls_vl s) (snd p))
     \<and> (ls_top s \<noteq> [] \<longrightarrow> ls_lb s = fst (pq_top (ls_top s)))"

lemma mset_pq_trim_subset: "mset (pq_trim lt k q) \<subseteq># mset q"
proof (induction lt k q rule: pq_trim.induct)
  case (1 lt k q)
  show ?case
  proof (cases "k < length q")
    case True
    then have "q \<noteq> []" by auto
    from 1 [OF True] mset_pq_pop [OF this, of lt] True show ?thesis
      by (simp add: pq_trim.simps [of lt k q]) (metis diff_subset_eq_self subset_mset.order_trans)
  qed (simp add: pq_trim.simps)
qed

lemma pq_trim_sub: "set (pq_trim lt k q) \<subseteq> set q"
  using set_mset_mono [OF mset_pq_trim_subset [of lt k q]] by simp

lemma pq_trim_distinct:
  assumes "distinct (map snd q)"
  shows "distinct (map snd (pq_trim lt k q))"
proof -
  have "image_mset snd (mset (pq_trim lt k q)) \<subseteq># image_mset snd (mset q)"
    by (rule image_mset_subseteq_mono [OF mset_pq_trim_subset])
  moreover have "\<forall>a. count (image_mset snd (mset q)) a \<le> 1"
    using assms by (metis distinct_count_atmost_1 le_numeral_extra(4) less_one linorder_not_le mset_map nle_le)
  ultimately have "\<forall>a. count (mset (map snd (pq_trim lt k q))) a \<le> 1"
    by (metis dual_order.trans mset_map mset_subset_eq_count)
  then show ?thesis
    by (metis count_mset_0_iff distinct_count_atmost_1 le_Suc_eq le_zero_eq One_nat_def)
qed

lemma distinct_snd_push:
  "distinct (map snd (pq_push lt p q)) \<longleftrightarrow> snd p \<notin> snd ` set q \<and> distinct (map snd q)"
proof -
  have "mset (map snd (pq_push lt p q)) = mset (map snd (p # q))" by (simp add: heap_simps)
  then have "distinct (map snd (pq_push lt p q)) \<longleftrightarrow> distinct (map snd (p # q))"
    by (rule mset_eq_imp_distinct_iff)
  then show ?thesis by simp
qed

lemma vl_mark:
  assumes "vl_ok n vl" and "j < n"
  shows "is_visited (mark_visited i vl) j \<longleftrightarrow> j = i \<or> is_visited vl j"
  using assms is_visited_mark [of j vl i] by (simp add: vl_ok_def)

text \<open>Tagging a node and putting it into the queues.\<close>

lemma st_inv_mark:
  assumes wf: "links_wf h" and inv: "st_inv h q ef bare f s"
  shows "st_inv h q ef bare f (s\<lparr>ls_vl := mark_visited i (ls_vl s)\<rparr>)"
proof -
  have vl: "vl_ok (max_elements h) (ls_vl s)" using inv by (simp add: st_inv_def)
  have "is_visited (mark_visited i (ls_vl s)) j" if "j < cur_element_count h" "is_visited (ls_vl s) j" for j
    using vl_mark [OF vl, of j i] that wf by (auto simp: links_wf_def)
  then show ?thesis using inv mark_visited_ok [OF vl] by (auto simp: st_inv_def)
qed

lemma st_inv_taken:
  assumes inv: "st_inv h q ef bare f s" and i: "i < cur_element_count h" "is_visited (ls_vl s) i"
    and new: "i \<notin> snd ` set (ls_top s)" and adm: "adm = admits bare f (data_level0 h ! i)"
    and d: "d = elem_dist h q i"
  shows "st_inv h q ef bare f (st_taken ef adm s i d)"
proof -
  define top0 where "top0 = (if adm then pq_push CompareByFirst (d, i) (ls_top s) else ls_top s)"
  define top1 where "top1 = pq_trim CompareByFirst ef top0"
  have t: "st_taken ef adm s i d = s\<lparr>ls_cand := pq_push CompareByFirst (- d, i) (ls_cand s), ls_top := top1,
      ls_lb := if top1 \<noteq> [] then fst (pq_top top1) else ls_lb s\<rparr>"
    by (simp add: st_taken_def Let_def top0_def top1_def)
  have "is_heap CompareByFirst top0 \<and> distinct (map snd top0)"
    using inv new by (auto simp: top0_def st_inv_def by_first.heap_pq_push distinct_snd_push)
  then have "is_heap CompareByFirst top1 \<and> distinct (map snd top1)"
    unfolding top1_def by (simp add: by_first.heap_pq_trim pq_trim_distinct)
  moreover have "set top0 \<subseteq> insert (d, i) (set (ls_top s)) \<and> ((d, i) \<in> set top0 \<longrightarrow> adm \<or> (d, i) \<in> set (ls_top s))"
    by (auto simp: top0_def set_pq_push)
  then have "\<forall>p\<in>set top1. p \<in> set (ls_top s) \<or> (p = (d, i) \<and> adm)"
    using pq_trim_sub [of CompareByFirst ef top0] by (auto simp: top1_def)
  moreover have "length top1 \<le> max 1 ef" by (simp add: top1_def heap_simps)
  ultimately show ?thesis
    using inv i adm d unfolding t st_inv_def by (auto simp: by_first.heap_pq_push set_pq_push)
qed

lemma st_visited_inv:
  assumes wf: "links_wf h" and inv: "st_inv h q ef bare f s" and i: "i < cur_element_count h"
  shows "st_inv h q ef bare f (st_visited h q ef bare f s i)"
proof (cases "is_visited (ls_vl s) i")
  case False
  let ?s = "s\<lparr>ls_vl := mark_visited i (ls_vl s)\<rparr>"
  have inv': "st_inv h q ef bare f ?s" by (rule st_inv_mark [OF wf inv])
  have vl: "vl_ok (max_elements h) (ls_vl s)" using inv by (simp add: st_inv_def)
  have "is_visited (ls_vl ?s) i" using vl_mark [OF vl, of i i] i wf by (simp add: links_wf_def)
  moreover have "i \<notin> snd ` set (ls_top ?s)" using inv False by (auto simp: st_inv_def)
  ultimately have "st_inv h q ef bare f (st_taken ef (admits bare f (data_level0 h ! i)) ?s i (elem_dist h q i))"
    using st_inv_taken [OF inv' i] by simp
  then show ?thesis using inv' False by (simp add: st_visited_def Let_def)
qed (simp add: st_visited_def inv)

text \<open>What a step does to the tags.\<close>

lemma st_visited_vl:
  "ls_vl (st_visited h q ef bare f s i) = (if is_visited (ls_vl s) i then ls_vl s else mark_visited i (ls_vl s))"
  by (simp add: st_visited_def st_taken_def Let_def)

lemma st_visit_fold:
  assumes wf: "links_wf h" and act: "active_stop bare stop = None" and inv: "st_inv h q ef bare f s"
    and ids: "\<forall>i\<in>set ids. i < cur_element_count h"
  shows "foldE (st_visit h q ef bare f stop) s ids = Inr (foldl (st_visited h q ef bare f) s ids)
    \<and> st_inv h q ef bare f (foldl (st_visited h q ef bare f) s ids)"
  using inv ids
proof (induction ids arbitrary: s)
  case (Cons i ids)
  have "length (mass (ls_vl s)) = max_elements h" using Cons.prems(1) by (simp add: st_inv_def vl_ok_def)
  then have "st_visit h q ef bare f stop s i = Inr (st_visited h q ef bare f s i)"
    using Cons.prems(2) wf by (intro st_visit_pure [OF wf act]) (auto simp: links_wf_def)
  then show ?case using Cons st_visited_inv [OF wf Cons.prems(1), of i] by simp
qed simp

text \<open>The loop returns, and keeps the invariant.\<close>

lemma get_linklist0_at: "get_linklist0 h i = get_linklist_at_level h i 0"
  by (simp add: get_linklist_at_level_def)

lemma st_inv_pop:
  assumes "st_inv h q ef bare f s" and "ls_cand s \<noteq> []"
  shows "st_inv h q ef bare f (s\<lparr>ls_cand := pq_pop CompareByFirst (ls_cand s)\<rparr>)"
proof -
  have "set (pq_pop CompareByFirst (ls_cand s)) \<subseteq> set (ls_cand s)"
    using mset_pq_pop [OF assms(2), of CompareByFirst] by (metis in_diffD set_mset_mset subsetI)
  then show ?thesis using assms by (auto simp: st_inv_def by_first.heap_pq_pop)
qed

lemma st_inv_metrics: "st_inv h q ef bare f (s\<lparr>ls_hops := n, ls_comps := m\<rparr>) = st_inv h q ef bare f s"
  by (simp add: st_inv_def)

subsection \<open>The loop\<close>

text \<open>One iteration: take the closest candidate and visit its neighbours.\<close>

definition st_popped :: "'d::linordered_ab_group_add hnsw \<Rightarrow> bool \<Rightarrow> ('d, 's) st_search \<Rightarrow> ('d, 's) st_search" where
  "st_popped h metrics s =
     (let s' = s\<lparr>ls_cand := pq_pop CompareByFirst (ls_cand s)\<rparr>
      in if metrics then s'\<lparr>ls_hops := ls_hops s + 1,
           ls_comps := ls_comps s + length (nbrs h (snd (pq_top (ls_cand s))) 0)\<rparr> else s')"

definition st_iter ::
    "'d::linordered_ab_group_add hnsw \<Rightarrow> byte list \<Rightarrow> nat \<Rightarrow> bool \<Rightarrow> bool \<Rightarrow> filter_functor \<Rightarrow> ('d, 's) st_search \<Rightarrow> ('d, 's) st_search" where
  "st_iter h q ef bare metrics f s =
     foldl (st_visited h q ef bare f) (st_popped h metrics s) (nbrs h (snd (pq_top (ls_cand s))) 0)"

lemma st_top_cand:
  assumes "st_inv h q ef bare f s" and "ls_cand s \<noteq> []"
  shows "snd (pq_top (ls_cand s)) < cur_element_count h" and "pq_top (ls_cand s) \<in> set (ls_cand s)"
  using by_first.std.top_in [OF assms(2)] assms(1) by (auto simp: st_inv_def)

lemma st_popped_inv:
  "st_inv h q ef bare f s \<Longrightarrow> ls_cand s \<noteq> [] \<Longrightarrow> st_inv h q ef bare f (st_popped h metrics s)"
  using st_inv_pop [of h q ef bare f s] by (simp add: st_popped_def Let_def st_inv_metrics)

lemma st_loop_unfold:
  assumes wf: "links_wf h" and act: "active_stop bare stop = None" and inv: "st_inv h q ef bare f s"
  shows "st_loop h q ef bare metrics f stop s =
    (if ls_cand s = [] \<or> st_stops ef bare stop s (- fst (pq_top (ls_cand s))) then Inr s
     else st_loop h q ef bare metrics f stop (st_iter h q ef bare metrics f s))"
    and "ls_cand s \<noteq> [] \<Longrightarrow> st_inv h q ef bare f (st_iter h q ef bare metrics f s)"
proof -
  have fold: "foldE (st_visit h q ef bare f stop) (st_popped h metrics s) (nbrs h (snd (pq_top (ls_cand s))) 0)
      = Inr (st_iter h q ef bare metrics f s) \<and> st_inv h q ef bare f (st_iter h q ef bare metrics f s)"
    if "ls_cand s \<noteq> []"
    unfolding st_iter_def
    using st_visit_fold [OF wf act st_popped_inv [OF inv that]] nbrs_ok(3) [OF wf st_top_cand(1) [OF inv that], of 0]
    by simp
  then show "ls_cand s \<noteq> [] \<Longrightarrow> st_inv h q ef bare f (st_iter h q ef bare metrics f s)" by blast
  show "st_loop h q ef bare metrics f stop s =
    (if ls_cand s = [] \<or> st_stops ef bare stop s (- fst (pq_top (ls_cand s))) then Inr s
     else st_loop h q ef bare metrics f stop (st_iter h q ef bare metrics f s))"
  proof (cases "ls_cand s = [] \<or> st_stops ef bare stop s (- fst (pq_top (ls_cand s)))")
    case True
    then show ?thesis by (subst st_loop.simps) (auto simp: Let_def)
  next
    case False
    let ?i = "snd (pq_top (ls_cand s))"
    have ids: "bindE (get_linklist0 h ?i) link_ids = Inr (nbrs h ?i 0)"
      using getConnections_ok [OF wf st_top_cand(1) [OF inv], of 0] False
      by (simp add: getConnectionsWithLock_def get_linklist0_at)
    have "st_loop h q ef bare metrics f stop s =
      bindE (foldE (st_visit h q ef bare f stop) (st_popped h metrics s) (nbrs h ?i 0)) (st_loop h q ef bare metrics f stop)"
      using False by (subst st_loop.simps) (simp add: Let_def ids st_popped_def)
    then show ?thesis using fold False by simp
  qed
qed

lemma search_work_st_visited:
  assumes "i < length (mass (ls_vl s))"
  shows "search_work (st_visited h q ef bare f s i) \<le> search_work s"
proof (cases "is_visited (ls_vl s) i")
  case False
  then show ?thesis
    using search_work_mark [OF assms False]
    by (simp add: search_work_def st_visited_def st_taken_def Let_def heap_simps)
qed (simp add: st_visited_def)

lemma search_work_iter:
  assumes wf: "links_wf h" and inv: "st_inv h q ef bare f s" and c: "ls_cand s \<noteq> []"
  shows "search_work (st_iter h q ef bare metrics f s) < search_work s"
proof -
  let ?s = "st_popped h metrics s"
  have "search_work (foldl (st_visited h q ef bare f) t ids) \<le> search_work t"
    if "st_inv h q ef bare f t" "\<forall>i\<in>set ids. i < cur_element_count h" for t :: "('a, 'b) st_search" and ids
    using that
  proof (induction ids arbitrary: t)
    case (Cons i ids)
    have "i < length (mass (ls_vl t))"
      using Cons.prems wf by (auto simp: st_inv_def vl_ok_def links_wf_def)
    then show ?case
      using Cons.IH [of "st_visited h q ef bare f t i"] Cons.prems st_visited_inv [OF wf Cons.prems(1), of i]
        search_work_st_visited [of i t h q ef bare f] by simp
  qed simp
  then have "search_work (st_iter h q ef bare metrics f s) \<le> search_work ?s"
    unfolding st_iter_def using st_popped_inv [OF inv c] nbrs_ok(3) [OF wf st_top_cand(1) [OF inv c], of 0] by simp
  also have "\<dots> < search_work s"
    using search_work_pop [OF c] by (simp add: st_popped_def Let_def search_work_def)
  finally show ?thesis .
qed

text \<open>
  The rule for the loop: it returns, at a state where it may stop, and whatever every iteration keeps holds there.
\<close>

lemma st_loop_rule:
  assumes wf: "links_wf h" and act: "active_stop bare stop = None" and inv: "st_inv h q ef bare f s" and P: "P s"
    and step: "\<And>s. st_inv h q ef bare f s \<Longrightarrow> P s \<Longrightarrow> ls_cand s \<noteq> []
      \<Longrightarrow> \<not> st_stops ef bare stop s (- fst (pq_top (ls_cand s))) \<Longrightarrow> P (st_iter h q ef bare metrics f s)"
  shows "\<exists>s'. st_loop h q ef bare metrics f stop s = Inr s' \<and> st_inv h q ef bare f s' \<and> P s'
    \<and> (ls_cand s' = [] \<or> st_stops ef bare stop s' (- fst (pq_top (ls_cand s'))))"
  using inv P
proof (induction "search_work s" arbitrary: s rule: less_induct)
  case less
  note unf = st_loop_unfold [OF wf act less.prems(1), of metrics]
  show ?case
  proof (cases "ls_cand s = [] \<or> st_stops ef bare stop s (- fst (pq_top (ls_cand s)))")
    case True
    then show ?thesis using unf(1) less.prems by auto
  next
    case False
    then have c: "ls_cand s \<noteq> []" by blast
    have "P (st_iter h q ef bare metrics f s)" using step [OF less.prems c] False by blast
    with less.hyps [OF search_work_iter [OF wf less.prems(1) c] unf(2) [OF c]] False unf(1) show ?thesis by simp
  qed
qed

subsection \<open>The search from an entry point\<close>

lemma pq_push_Nil [simp]: "pq_push lt v [] = [v]"
  by (simp add: pq_push_def sift_up.simps)

definition st_start ::
    "'d::linordered_ab_group_add hnsw_env \<Rightarrow> 'd hnsw \<Rightarrow> byte list \<Rightarrow> bool \<Rightarrow> filter_functor \<Rightarrow> tableint \<Rightarrow> visited_list \<Rightarrow> 's
      \<Rightarrow> ('d, 's) st_search" where
  "st_start env h q bare f ep vl st =
     (let adm = admits bare f (data_level0 h ! ep); d = (if adm then elem_dist h q ep else dmax env)
      in \<lparr>ls_vl = mark_visited ep vl, ls_top = (if adm then [(d, ep)] else []), ls_cand = [(- d, ep)],
          ls_lb = d, ls_stop = st, ls_hops = 0, ls_comps = 0\<rparr>)"

lemma st_start_inv:
  assumes wf: "links_wf h" and ep: "ep < cur_element_count h" and vl: "vl_ok (max_elements h) vl"
  shows "st_inv h q ef bare f (st_start env h q bare f ep vl st)"
  using vl_mark [OF vl, of ep ep] ep wf mark_visited_ok [OF vl]
  by (auto simp: st_inv_def st_start_def Let_def links_wf_def is_heap_def pq_top_def)

lemma searchBaseLayerST_start:
  assumes wf: "links_wf h" and ep: "ep < cur_element_count h" and act: "active_stop bare stop = None"
    and vl: "getFreeVisitedList (vl_junk env) (vl_pool h) = (vl, vpool)"
  shows "searchBaseLayerST env bare metrics h ep q ef f stop st =
    bindE (st_loop h q ef bare metrics f stop (st_start env h q bare f ep vl st)) (\<lambda>s.
      Inr (ls_top s, ls_stop s, h\<lparr>vl_pool := releaseVisitedList (ls_vl s) vpool, metric_hops := metric_hops h + ls_hops s,
        metric_distance_computations := metric_distance_computations h + ls_comps s\<rparr>))"
proof -
  have "pool_ok (max_elements h) (vl_pool h)" using wf by (simp add: links_wf_def)
  from getFreeVisitedList_ok(2) [OF this vl] have "ep < length (mass vl)"
    using ep wf by (simp add: vl_ok_def links_wf_def)
  then show ?thesis
    using act by (simp add: searchBaseLayerST_def vl elem_at_ok [OF wf ep] st_start_def elem_dist_def Let_def)
qed

text \<open>What a search may change of the index: the pool of visited lists and the metrics.\<close>

definition search_frame :: "'d hnsw \<Rightarrow> 'd hnsw \<Rightarrow> bool" where
  "search_frame h h' \<longleftrightarrow> (\<exists>vp n m. pool_ok (max_elements h) vp
     \<and> h' = h\<lparr>vl_pool := vp, metric_hops := n, metric_distance_computations := m\<rparr>)"

lemma search_frame_links_wf: "search_frame h h' \<Longrightarrow> links_wf h \<Longrightarrow> links_wf h'"
  unfolding search_frame_def by (elim exE conjE, rule links_wf_cong) simp_all

lemma search_frame_hnsw_wf: "search_frame h h' \<Longrightarrow> hnsw_wf h \<Longrightarrow> hnsw_wf h'"
  using search_frame_links_wf [of h h']
  by (auto simp: search_frame_def hnsw_wf_def entry_wf_def labels_wf_def deleted_wf_def deleted_ids_def)

lemma search_frame_trans: "search_frame h h1 \<Longrightarrow> search_frame h1 h2 \<Longrightarrow> search_frame h h2"
  unfolding search_frame_def by fastforce

lemma searchBaseLayerST_rule:
  assumes wf: "links_wf h" and ep: "ep < cur_element_count h" and act: "active_stop bare stop = None"
    and start: "\<And>vl. vl_ok (max_elements h) vl \<Longrightarrow> \<forall>i<max_elements h. \<not> is_visited vl i
      \<Longrightarrow> P (st_start env h q bare f ep vl st)"
    and step: "\<And>s. st_inv h q ef bare f s \<Longrightarrow> P s \<Longrightarrow> ls_cand s \<noteq> []
      \<Longrightarrow> \<not> st_stops ef bare stop s (- fst (pq_top (ls_cand s))) \<Longrightarrow> P (st_iter h q ef bare metrics f s)"
  shows "\<exists>s' h'. searchBaseLayerST env bare metrics h ep q ef f stop st = Inr (ls_top s', ls_stop s', h')
    \<and> search_frame h h' \<and> st_inv h q ef bare f s' \<and> P s'
    \<and> (ls_cand s' = [] \<or> st_stops ef bare stop s' (- fst (pq_top (ls_cand s'))))"
proof -
  obtain vl vpool where vl: "getFreeVisitedList (vl_junk env) (vl_pool h) = (vl, vpool)" by fastforce
  have "pool_ok (max_elements h) (vl_pool h)" using wf by (simp add: links_wf_def)
  note ok = getFreeVisitedList_ok [OF this vl]
  have "\<not> is_visited vl i" if "i < max_elements h" for i
    using bspec [OF ok(3), of "mass vl ! i"] ok(2) that by (auto simp: is_visited_def vl_ok_def)
  then have "P (st_start env h q bare f ep vl st)" using start [OF ok(2)] by blast
  from st_loop_rule [OF wf act st_start_inv [OF wf ep ok(2)] this step]
  obtain s' where s': "st_loop h q ef bare metrics f stop (st_start env h q bare f ep vl st) = Inr s'"
    "st_inv h q ef bare f s'" "P s'" "ls_cand s' = [] \<or> st_stops ef bare stop s' (- fst (pq_top (ls_cand s')))"
    by blast
  moreover have "pool_ok (max_elements h) (releaseVisitedList (ls_vl s') vpool)"
    using releaseVisitedList_ok [OF ok(1)] s'(2) by (simp add: st_inv_def)
  ultimately show ?thesis
    unfolding searchBaseLayerST_start [OF wf ep act vl] search_frame_def by fastforce
qed

subsection \<open>Exact searches\<close>

text \<open>
  With \<open>ef\<close> at least the number of elements nothing is ever dropped, and the search becomes an exhaustive walk.
\<close>

definition base_edges :: "'d hnsw \<Rightarrow> (tableint \<times> tableint) set" where
  "base_edges h = {(i, j). i < cur_element_count h \<and> j \<in> set (nbrs h i 0)}"

definition full_inv where
  "full_inv h q bare f s \<longleftrightarrow>
     (\<forall>i<cur_element_count h. is_visited (ls_vl s) i \<and> admits bare f (data_level0 h ! i) \<longrightarrow> i \<in> snd ` set (ls_top s))
     \<and> (bare \<longrightarrow> (\<forall>p\<in>set (ls_cand s). fst p = - elem_dist h q (snd p)))"

definition closed_but where
  "closed_but h s C \<longleftrightarrow> (\<forall>i<cur_element_count h. is_visited (ls_vl s) i
     \<longrightarrow> i \<in> snd ` set (ls_cand s) \<or> i \<in> C \<or> (\<forall>j\<in>set (nbrs h i 0). is_visited (ls_vl s) j))"

lemma pq_trim_id: "length q \<le> k \<Longrightarrow> pq_trim lt k q = q"
  by (simp add: pq_trim.simps)

lemma st_top_length:
  assumes "st_inv h q ef bare f s" and "i < cur_element_count h" and "\<not> is_visited (ls_vl s) i"
  shows "length (ls_top s) < cur_element_count h"
proof -
  have "snd ` set (ls_top s) \<subseteq> {0..<cur_element_count h} - {i}"
    using assms by (auto simp: st_inv_def)
  then have "card (snd ` set (ls_top s)) \<le> card ({0..<cur_element_count h} - {i})" by (intro card_mono) simp_all
  moreover have "card (snd ` set (ls_top s)) = length (ls_top s)"
    using assms(1) by (metis distinct_card length_map list.set_map st_inv_def)
  ultimately show ?thesis using assms(2) by simp
qed

lemma st_visited_full:
  assumes wf: "links_wf h" and inv: "st_inv h q ef bare f s" and ef: "cur_element_count h \<le> ef"
    and i: "i < cur_element_count h" and full: "full_inv h q bare f s" and cl: "closed_but h s C"
  shows "full_inv h q bare f (st_visited h q ef bare f s i) \<and> closed_but h (st_visited h q ef bare f s i) C
    \<and> is_visited (ls_vl (st_visited h q ef bare f s i)) i
    \<and> (\<forall>j<cur_element_count h. is_visited (ls_vl s) j \<longrightarrow> is_visited (ls_vl (st_visited h q ef bare f s i)) j)"
proof (cases "is_visited (ls_vl s) i")
  case True
  then show ?thesis using full cl by (simp add: st_visited_def)
next
  case False
  let ?d = "elem_dist h q i" and ?adm = "admits bare f (data_level0 h ! i)"
  define t where "t = st_visited h q ef bare f s i"
  have len: "length (ls_top s) < ef" using st_top_length [OF inv i False] ef by simp
  then have top: "set (ls_top t) = (if ?adm then insert (?d, i) (set (ls_top s)) else set (ls_top s))"
    and cand: "set (ls_cand t) = insert (- ?d, i) (set (ls_cand s))"
    and vl_t: "ls_vl t = mark_visited i (ls_vl s)"
    using False len by (simp_all add: t_def st_visited_def st_taken_def Let_def set_pq_push pq_trim_id heap_simps)
  have vl: "vl_ok (max_elements h) (ls_vl s)" using inv by (simp add: st_inv_def)
  have vis: "is_visited (ls_vl t) j \<longleftrightarrow> j = i \<or> is_visited (ls_vl s) j" if "j < cur_element_count h" for j
    using vl_mark [OF vl, of j i] that wf by (simp add: vl_t links_wf_def)
  have "full_inv h q bare f t" using full by (auto simp: full_inv_def top cand vis)
  moreover have "closed_but h t C"
    unfolding closed_but_def
  proof (intro allI impI)
    fix j assume j: "j < cur_element_count h" "is_visited (ls_vl t) j"
    show "j \<in> snd ` set (ls_cand t) \<or> j \<in> C \<or> (\<forall>k\<in>set (nbrs h j 0). is_visited (ls_vl t) k)"
    proof (cases "j = i")
      case True
      then show ?thesis by (simp add: cand)
    next
      case neq: False
      then have "j \<in> snd ` set (ls_cand s) \<or> j \<in> C \<or> (\<forall>k\<in>set (nbrs h j 0). is_visited (ls_vl s) k)"
        using cl j vis by (simp add: closed_but_def)
      moreover have "is_visited (ls_vl t) k" if "k \<in> set (nbrs h j 0)" "is_visited (ls_vl s) k" for k
        using vis nbrs_ok(3) [OF wf j(1) _ that(1)] that(2) by simp
      ultimately show ?thesis by (auto simp: cand)
    qed
  qed
  ultimately show ?thesis using vis i unfolding t_def by auto
qed

lemma st_fold_full:
  assumes wf: "links_wf h" and ef: "cur_element_count h \<le> ef"
    and "st_inv h q ef bare f s" "full_inv h q bare f s" "closed_but h s C" "\<forall>i\<in>set ids. i < cur_element_count h"
    and t: "t = foldl (st_visited h q ef bare f) s ids"
  shows "full_inv h q bare f t \<and> closed_but h t C \<and> (\<forall>i\<in>set ids. is_visited (ls_vl t) i)
    \<and> (\<forall>j<cur_element_count h. is_visited (ls_vl s) j \<longrightarrow> is_visited (ls_vl t) j)"
  unfolding t using assms(3-6)
proof (induction ids arbitrary: s)
  case (Cons i ids)
  let ?s = "st_visited h q ef bare f s i"
  have i: "i < cur_element_count h" and ids: "\<forall>j\<in>set ids. j < cur_element_count h" using Cons.prems(4) by auto
  have step: "full_inv h q bare f ?s \<and> closed_but h ?s C \<and> is_visited (ls_vl ?s) i
    \<and> (\<forall>j<cur_element_count h. is_visited (ls_vl s) j \<longrightarrow> is_visited (ls_vl ?s) j)"
    by (rule st_visited_full [OF wf Cons.prems(1) ef i Cons.prems(2,3)])
  then show ?case
    using Cons.IH [OF st_visited_inv [OF wf Cons.prems(1) i] _ _ ids] i by auto
qed simp

lemma st_iter_full:
  assumes wf: "links_wf h" and ef: "cur_element_count h \<le> ef" and inv: "st_inv h q ef bare f s"
    and c: "ls_cand s \<noteq> []" and full: "full_inv h q bare f s" and cl: "closed_but h s {}" and ep: "is_visited (ls_vl s) ep" "ep < cur_element_count h"
    and t: "t = st_iter h q ef bare metrics f s"
  shows "full_inv h q bare f t \<and> closed_but h t {} \<and> is_visited (ls_vl t) ep"
proof -
  let ?i = "snd (pq_top (ls_cand s))" and ?s = "st_popped h metrics s"
  have "mset (ls_cand s) = add_mset (pq_top (ls_cand s)) (mset (ls_cand ?s))"
    using by_first.std.top_in [OF c] by (simp add: st_popped_def Let_def mset_pq_pop [OF c])
  then have set: "set (ls_cand s) = insert (pq_top (ls_cand s)) (set (ls_cand ?s))"
    by (metis set_mset_add_mset_insert set_mset_mset)
  have same: "ls_vl ?s = ls_vl s" "ls_top ?s = ls_top s" by (simp_all add: st_popped_def Let_def)
  have pre: "full_inv h q bare f ?s" "closed_but h ?s {?i}"
    using full cl by (auto simp: full_inv_def closed_but_def same set)
  have nb: "\<forall>j\<in>set (nbrs h ?i 0). j < cur_element_count h"
    using nbrs_ok(3) [OF wf st_top_cand(1) [OF inv c], of 0] by simp
  from st_fold_full [OF wf ef st_popped_inv [OF inv c] pre nb t [unfolded st_iter_def]]
  show ?thesis using ep by (auto simp: closed_but_def same)
qed

text \<open>When the loop has stopped, everything reachable from a tagged node is tagged.\<close>

lemma st_stop_complete:
  assumes wf: "links_wf h" and ef: "cur_element_count h \<le> ef" and inv: "st_inv h q ef bare f s"
    and full: "full_inv h q bare f s" and cl: "closed_but h s {}"
    and stop: "ls_cand s = [] \<or> st_stops ef bare None s (- fst (pq_top (ls_cand s)))"
    and ep: "ep < cur_element_count h" "is_visited (ls_vl s) ep" and reach: "(ep, i) \<in> (base_edges h)\<^sup>*"
  shows "i < cur_element_count h \<and> is_visited (ls_vl s) i"
proof (cases "ls_cand s = []")
  case True
  from reach show ?thesis
  proof (induction rule: rtrancl_induct)
    case (step j k)
    then have "k \<in> set (nbrs h j 0)" "j < cur_element_count h" by (simp_all add: base_edges_def)
    then show ?case using step.IH cl nbrs_ok(3) [OF wf, of j 0 k] True by (auto simp: closed_but_def)
  qed (simp add: ep)
next
  case c: False
  have lt: "i < cur_element_count h" using reach
  proof (induction rule: rtrancl_induct)
    case (step j k)
    then show ?case using nbrs_ok(3) [OF wf, of j 0 k] by (simp add: base_edges_def)
  qed (simp add: ep)
  have "\<not> bare"
  proof
    assume bare: bare
    let ?p = "pq_top (ls_cand s)"
    have p: "snd ?p < cur_element_count h" "?p \<in> set (ls_cand s)" using st_top_cand [OF inv c] by blast+
    then have "fst ?p = - elem_dist h q (snd ?p)" "is_visited (ls_vl s) (snd ?p)"
      using full inv bare by (auto simp: full_inv_def st_inv_def)
    moreover then obtain r where r: "r \<in> set (ls_top s)" "snd r = snd ?p"
      using full bare p(1) by (auto simp: full_inv_def admits_def)
    then have "fst r = elem_dist h q (snd ?p)" using inv by (simp add: st_inv_def)
    moreover have "\<not> CompareByFirst (pq_top (ls_top s)) r"
      using by_first.std.top_max [of "ls_top s" r] inv r(1) by (simp add: st_inv_def)
    moreover have "ls_lb s = fst (pq_top (ls_top s))" using inv r(1) by (auto simp: st_inv_def)
    ultimately show False using stop c bare by (simp add: st_stops_def CompareByFirst_def)
  qed
  with stop c have "length (ls_top s) = ef" by (simp add: st_stops_def)
  then show ?thesis using st_top_length [OF inv lt] ef lt by fastforce
qed

text \<open>The two statements the query operations rest on.\<close>

lemma searchBaseLayerST_sound:
  assumes wf: "links_wf h" and ep: "ep < cur_element_count h" and act: "active_stop bare stop = None"
  shows "\<exists>top st' h'. searchBaseLayerST env bare metrics h ep q ef f stop st = Inr (top, st', h') \<and> search_frame h h'
    \<and> is_heap CompareByFirst top \<and> distinct (map snd top) \<and> length top \<le> max 1 ef
    \<and> (\<forall>p\<in>set top. snd p < cur_element_count h \<and> fst p = elem_dist h q (snd p) \<and> admits bare f (data_level0 h ! snd p))"
proof -
  from searchBaseLayerST_rule [OF wf ep act, where P = "\<lambda>_. True"]
  obtain s' :: "('a, 'b) st_search" and h' where "searchBaseLayerST env bare metrics h ep q ef f stop st = Inr (ls_top s', ls_stop s', h')"
    "search_frame h h'" "st_inv h q ef bare f s'" by blast
  then show ?thesis by (auto simp: st_inv_def)
qed

definition base_connected :: "'d hnsw \<Rightarrow> bool" where
  "base_connected h \<longleftrightarrow> (\<forall>i<cur_element_count h. \<forall>j<cur_element_count h. (i, j) \<in> (base_edges h)\<^sup>*)"

definition admitted_pairs :: "'d hnsw \<Rightarrow> byte list \<Rightarrow> bool \<Rightarrow> filter_functor \<Rightarrow> ('d \<times> tableint) list" where
  "admitted_pairs h q bare f =
     map (\<lambda>i. (elem_dist h q i, i)) (filter (\<lambda>i. admits bare f (data_level0 h ! i)) [0..<cur_element_count h])"

lemma searchBaseLayerST_exact:
  assumes wf: "links_wf h" and ep: "ep < cur_element_count h" and act: "active_stop bare stop = None"
    and ef: "cur_element_count h \<le> ef" and conn: "base_connected h"
  shows "\<exists>top st' h'. searchBaseLayerST env bare metrics h ep q ef f stop st = Inr (top, st', h') \<and> search_frame h h'
    \<and> is_heap CompareByFirst top \<and> mset top = mset (admitted_pairs h q bare f)"
proof -
  let ?P = "\<lambda>s. full_inv h q bare f s \<and> closed_but h s {} \<and> is_visited (ls_vl s) ep"
  have start: "?P (st_start env h q bare f ep vl st)"
    if vl: "vl_ok (max_elements h) vl" and fresh: "\<forall>i<max_elements h. \<not> is_visited vl i" for vl
  proof -
    have "is_visited (mark_visited ep vl) j \<longleftrightarrow> j = ep" if "j < cur_element_count h" for j
      using vl_mark [OF vl, of j ep] fresh that wf by (simp add: links_wf_def)
    then show ?thesis
      using ep by (auto simp: full_inv_def closed_but_def st_start_def Let_def admits_def)
  qed
  from searchBaseLayerST_rule [OF wf ep act, where P = ?P, OF start st_iter_full [OF wf ef _ _ _ _ _ ep refl]]
  obtain s' h' where s': "searchBaseLayerST env bare metrics h ep q ef f stop st = Inr (ls_top s', ls_stop s', h')"
    "search_frame h h'" "st_inv h q ef bare f s'" "full_inv h q bare f s'" "closed_but h s' {}" "is_visited (ls_vl s') ep"
    "ls_cand s' = [] \<or> st_stops ef bare stop s' (- fst (pq_top (ls_cand s')))"
    by blast
  have stop: "ls_cand s' = [] \<or> st_stops ef bare None s' (- fst (pq_top (ls_cand s')))"
    using s'(7) act by (auto simp: st_stops_def active_stop_def split: if_splits)
  have "is_visited (ls_vl s') i" if "i < cur_element_count h" for i
    using st_stop_complete [OF wf ef s'(3,4,5) stop ep s'(6)] conn ep that unfolding base_connected_def by blast
  then have ids: "snd ` set (ls_top s') = {i. i < cur_element_count h \<and> admits bare f (data_level0 h ! i)}"
    using s'(3,4) by (auto simp: st_inv_def full_inv_def)
  have pair: "p = (elem_dist h q (snd p), snd p)" if "p \<in> set (ls_top s')" for p
    using s'(3) that by (auto simp: st_inv_def prod_eq_iff)
  then have "set (ls_top s') = (\<lambda>i. (elem_dist h q i, i)) ` snd ` set (ls_top s')"
    unfolding image_image by (metis (no_types, lifting) image_cong image_ident)
  then have "set (ls_top s') = set (admitted_pairs h q bare f)"
    unfolding ids by (simp add: admitted_pairs_def)
  moreover have "distinct (ls_top s')" using s'(3) by (simp add: st_inv_def distinct_map)
  moreover have "distinct (admitted_pairs h q bare f)" by (simp add: admitted_pairs_def distinct_map inj_on_def)
  ultimately have "mset (ls_top s') = mset (admitted_pairs h q bare f)" by (simp add: set_eq_iff_mset_eq_distinct)
  then show ?thesis using s' by (auto simp: st_inv_def)
qed

subsection \<open>Greedy descent\<close>

lemma greedy_visit_total:
  assumes wf: "links_wf h" and ids: "\<forall>i\<in>set ids. i < cur_element_count h"
  shows "\<exists>gc'. foldE (greedy_visit check h q) gc ids = Inr gc'"
proof -
  have "\<exists>t'. greedy_visit check h q t i = Inr t' \<and> True" if "i \<in> set ids" for i and t :: "'a greedy \<times> bool"
  proof -
    have "i < cur_element_count h" "\<not> max_elements h < i" using that ids wf by (auto simp: links_wf_def)
    then show ?thesis by (simp add: greedy_visit_def elem_at_ok [OF wf] Let_def)
  qed
  then have "\<exists>gc'. foldE (greedy_visit check h q) gc ids = Inr gc' \<and> True"
    by (intro foldE_total [of "\<lambda>_. True"]) simp_all
  then show ?thesis by blast
qed

definition greedy_at :: "'d hnsw \<Rightarrow> byte list \<Rightarrow> nat \<Rightarrow> 'd greedy \<Rightarrow> bool" where
  "greedy_at h q level g \<longleftrightarrow> g_obj g < cur_element_count h \<and> level \<le> lvl h (g_obj g) \<and> g_dist g = elem_dist h q (g_obj g)"

lemma greedy_while_ok:
  assumes wf: "links_wf h" and "greedy_at h q level g"
  shows "\<exists>g'. greedy_while check h q level g = Inr g' \<and> greedy_at h q level g' \<and> g_dist g' \<le> g_dist g
    \<and> (\<forall>j\<in>set (nbrs h (g_obj g') level). g_dist g' \<le> elem_dist h q j)"
  using assms(2)
proof (induction "card {i. i < length (data_level0 h) \<and> elem_dist h q i < g_dist g}" arbitrary: g rule: less_induct)
  case less
  let ?ids = "nbrs h (g_obj g) level"
  let ?g = "g\<lparr>g_hops := g_hops g + 1, g_comps := g_comps g + length ?ids\<rparr>"
  have at: "g_obj g < cur_element_count h" "level \<le> lvl h (g_obj g)" "g_dist g = elem_dist h q (g_obj g)"
    using less.prems by (simp_all add: greedy_at_def)
  note nb = nbrs_ok(3) [OF wf at(1,2)]
  obtain g1 changed where fold: "foldE (greedy_visit check h q) (?g, False) ?ids = Inr (g1, changed)"
    using greedy_visit_total [OF wf, of ?ids check q "(?g, False)"] nb by fastforce
  note res = greedy_visit_fold [OF fold]
  have run: "greedy_while check h q level g = (if changed then greedy_while check h q level g1 else Inr g1)"
    using getConnections_ok [OF wf at(1,2)] fold
    by (subst greedy_while.simps) (simp add: getConnectionsWithLock_def)
  show ?case
  proof (cases changed)
    case True
    then have g1: "g_dist g1 < g_dist g" "g_obj g1 \<in> set ?ids" "g_dist g1 = elem_dist h q (g_obj g1)"
      "g_obj g1 < length (data_level0 h)" using res by auto
    let ?S = "\<lambda>d. {i. i < length (data_level0 h) \<and> elem_dist h q i < d}"
    have "?S (g_dist g1) \<subset> ?S (g_dist g)" using g1 by (force simp: psubset_eq)
    then have "card (?S (g_dist g1)) < card (?S (g_dist g))" by (intro psubset_card_mono) simp_all
    moreover have "greedy_at h q level g1" using g1 nb by (simp add: greedy_at_def)
    ultimately show ?thesis using less.hyps [of g1] run True g1(1) by fastforce
  next
    case False
    then show ?thesis using run res at by (auto simp: greedy_at_def)
  qed
qed

lemma greedy_at_lower: "greedy_at h q level g \<Longrightarrow> level' \<le> level \<Longrightarrow> greedy_at h q level' g"
  by (simp add: greedy_at_def)

lemma greedy_down_ok:
  assumes wf: "links_wf h" and "greedy_at h q level g"
  shows "\<exists>g'. greedy_down check h q bottom level g = Inr g' \<and> greedy_at h q (min level (Suc bottom)) g' \<and> g_dist g' \<le> g_dist g
    \<and> (bottom < level \<longrightarrow> (\<forall>j\<in>set (nbrs h (g_obj g') (Suc bottom)). g_dist g' \<le> elem_dist h q j))"
  using assms(2)
proof (induction level arbitrary: g)
  case 0
  then show ?case by (subst greedy_down.simps) simp
next
  case (Suc level)
  show ?case
  proof (cases "bottom < Suc level")
    case True
    obtain g1 where g1: "greedy_while check h q (Suc level) g = Inr g1" "greedy_at h q (Suc level) g1" "g_dist g1 \<le> g_dist g"
      "\<forall>j\<in>set (nbrs h (g_obj g1) (Suc level)). g_dist g1 \<le> elem_dist h q j"
      using greedy_while_ok [OF wf Suc.prems] by blast
    have run: "greedy_down check h q bottom (Suc level) g = greedy_down check h q bottom level g1"
      using True g1(1) by (subst greedy_down.simps) simp
    show ?thesis
    proof (cases "bottom < level")
      case less: True
      then show ?thesis
        using Suc.IH [OF greedy_at_lower [OF g1(2), of level]] run g1(3) by fastforce
    next
      case False
      then have "bottom = level" using True by simp
      moreover have "greedy_down check h q bottom level g1 = Inr g1" using False by (subst greedy_down.simps) simp
      ultimately show ?thesis using run g1 by simp
    qed
  next
    case False
    then show ?thesis using Suc.prems by (subst greedy_down.simps) (simp add: min_def)
  qed
qed

subsection \<open>Queries\<close>

lemma search_frame_fields:
  assumes "search_frame h h'"
  shows "data_level0 h' = data_level0 h" "cur_element_count h' = cur_element_count h" "linkLists h' = linkLists h"
    "element_levels h' = element_levels h" "num_deleted h' = num_deleted h" "hnEf h' = hnEf h"
    "hn_fstdistfunc h' = hn_fstdistfunc h" "label_lookup h' = label_lookup h" "enterpoint_node h' = enterpoint_node h"
    "max_elements h' = max_elements h"
    "elem_dist h' = elem_dist h" "nbrs h' = nbrs h" "base_edges h' = base_edges h"
    "admitted_pairs h' q bare f = admitted_pairs h q bare f"
proof -
  show f: "data_level0 h' = data_level0 h" "cur_element_count h' = cur_element_count h" "linkLists h' = linkLists h"
    "element_levels h' = element_levels h" "num_deleted h' = num_deleted h" "hnEf h' = hnEf h"
    "hn_fstdistfunc h' = hn_fstdistfunc h" "label_lookup h' = label_lookup h" "enterpoint_node h' = enterpoint_node h"
    "max_elements h' = max_elements h"
    using assms by (auto simp: search_frame_def)
  show d: "elem_dist h' = elem_dist h" by (intro ext) (simp add: elem_dist_def f)
  show n: "nbrs h' = nbrs h" by (intro ext) (simp add: nbrs_def at_level_def f)
  show "base_edges h' = base_edges h" by (simp add: base_edges_def n f)
  show "admitted_pairs h' q bare f = admitted_pairs h q bare f" by (simp add: admitted_pairs_def d f)
qed

lemma descend_to_base_ok:
  assumes wf: "hnsw_wf h" and ne: "cur_element_count h \<noteq> 0"
  shows "\<exists>g h'. descend_to_base h q = Inr (g, h') \<and> search_frame h h' \<and> g_obj g < cur_element_count h"
proof -
  have links: "links_wf h" and ep: "enterpoint_node h < cur_element_count h" "maxlevel h = int (lvl h (enterpoint_node h))"
    using wf ne by (auto simp: hnsw_wf_def entry_wf_def)
  let ?g = "\<lparr>g_obj = enterpoint_node h, g_dist = elem_dist h q (enterpoint_node h), g_hops = 0, g_comps = 0\<rparr>"
  have "greedy_at h q (nat (maxlevel h)) ?g" using ep by (simp add: greedy_at_def)
  from greedy_down_ok [OF links this, of True 0] obtain g where
    "greedy_down True h q 0 (nat (maxlevel h)) ?g = Inr g" "g_obj g < cur_element_count h"
    by (auto simp: greedy_at_def)
  moreover have "search_frame h (h\<lparr>metric_hops := n, metric_distance_computations := m\<rparr>)" for n m
    unfolding search_frame_def using links
    by (intro exI [of _ "vl_pool h"] exI [of _ n] exI [of _ m]) (simp add: links_wf_def)
  ultimately show ?thesis
    by (simp add: descend_to_base_def elem_at_ok [OF links ep(1)] elem_dist_def)
qed

definition to_label :: "'d hnsw \<Rightarrow> 'd \<times> tableint \<Rightarrow> 'd \<times> labeltype" where
  "to_label h p = (fst p, e_label (data_level0 h ! snd p))"

lemma label_result_fold:
  assumes wf: "links_wf h" and "\<forall>p\<in>set ps. snd p < cur_element_count h" and "is_heap pair_less r0"
  shows "\<exists>r. foldE (label_result h) r0 ps = Inr r \<and> is_heap pair_less r
    \<and> mset r = mset r0 + image_mset (to_label h) (mset ps)"
  using assms(2,3)
proof (induction ps arbitrary: r0)
  case (Cons p ps)
  then have "label_result h r0 p = Inr (pq_push pair_less (to_label h p) r0)"
    by (simp add: label_result_def getExternalLabel_def elem_at_ok [OF wf] to_label_def)
  then show ?case
    using Cons.IH [of "pq_push pair_less (to_label h p) r0"] Cons.prems
    by (auto simp: by_pair.heap_pq_push heap_simps)
qed simp

text \<open>The second half of \<open>searchKnn\<close>, given what the base layer search returned.\<close>

lemma label_results:
  assumes wf: "links_wf h" and heap: "is_heap CompareByFirst tq" and ids: "\<forall>p\<in>set tq. snd p < cur_element_count h"
  shows "\<exists>r. foldE (label_result h) [] (pq_drain CompareByFirst (pq_trim CompareByFirst k tq)) = Inr r
    \<and> is_heap pair_less r \<and> mset r = image_mset (to_label h) (mset (pq_trim CompareByFirst k tq))"
  using label_result_fold [OF wf, of "pq_drain CompareByFirst (pq_trim CompareByFirst k tq)" "[]"] ids
    pq_trim_sub [of CompareByFirst k tq]
  by (auto simp: heap_simps by_pair.std.invar_empty)

lemma bare_admits:
  assumes "hnsw_wf h" and "num_deleted h = 0" and "f = None" and "i < cur_element_count h"
  shows "admits True f (data_level0 h ! i) = admits False f (data_level0 h ! i)"
proof -
  have "deleted_ids h = {}" using assms(1,2) by (auto simp: hnsw_wf_def deleted_wf_def)
  then show ?thesis using assms(3,4) by (auto simp: admits_def deleted_ids_def)
qed

lemma searchKnn_run:
  assumes wf: "hnsw_wf h" and ne: "cur_element_count h \<noteq> 0"
  shows "\<exists>r h' top. searchKnn env h q k f = Inr (r, h') \<and> search_frame h h' \<and> is_heap pair_less r
    \<and> is_heap CompareByFirst top
    \<and> mset r = image_mset (to_label h) (mset (pq_trim CompareByFirst k top)) \<and> distinct (map snd top)
    \<and> (\<forall>p\<in>set top. snd p < cur_element_count h \<and> fst p = elem_dist h q (snd p) \<and> admits False f (data_level0 h ! snd p))
    \<and> (cur_element_count h \<le> max (hnEf h) k \<longrightarrow> base_connected h \<longrightarrow> mset top = mset (admitted_pairs h q False f))"
proof -
  obtain g h1 where 1: "descend_to_base h q = Inr (g, h1)" "search_frame h h1" "g_obj g < cur_element_count h"
    using descend_to_base_ok [OF wf ne] by blast
  note f1 = search_frame_fields [OF 1(2)]
  have wf1: "hnsw_wf h1" by (rule search_frame_hnsw_wf [OF 1(2) wf])
  then have links1: "links_wf h1" by (simp add: hnsw_wf_def)
  let ?bare = "num_deleted h1 = 0 \<and> f = None"
  have obj: "g_obj g < cur_element_count h1" and act: "active_stop ?bare None = None"
    using 1(3) by (simp_all add: f1 active_stop_def)
  have adm: "admits ?bare f (data_level0 h1 ! i) = admits False f (data_level0 h1 ! i)" if "i < cur_element_count h1" for i
    using bare_admits [OF wf1, of f i] that by (cases ?bare) auto
  then have pairs: "admitted_pairs h1 q ?bare f = admitted_pairs h1 q False f"
    unfolding admitted_pairs_def by (intro map_cong filter_cong) auto
  let ?run = "searchBaseLayerST env ?bare False h1 (g_obj g) q (max (hnEf h1) k) f None ()"
  obtain top h2 where 2: "?run = Inr (top, (), h2)" "search_frame h1 h2" "is_heap CompareByFirst top" "distinct (map snd top)"
    "\<forall>p\<in>set top. snd p < cur_element_count h1 \<and> fst p = elem_dist h1 q (snd p) \<and> admits ?bare f (data_level0 h1 ! snd p)"
    using searchBaseLayerST_sound [OF links1 obj act, of env False q "max (hnEf h1) k" f "()"] by auto
  have exact: "mset top = mset (admitted_pairs h1 q False f)" if "cur_element_count h \<le> max (hnEf h) k" "base_connected h"
    using searchBaseLayerST_exact [OF links1 obj act, of "max (hnEf h1) k" env False q f "()"] that 2(1) pairs
    by (auto simp: f1 base_connected_def)
  note f2 = search_frame_fields [OF 2(2)]
  have links2: "links_wf h2" by (rule search_frame_links_wf [OF 2(2) links1])
  obtain r where r: "foldE (label_result h2) [] (pq_drain CompareByFirst (pq_trim CompareByFirst k top)) = Inr r"
    "is_heap pair_less r" "mset r = image_mset (to_label h2) (mset (pq_trim CompareByFirst k top))"
    using label_results [OF links2 2(3), of k] 2(5) by (auto simp: f2)
  have "searchKnn env h q k f = Inr (r, h2)"
    using ne 1(1) 2(1) r(1) by (simp add: searchKnn_def Let_def)
  moreover have "to_label h2 = to_label h" by (intro ext) (simp add: to_label_def f1 f2)
  moreover have "\<forall>p\<in>set top. snd p < cur_element_count h \<and> fst p = elem_dist h q (snd p) \<and> admits False f (data_level0 h ! snd p)"
    using 2(5) adm by (auto simp: f1)
  ultimately show ?thesis
    using r search_frame_trans [OF 1(2) 2(2)] 2(3,4) exact by (auto simp: f1)
qed

lemma label_inj:
  assumes "labels_wf h" and "i < cur_element_count h" "j < cur_element_count h"
    and "e_label (data_level0 h ! i) = e_label (data_level0 h ! j)"
  shows "i = j"
  using assms by (metis labels_wf_def option.inject)

lemma distinct_to_label:
  assumes lab: "labels_wf h" and ids: "\<forall>p\<in>set ps. snd p < cur_element_count h" "distinct (map snd ps)"
    and r: "mset r = image_mset (to_label h) (mset ps)"
  shows "distinct (map snd r)"
proof -
  have "mset (map snd r) = mset (map (\<lambda>p. e_label (data_level0 h ! snd p)) ps)"
    using arg_cong [OF r, of "image_mset snd"] by (simp add: to_label_def image_mset.compositionality comp_def)
  then have "distinct (map snd r) \<longleftrightarrow> distinct (map (\<lambda>p. e_label (data_level0 h ! snd p)) ps)"
    by (rule mset_eq_imp_distinct_iff)
  moreover have "distinct (map (\<lambda>p. e_label (data_level0 h ! snd p)) ps)"
    using ids label_inj [OF lab] by (simp add: distinct_map inj_on_def)
  ultimately show ?thesis by simp
qed

lemma searchKnn_returns:
  assumes wf: "hnsw_wf h"
  shows "\<exists>r h'. searchKnn env h q k f = Inr (r, h') \<and> hnsw_wf h' \<and> search_frame h h'
    \<and> is_heap pair_less r \<and> length r \<le> k \<and> distinct (map snd r)
    \<and> (\<forall>(d, l)\<in>set r. \<exists>i. label_lookup h l = Some i \<and> i \<notin> deleted_ids h \<and> allowed f l \<and> d = elem_dist h q i)"
proof (cases "cur_element_count h = 0")
  case True
  have "search_frame h h"
    unfolding search_frame_def using wf
    by (intro exI [of _ "vl_pool h"] exI [of _ "metric_hops h"] exI [of _ "metric_distance_computations h"])
       (simp add: hnsw_wf_def links_wf_def)
  then show ?thesis using True wf by (simp add: searchKnn_def by_pair.std.invar_empty)
next
  case False
  obtain r h' tq where res: "searchKnn env h q k f = Inr (r, h')" "search_frame h h'" "is_heap pair_less r"
    "mset r = image_mset (to_label h) (mset (pq_trim CompareByFirst k tq))" "distinct (map snd tq)"
    "\<forall>p\<in>set tq. snd p < cur_element_count h \<and> fst p = elem_dist h q (snd p) \<and> admits False f (data_level0 h ! snd p)"
    using searchKnn_run [OF wf False, of env q k f] by blast
  let ?ps = "pq_trim CompareByFirst k tq"
  have sub: "set ?ps \<subseteq> set tq" by (rule pq_trim_sub)
  have lab: "labels_wf h" using wf by (simp add: hnsw_wf_def)
  have "length r = length ?ps" using arg_cong [OF res(4), of size] by simp
  then have "length r \<le> k" by (simp add: heap_simps)
  moreover have "distinct (map snd r)"
    by (rule distinct_to_label [OF lab _ pq_trim_distinct [OF res(5)] res(4)]) (use res(6) sub in auto)
  moreover have "set r = to_label h ` set ?ps" using res(4) by (metis set_image_mset set_mset_mset)
  then have "\<exists>i. label_lookup h l = Some i \<and> i \<notin> deleted_ids h \<and> allowed f l \<and> d = elem_dist h q i"
    if "(d, l) \<in> set r" for d l
    using that res(6) sub lab by (fastforce simp: to_label_def labels_wf_def admits_def deleted_ids_def)
  ultimately show ?thesis
    using res(1-3) search_frame_hnsw_wf [OF res(2) wf] by blast
qed



text \<open>A selection of the nearest is one under any renaming of the ids.\<close>

lemma k_best_to_label:
  assumes "k_best CompareByFirst k S K"
  shows "k_best CompareByFirst k (image_mset (to_label h) S) (image_mset (to_label h) K)"
proof -
  from assms have sub: "K \<subseteq># S" by (simp add: k_best_def)
  then have "image_mset (to_label h) S - image_mset (to_label h) K = image_mset (to_label h) (S - K)"
    by (metis add_diff_cancel_left' image_mset_union subset_mset.add_diff_inverse)
  with assms sub show ?thesis
    by (auto simp: k_best_def image_mset_subseteq_mono CompareByFirst_def to_label_def)
qed

lemma searchKnn_nearest:
  assumes wf: "hnsw_wf h" and conn: "base_connected h" and ef: "cur_element_count h \<le> max (hnEf h) k"
  shows "\<exists>r h'. searchKnn env h q k f = Inr (r, h')
    \<and> k_best CompareByFirst k
        (mset (map (\<lambda>i. (elem_dist h q i, e_label (data_level0 h ! i)))
           (filter (\<lambda>i. i \<notin> deleted_ids h \<and> allowed f (e_label (data_level0 h ! i))) [0..<cur_element_count h])))
        (mset r)"
proof (cases "cur_element_count h = 0")
  case True
  then show ?thesis by (simp add: searchKnn_def)
next
  case False
  obtain r h' tq where res: "searchKnn env h q k f = Inr (r, h')" "is_heap CompareByFirst tq"
    "mset r = image_mset (to_label h) (mset (pq_trim CompareByFirst k tq))" "mset tq = mset (admitted_pairs h q False f)"
    using searchKnn_run [OF wf False, of env q k f] conn ef by blast
  have "filter (\<lambda>i. admits False f (data_level0 h ! i)) [0..<cur_element_count h]
      = filter (\<lambda>i. i \<notin> deleted_ids h \<and> allowed f (e_label (data_level0 h ! i))) [0..<cur_element_count h]"
    by (rule filter_cong) (auto simp: admits_def deleted_ids_def)
  then have "image_mset (to_label h) (mset tq) = mset (map (\<lambda>i. (elem_dist h q i, e_label (data_level0 h ! i)))
      (filter (\<lambda>i. i \<notin> deleted_ids h \<and> allowed f (e_label (data_level0 h ! i))) [0..<cur_element_count h]))"
    unfolding res(4) admitted_pairs_def by (simp add: to_label_def image_mset.compositionality comp_def)
  then show ?thesis
    using k_best_to_label [OF by_first.k_best_pq_trim [OF res(2), of k], of h] res(1,3) by auto
qed


lemma hn_demo_connected: "base_connected hn_demo"
proof -
  have e: "(0, 1) \<in> base_edges hn_demo" "(1, 0) \<in> base_edges hn_demo" "(1, 2) \<in> base_edges hn_demo" "(2, 1) \<in> base_edges hn_demo"
    by (simp_all add: base_edges_def nbrs_def at_level_def ids_of_def hn_demo_def demo_links_def)
  have "(i, j) \<in> (base_edges hn_demo)\<^sup>*" if "i < 3" "j < 3" for i j
    using that e unfolding less_three
    by (elim disjE) (auto intro: rtrancl_trans [OF r_into_rtrancl r_into_rtrancl])
  then show ?thesis by (simp add: base_connected_def hn_demo_fields)
qed


subsection \<open>The bare-bone search\<close>

text \<open>
  Where all elements are admitted, every candidate is also a result as long as the results are not full, so a
  candidate farther than the bound is only met when they are.
\<close>

definition bare_inv where
  "bare_inv ef s \<longleftrightarrow> ls_top s \<noteq> [] \<and> length (ls_top s) \<le> ef
     \<and> (length (ls_top s) < ef \<longrightarrow> (\<forall>p\<in>set (ls_cand s). - fst p \<le> ls_lb s))"

lemma heap_bound:
  fixes tq :: "('d::linorder \<times> tableint) list"
  assumes "is_heap CompareByFirst tq" and "p \<in> set tq"
  shows "fst p \<le> fst (pq_top tq)"
  using by_first.std.top_max [OF assms(1), of p] assms(2) by (simp add: CompareByFirst_def)

lemma bare_inv_visited:
  assumes inv: "st_inv h q ef bare f s" and bi: "bare_inv ef s" and adm: "admits bare f (data_level0 h ! i)"
  shows "bare_inv ef (st_visited h q ef bare f s i)"
proof (cases "\<not> is_visited (ls_vl s) i \<and> (length (ls_top s) < ef \<or> elem_dist h q i < ls_lb s)")
  case True
  let ?d = "elem_dist h q i"
  let ?push = "pq_push CompareByFirst (?d, i) (ls_top s)"
  let ?t = "st_visited h q ef bare f s i"
  have heap: "is_heap CompareByFirst (ls_top s)" and lb: "ls_lb s = fst (pq_top (ls_top s))"
    and ne: "ls_top s \<noteq> []" and le: "length (ls_top s) \<le> ef"
    using inv bi by (simp_all add: st_inv_def bare_inv_def)
  have top: "ls_top ?t = pq_trim CompareByFirst ef ?push"
    and cand: "ls_cand ?t = pq_push CompareByFirst (- ?d, i) (ls_cand s)"
    and lb': "ls_top ?t \<noteq> [] \<Longrightarrow> ls_lb ?t = fst (pq_top (ls_top ?t))"
    using True adm by (auto simp: st_visited_def st_taken_def Let_def)
  have len: "length (ls_top ?t) = min ef (Suc (length (ls_top s)))" by (simp add: top heap_simps)
  have "0 < length (ls_top ?t)" using len ne le by (cases "ls_top s") auto
  then have ne': "ls_top ?t \<noteq> []" by simp
  have "- fst p \<le> ls_lb ?t" if less: "length (ls_top ?t) < ef" and p: "p \<in> set (ls_cand ?t)" for p
  proof -
    have top': "ls_top ?t = ?push" using less len by (simp add: top pq_trim_id heap_simps)
    have h': "is_heap CompareByFirst ?push" by (rule by_first.heap_pq_push [OF heap])
    have "ls_lb s \<le> ls_lb ?t"
      using heap_bound [OF h', of "pq_top (ls_top s)"] by_first.std.top_in [OF ne] lb lb' [OF ne'] top'
      by (simp add: set_pq_push)
    moreover have "?d \<le> ls_lb ?t"
      using heap_bound [OF h', of "(?d, i)"] lb' [OF ne'] top' by (simp add: set_pq_push)
    moreover have "length (ls_top s) < ef" using less len by simp
    ultimately show ?thesis using p bi by (auto simp: cand set_pq_push bare_inv_def)
  qed
  then show ?thesis using ne' len by (auto simp: bare_inv_def)
next
  case False
  then have "ls_top (st_visited h q ef bare f s i) = ls_top s \<and> ls_cand (st_visited h q ef bare f s i) = ls_cand s
    \<and> ls_lb (st_visited h q ef bare f s i) = ls_lb s"
    by (auto simp: st_visited_def Let_def)
  then show ?thesis using bi by (simp add: bare_inv_def)
qed

lemma bare_inv_iter:
  assumes wf: "links_wf h" and inv: "st_inv h q ef bare f s" and bi: "bare_inv ef s" and c: "ls_cand s \<noteq> []"
    and adm: "\<forall>i<cur_element_count h. admits bare f (data_level0 h ! i)"
  shows "bare_inv ef (st_iter h q ef bare metrics f s)"
proof -
  have "set (ls_cand (st_popped h metrics s)) \<subseteq> set (ls_cand s)"
    using mset_pq_pop [OF c, of CompareByFirst] by (auto simp: st_popped_def Let_def) (metis in_diffD set_mset_mset)+
  then have pop: "bare_inv ef (st_popped h metrics s)"
    using bi by (auto simp: bare_inv_def st_popped_def Let_def split: if_splits)
  have "bare_inv ef (foldl (st_visited h q ef bare f) t ids)"
    if "st_inv h q ef bare f t" "bare_inv ef t" "\<forall>i\<in>set ids. i < cur_element_count h" for t :: "('a, 'b) st_search" and ids
    using that
  proof (induction ids arbitrary: t)
    case (Cons i ids)
    then show ?case
      using bare_inv_visited [OF Cons.prems(1,2)] adm st_visited_inv [OF wf Cons.prems(1)] by simp
  qed simp
  then show ?thesis
    unfolding st_iter_def
    using pop st_popped_inv [OF inv c] nbrs_ok(3) [OF wf st_top_cand(1) [OF inv c], of 0] by simp
qed

lemma st_loop_bare:
  assumes wf: "links_wf h" and "st_inv h q ef True None s" and "st_inv h q ef False None s" and "bare_inv ef s"
    and live: "deleted_ids h = {}"
  shows "st_loop h q ef True metrics None stop s = st_loop h q ef False metrics None None s"
  using assms(2-4)
proof (induction "search_work s" arbitrary: s rule: less_induct)
  case less
  have adm: "admits False None (data_level0 h ! i)" if "i < cur_element_count h" for i
    using live that by (auto simp: admits_def deleted_ids_def)
  have vis: "st_visited h q ef True None t i = st_visited h q ef False None t i" if "i < cur_element_count h" for t :: "('a, 'b) st_search" and i
    using adm [OF that] by (simp add: st_visited_def admits_def Let_def)
  have act: "active_stop True stop = None" "active_stop False (None :: ('b, 'a) stop_condition option) = None"
    by (simp_all add: active_stop_def)
  show ?case
  proof (cases "ls_cand s = []")
    case True
    then show ?thesis by (simp add: st_loop.simps)
  next
    case c: False
    let ?cd = "- fst (pq_top (ls_cand s))"
    have "length (ls_top s) = ef" if "ls_lb s < ?cd"
    proof (rule ccontr)
      assume "length (ls_top s) \<noteq> ef"
      then have "?cd \<le> ls_lb s"
        using less.prems(3) st_top_cand(2) [OF less.prems(1) c] by (simp add: bare_inv_def)
      with that show False by simp
    qed
    then have stops: "st_stops ef True stop s ?cd = st_stops ef False None s ?cd"
      by (auto simp: st_stops_def)
    have iter: "st_iter h q ef True metrics None s = st_iter h q ef False metrics None s"
      unfolding st_iter_def
      using vis nbrs_ok(3) [OF wf st_top_cand(1) [OF less.prems(1) c], of 0]
      by (intro foldl_cong) auto
    have "st_loop h q ef True metrics None stop (st_iter h q ef True metrics None s)
        = st_loop h q ef False metrics None None (st_iter h q ef False metrics None s)"
      using less.hyps [OF search_work_iter [OF wf less.prems(2) c, of metrics]]
        st_loop_unfold(2) [OF wf act(1) less.prems(1), of metrics] st_loop_unfold(2) [OF wf act(2) less.prems(2), of metrics]
        bare_inv_iter [OF wf less.prems(2,3) c, of metrics] adm c
      by (simp add: iter)
    then show ?thesis
      using st_loop_unfold(1) [OF wf act(1) less.prems(1), of metrics] st_loop_unfold(1) [OF wf act(2) less.prems(2), of metrics]
        stops c by simp
  qed
qed

text \<open>
  \<^bold>\<open>C20.\<close> The bare-bone variant of \<open>searchBaseLayerST\<close> is a safe optimisation: if nothing is deleted and there
  is no filter, it returns exactly what the general variant returns, although it stops on a simpler test.
\<close>

theorem bare_bone_search_equiv:
  assumes wf: "links_wf h" and ep: "ep < cur_element_count h" and live: "deleted_ids h = {}" and ef: "1 \<le> ef"
  shows "searchBaseLayerST env True metrics h ep q ef None stop st = searchBaseLayerST env False metrics h ep q ef None None st"
proof -
  obtain vl vpool where vl: "getFreeVisitedList (vl_junk env) (vl_pool h) = (vl, vpool)" by fastforce
  have "pool_ok (max_elements h) (vl_pool h)" using wf by (simp add: links_wf_def)
  note ok = getFreeVisitedList_ok(2) [OF this vl]
  have "admits False None (data_level0 h ! ep)" using live ep by (auto simp: admits_def deleted_ids_def)
  then have start: "st_start env h q True None ep vl st = st_start env h q False None ep vl st"
    and bi: "bare_inv ef (st_start env h q False None ep vl st)"
    using ef by (simp_all add: st_start_def admits_def Let_def bare_inv_def)
  have act: "active_stop True stop = None" "active_stop False (None :: ('b, 'a) stop_condition option) = None"
    by (simp_all add: active_stop_def)
  have "st_loop h q ef True metrics None stop (st_start env h q False None ep vl st)
      = st_loop h q ef False metrics None None (st_start env h q False None ep vl st)"
    using st_loop_bare [OF wf _ st_start_inv [OF wf ep ok] bi live] st_start_inv [OF wf ep ok, of q ef True None env st] start
    by simp
  then show ?thesis
    unfolding searchBaseLayerST_start [OF wf ep act(1) vl] searchBaseLayerST_start [OF wf ep act(2) vl] start by simp
qed

theorem bare_bone_search_equiv_witness:
  "searchBaseLayerST demo_env True False hn_demo 2 [22] 2 None (None :: (unit, int) stop_condition option) ()
    = searchBaseLayerST demo_env False False hn_demo 2 [22] 2 None None ()"
  by (rule bare_bone_search_equiv) (simp_all add: hn_demo_links_wf hn_demo_fields hn_demo_deleted)

end
