(* ===== verification/Hnsw_Layer.thy ===== *)
theory Hnsw_Layer
  imports Hnsw_Search_Correct
begin

text \<open>
  What \<open>searchBaseLayer\<close> of \<open>Hnsw_Search\<close> gives the insertion of an element: it returns on every layer,
  with distinct live elements of that layer and their distances. Its steps are those of the query
  search with \<open>ef_construction\<close>, so the facts of \<open>Hnsw_Search_Correct\<close> apply.
\<close>

subsection \<open>Steps\<close>

lemma pq_trim_one: "length q \<le> Suc k \<Longrightarrow> pq_trim lt k q = (if k < length q then pq_pop lt q else q)"
  by (simp add: pq_trim.simps [of lt k q] pq_trim_id heap_simps)

lemma pq_push_not_Nil [simp]: "pq_push lt v q \<noteq> []"
  using length_pq_push [of lt v q] by auto

lemma pq_trim_Nil: "pq_trim lt k q = [] \<longleftrightarrow> k = 0 \<or> q = []"
  using length_pq_trim [of lt k q] by (metis length_0_conv min_0L min_0R min_def)

lemma bl_visit_pure:
  assumes "links_wf h" and "i < cur_element_count h" and "i < length (mass (ls_vl s))"
    and "length (ls_top s) \<le> ef_construction h"
  shows "bl_visit h q s i = Inr (st_visited h q (ef_construction h) False None s i)"
  using assms
  by (simp add: bl_visit_def st_visited_def elem_at_ok Let_def elem_dist_def st_taken_def admits_def pq_trim_one heap_simps)

definition bl_iter ::
    "'d::linordered_ab_group_add hnsw \<Rightarrow> byte list \<Rightarrow> nat \<Rightarrow> 'd layer_search \<Rightarrow> 'd layer_search" where
  "bl_iter h q layer s =
     foldl (st_visited h q (ef_construction h) False None) (s\<lparr>ls_cand := pq_pop CompareByFirst (ls_cand s)\<rparr>)
       (nbrs h (snd (pq_top (ls_cand s))) layer)"

text \<open>Where the elements of the queues come from.\<close>

definition linked_from :: "'d hnsw \<Rightarrow> tableint \<Rightarrow> nat \<Rightarrow> tableint \<Rightarrow> bool" where
  "linked_from h ep layer i \<longleftrightarrow> layer \<le> lvl h i
     \<and> (i = ep \<or> (\<exists>j<cur_element_count h. layer \<le> lvl h j \<and> i \<in> set (nbrs h j layer)))"

definition layer_inv where
  "layer_inv h q ep layer s \<longleftrightarrow> st_inv h q (ef_construction h) False None s
     \<and> (\<forall>p\<in>set (ls_top s) \<union> set (ls_cand s). linked_from h ep layer (snd p))
     \<and> (ep \<notin> deleted_ids h \<longrightarrow> ls_top s \<noteq> [])"

lemma st_visited_queues:
  "set (ls_top (st_visited h q ef bare f s i)) \<subseteq> insert (elem_dist h q i, i) (set (ls_top s))"
  "set (ls_cand (st_visited h q ef bare f s i)) \<subseteq> insert (- elem_dist h q i, i) (set (ls_cand s))"
  "ls_top s \<noteq> [] \<Longrightarrow> 1 \<le> ef \<Longrightarrow> ls_top (st_visited h q ef bare f s i) \<noteq> []"
proof -
  show "set (ls_top (st_visited h q ef bare f s i)) \<subseteq> insert (elem_dist h q i, i) (set (ls_top s))"
    using pq_trim_sub [of CompareByFirst ef "pq_push CompareByFirst (elem_dist h q i, i) (ls_top s)"]
      pq_trim_sub [of CompareByFirst ef "ls_top s"]
    by (auto simp: st_visited_def st_taken_def Let_def set_pq_push)
  show "set (ls_cand (st_visited h q ef bare f s i)) \<subseteq> insert (- elem_dist h q i, i) (set (ls_cand s))"
    by (auto simp: st_visited_def st_taken_def Let_def set_pq_push)
  assume "ls_top s \<noteq> []" and "1 \<le> ef"
  then show "ls_top (st_visited h q ef bare f s i) \<noteq> []"
    by (simp add: st_visited_def st_taken_def Let_def pq_trim_Nil)
qed

lemma bl_fold:
  assumes wf: "links_wf h" and ef: "1 \<le> ef_construction h" and "layer_inv h q ep layer s"
    and "\<forall>i\<in>set ids. i < cur_element_count h \<and> linked_from h ep layer i"
  shows "foldE (bl_visit h q) s ids = Inr (foldl (st_visited h q (ef_construction h) False None) s ids)
    \<and> layer_inv h q ep layer (foldl (st_visited h q (ef_construction h) False None) s ids)
    \<and> search_work (foldl (st_visited h q (ef_construction h) False None) s ids) \<le> search_work s"
  using assms(3,4)
proof (induction ids arbitrary: s)
  case (Cons i ids)
  let ?s = "st_visited h q (ef_construction h) False None s i"
  have inv: "st_inv h q (ef_construction h) False None s" and i: "i < cur_element_count h" "linked_from h ep layer i"
    using Cons.prems by (simp_all add: layer_inv_def)
  have bounds: "i < length (mass (ls_vl s))" "length (ls_top s) \<le> ef_construction h"
    using inv i wf ef by (auto simp: st_inv_def vl_ok_def links_wf_def)
  have "layer_inv h q ep layer ?s"
    unfolding layer_inv_def
  proof (intro conjI)
    show "st_inv h q (ef_construction h) False None ?s" by (rule st_visited_inv [OF wf inv i(1)])
    show "\<forall>p\<in>set (ls_top ?s) \<union> set (ls_cand ?s). linked_from h ep layer (snd p)"
      using st_visited_queues(1,2) [of h q "ef_construction h" False None s i] i(2) Cons.prems(1)
      by (auto simp: layer_inv_def)
    show "ep \<notin> deleted_ids h \<longrightarrow> ls_top ?s \<noteq> []"
      using Cons.prems(1) by (auto simp: layer_inv_def st_visited_queues(3) [OF _ ef])
  qed
  then show ?case
    using Cons.IH [of ?s] Cons.prems(2) bl_visit_pure [OF wf i(1) bounds, of q]
      search_work_st_visited [OF bounds(1), of h q "ef_construction h" False None] by auto
qed simp

subsection \<open>The loop and the search\<close>

lemma bl_loop_unfold:
  assumes wf: "links_wf h" and ef: "1 \<le> ef_construction h" and inv: "layer_inv h q ep layer s"
  shows "bl_loop h q layer s =
    (if ls_cand s = [] \<or> (ls_lb s < - fst (pq_top (ls_cand s)) \<and> length (ls_top s) = ef_construction h) then Inr s
     else bl_loop h q layer (bl_iter h q layer s))"
    and "ls_cand s \<noteq> [] \<Longrightarrow> layer_inv h q ep layer (bl_iter h q layer s) \<and> search_work (bl_iter h q layer s) < search_work s"
proof -
  let ?i = "snd (pq_top (ls_cand s))"
  let ?s = "s\<lparr>ls_cand := pq_pop CompareByFirst (ls_cand s)\<rparr>"
  have st: "st_inv h q (ef_construction h) False None s" using inv by (simp add: layer_inv_def)
  have fold: "foldE (bl_visit h q) ?s (nbrs h ?i layer) = Inr (bl_iter h q layer s)
      \<and> layer_inv h q ep layer (bl_iter h q layer s) \<and> search_work (bl_iter h q layer s) \<le> search_work ?s"
    and i: "?i < cur_element_count h" "layer \<le> lvl h ?i" if c: "ls_cand s \<noteq> []"
  proof -
    show i: "?i < cur_element_count h" "layer \<le> lvl h ?i"
      using st_top_cand [OF st c] inv by (auto simp: layer_inv_def linked_from_def)
    have "set (ls_cand ?s) \<subseteq> set (ls_cand s)"
      using mset_pq_pop [OF c, of CompareByFirst] by (simp add: subset_iff) (metis in_diffD set_mset_mset)
    then have "layer_inv h q ep layer ?s"
      using inv st_inv_pop [OF st c] by (auto simp: layer_inv_def)
    moreover have "\<forall>j\<in>set (nbrs h ?i layer). j < cur_element_count h \<and> linked_from h ep layer j"
      using nbrs_ok(3) [OF wf i] i by (auto simp: linked_from_def)
    ultimately show "foldE (bl_visit h q) ?s (nbrs h ?i layer) = Inr (bl_iter h q layer s)
      \<and> layer_inv h q ep layer (bl_iter h q layer s) \<and> search_work (bl_iter h q layer s) \<le> search_work ?s"
      unfolding bl_iter_def by (rule bl_fold [OF wf ef])
  qed
  show "ls_cand s \<noteq> [] \<Longrightarrow> layer_inv h q ep layer (bl_iter h q layer s) \<and> search_work (bl_iter h q layer s) < search_work s"
    using fold search_work_pop [of s] by fastforce
  show "bl_loop h q layer s =
    (if ls_cand s = [] \<or> (ls_lb s < - fst (pq_top (ls_cand s)) \<and> length (ls_top s) = ef_construction h) then Inr s
     else bl_loop h q layer (bl_iter h q layer s))"
  proof (cases "ls_cand s = [] \<or> (ls_lb s < - fst (pq_top (ls_cand s)) \<and> length (ls_top s) = ef_construction h)")
    case True
    then show ?thesis by (subst bl_loop.simps) (auto simp: Let_def)
  next
    case False
    then have c: "ls_cand s \<noteq> []" by blast
    have "bindE (get_linklist_at_level h ?i layer) link_ids = Inr (nbrs h ?i layer)"
      using getConnections_ok [OF wf i [OF c]] by (simp add: getConnectionsWithLock_def)
    then have "bl_loop h q layer s = bindE (foldE (bl_visit h q) ?s (nbrs h ?i layer)) (bl_loop h q layer)"
      using False by (subst bl_loop.simps) (auto simp: Let_def)
    then show ?thesis using fold [OF c] False by auto
  qed
qed

lemma bl_loop_ok:
  assumes wf: "links_wf h" and ef: "1 \<le> ef_construction h" and "layer_inv h q ep layer s"
  shows "\<exists>s'. bl_loop h q layer s = Inr s' \<and> layer_inv h q ep layer s'"
  using assms(3)
proof (induction "search_work s" arbitrary: s rule: less_induct)
  case less
  then show ?case using bl_loop_unfold [OF wf ef less.prems] by fastforce
qed

lemma layer_inv_start:
  assumes wf: "links_wf h" and ep: "ep < cur_element_count h" "layer \<le> lvl h ep" and vl: "vl_ok (max_elements h) vl"
  shows "layer_inv h q ep layer (layer_search.truncate (st_start env h q False None ep vl st))"
proof -
  have "st_inv h q (ef_construction h) False None (layer_search.truncate (st_start env h q False None ep vl st))"
    using st_start_inv [OF wf ep(1) vl, of q "ef_construction h" False None env st]
    by (simp add: st_inv_def layer_search.defs)
  then show ?thesis
    using ep by (auto simp: layer_inv_def layer_search.defs st_start_def Let_def linked_from_def admits_def deleted_ids_def)
qed

lemma searchBaseLayer_start:
  assumes wf: "links_wf h" and ep: "ep < cur_element_count h"
    and vl: "getFreeVisitedList (vl_junk env) (vl_pool h) = (vl, vpool)"
  shows "searchBaseLayer env h ep q layer =
    bindE (bl_loop h q layer (layer_search.truncate (st_start env h q False None ep vl st))) (\<lambda>s.
      Inr (ls_top s, h\<lparr>vl_pool := releaseVisitedList (ls_vl s) vpool\<rparr>))"
proof -
  have "pool_ok (max_elements h) (vl_pool h)" using wf by (simp add: links_wf_def)
  from getFreeVisitedList_ok(2) [OF this vl] have "ep < length (mass vl)"
    using ep wf by (simp add: vl_ok_def links_wf_def)
  then show ?thesis
    by (simp add: searchBaseLayer_def vl elem_at_ok [OF wf ep] st_start_def elem_dist_def Let_def admits_def layer_search.defs)
qed

lemma search_frame_pool: "pool_ok (max_elements h) vp \<Longrightarrow> search_frame h (h\<lparr>vl_pool := vp\<rparr>)"
  unfolding search_frame_def
  by (intro exI [of _ vp] exI [of _ "metric_hops h"] exI [of _ "metric_distance_computations h"]) simp

lemma searchBaseLayer_finds:
  assumes wf: "links_wf h" and ef: "1 \<le> ef_construction h" and ep: "ep < cur_element_count h" "layer \<le> lvl h ep"
  shows "\<exists>top h'. searchBaseLayer env h ep q layer = Inr (top, h') \<and> search_frame h h'
    \<and> is_heap CompareByFirst top \<and> distinct (map snd top) \<and> length top \<le> ef_construction h
    \<and> (\<forall>p\<in>set top. snd p < cur_element_count h \<and> fst p = elem_dist h q (snd p) \<and> snd p \<notin> deleted_ids h
         \<and> linked_from h ep layer (snd p))
    \<and> (ep \<notin> deleted_ids h \<longrightarrow> top \<noteq> [])"
proof -
  obtain vl vpool where vl: "getFreeVisitedList (vl_junk env) (vl_pool h) = (vl, vpool)" by fastforce
  have "pool_ok (max_elements h) (vl_pool h)" using wf by (simp add: links_wf_def)
  note ok = getFreeVisitedList_ok [OF this vl]
  obtain s where s: "bl_loop h q layer (layer_search.truncate (st_start env h q False None ep vl ())) = Inr s"
    "layer_inv h q ep layer s"
    using bl_loop_ok [OF wf ef layer_inv_start [OF wf ep ok(2), where q = q and env = env and st = "()"]] by blast
  have "pool_ok (max_elements h) (releaseVisitedList (ls_vl s) vpool)"
    using releaseVisitedList_ok [OF ok(1)] s(2) by (simp add: st_inv_def layer_inv_def)
  note frame = search_frame_pool [OF this]
  have inv: "st_inv h q (ef_construction h) False None s" using s(2) by (simp add: layer_inv_def)
  then have "is_heap CompareByFirst (ls_top s)" "distinct (map snd (ls_top s))" "length (ls_top s) \<le> ef_construction h"
    using ef by (simp_all add: st_inv_def)
  moreover have "\<forall>p\<in>set (ls_top s). snd p < cur_element_count h \<and> fst p = elem_dist h q (snd p) \<and> snd p \<notin> deleted_ids h
      \<and> linked_from h ep layer (snd p)"
    using inv s(2) by (auto simp: st_inv_def layer_inv_def admits_def deleted_ids_def)
  moreover have "ep \<notin> deleted_ids h \<longrightarrow> ls_top s \<noteq> []" using s(2) by (simp add: layer_inv_def)
  ultimately show ?thesis
    unfolding searchBaseLayer_start [OF wf ep(1) vl, where st = "()"] s(1) using frame by auto
qed

text \<open>
  \<^bold>\<open>C21.\<close> The search that finds neighbours for a new element returns on every layer of a well-formed graph,
  without an access outside memory. It gives at most \<open>ef_construction\<close> different live
  elements, all present on the layer searched and each with its true distance, and at least one if the
  entry point is live; none but the entry point lacks an incoming link on that layer.
\<close>

theorem searchBaseLayer_sound:
  assumes wf: "links_wf h" and ef: "1 \<le> ef_construction h" and ep: "ep < cur_element_count h" "layer \<le> lvl h ep"
  shows "\<exists>top h'. searchBaseLayer env h ep q layer = Inr (top, h') \<and> search_frame h h'
    \<and> is_heap CompareByFirst top \<and> distinct (map snd top) \<and> length top \<le> ef_construction h
    \<and> (\<forall>p\<in>set top. snd p < cur_element_count h \<and> fst p = elem_dist h q (snd p) \<and> snd p \<notin> deleted_ids h
         \<and> linked_from h ep layer (snd p))
    \<and> (ep \<notin> deleted_ids h \<longrightarrow> top \<noteq> [])"
  by (rule searchBaseLayer_finds [OF assms])

lemma hn_demo_params: "ef_construction hn_demo = 2" "hnM hn_demo = 1"
  by (simp_all add: hn_demo_def)

theorem searchBaseLayer_sound_witness:
  "\<exists>top h'. searchBaseLayer demo_env hn_demo 2 [12] 1 = Inr (top, h') \<and> length top \<le> 2 \<and> top \<noteq> []"
proof -
  have "\<exists>top h'. searchBaseLayer demo_env hn_demo 2 [12] 1 = Inr (top, h') \<and> search_frame hn_demo h'
    \<and> is_heap CompareByFirst top \<and> distinct (map snd top) \<and> length top \<le> ef_construction hn_demo
    \<and> (\<forall>p\<in>set top. snd p < cur_element_count hn_demo \<and> fst p = elem_dist hn_demo [12] (snd p) \<and> snd p \<notin> deleted_ids hn_demo
         \<and> linked_from hn_demo 2 1 (snd p))
    \<and> (2 \<notin> deleted_ids hn_demo \<longrightarrow> top \<noteq> [])"
    by (rule searchBaseLayer_sound [OF hn_demo_links_wf]) (simp_all add: hn_demo_def)
  then show ?thesis by (auto simp: hn_demo_deleted hn_demo_params)
qed

subsection \<open>The two searches agree on the base layer\<close>

lemma truncate_visited:
  "layer_search.truncate (st_visited h q ef bare f s i) = st_visited h q ef bare f (layer_search.truncate s) i"
  by (simp add: st_visited_def st_taken_def Let_def layer_search.defs)

lemma truncate_foldl:
  "layer_search.truncate (foldl (st_visited h q ef bare f) s ids) = foldl (st_visited h q ef bare f) (layer_search.truncate s) ids"
  by (induction ids arbitrary: s) (simp_all add: truncate_visited)

lemma truncate_iter:
  "layer_search.truncate (st_iter h q (ef_construction h) False False None s) = bl_iter h q 0 (layer_search.truncate s)"
  by (simp add: st_iter_def bl_iter_def truncate_foldl st_popped_def Let_def) (simp add: layer_search.defs)

lemma bl_st_loop:
  assumes wf: "links_wf h" and ef: "1 \<le> ef_construction h"
    and "st_inv h q (ef_construction h) False None s" and "layer_inv h q ep 0 (layer_search.truncate s)"
  shows "bl_loop h q 0 (layer_search.truncate s)
    = bindE (st_loop h q (ef_construction h) False False None None s) (\<lambda>t. Inr (layer_search.truncate t))"
  using assms(3,4)
proof (induction "search_work s" arbitrary: s rule: less_induct)
  case less
  have act: "active_stop False (None :: ('b, 'a) stop_condition option) = None" by (simp add: active_stop_def)
  note st = st_loop_unfold [OF wf act less.prems(1), where metrics = False]
  note bl = bl_loop_unfold [OF wf ef less.prems(2)]
  have same: "ls_cand (layer_search.truncate s) = ls_cand s" "ls_lb (layer_search.truncate s) = ls_lb s"
    "ls_top (layer_search.truncate s) = ls_top s"
    by (simp_all add: layer_search.defs)
  show ?case
  proof (cases "ls_cand s = [] \<or> (ls_lb s < - fst (pq_top (ls_cand s)) \<and> length (ls_top s) = ef_construction h)")
    case True
    then show ?thesis using st(1) bl(1) by (simp add: same st_stops_def)
  next
    case False
    then have c: "ls_cand s \<noteq> []" by blast
    have "bl_loop h q 0 (layer_search.truncate (st_iter h q (ef_construction h) False False None s))
      = bindE (st_loop h q (ef_construction h) False False None None (st_iter h q (ef_construction h) False False None s))
          (\<lambda>t. Inr (layer_search.truncate t))"
      using bl(2) c by (intro less.hyps search_work_iter [OF wf less.prems(1) c] st(2)) (simp_all add: same truncate_iter)
    then show ?thesis using False st(1) bl(1) by (auto simp: same st_stops_def truncate_iter)
  qed
qed

text \<open>
  The two copies of the best-first search agree: on the base layer the construction search returns
  what the query search returns for \<open>ef = ef_construction\<close> without a filter.
\<close>

theorem searchBaseLayer_query_search:
  assumes wf: "links_wf h" and ef: "1 \<le> ef_construction h" and ep: "ep < cur_element_count h"
  shows "searchBaseLayer env h ep q 0
    = bindE (searchBaseLayerST env False False h ep q (ef_construction h) None None ()) (\<lambda>(top, _, h').
        Inr (top, h\<lparr>vl_pool := vl_pool h'\<rparr>))"
proof -
  obtain vl vpool where vl: "getFreeVisitedList (vl_junk env) (vl_pool h) = (vl, vpool)" by fastforce
  have "pool_ok (max_elements h) (vl_pool h)" using wf by (simp add: links_wf_def)
  note ok = getFreeVisitedList_ok(2) [OF this vl]
  have act: "active_stop False (None :: (unit, 'a) stop_condition option) = None" by (simp add: active_stop_def)
  let ?s = "st_start env h q False None ep vl ()"
  obtain t where t: "st_loop h q (ef_construction h) False False None None ?s = Inr t"
    using st_loop_rule [OF wf act st_start_inv [OF wf ep ok], where P = "\<lambda>_. True"] by blast
  have "bl_loop h q 0 (layer_search.truncate ?s) = Inr (layer_search.truncate t)"
    by (simp add: t bl_st_loop [OF wf ef st_start_inv [OF wf ep ok] layer_inv_start [OF wf ep _ ok]])
  then show ?thesis
    unfolding searchBaseLayer_start [OF wf ep vl, where st = "()"] searchBaseLayerST_start [OF wf ep act vl]
    by (simp add: t layer_search.defs)
qed

theorem searchBaseLayer_query_search_witness:
  "searchBaseLayer demo_env hn_demo 0 [29] 0
    = bindE (searchBaseLayerST demo_env False False hn_demo 0 [29] 2 None None ()) (\<lambda>(top, _, h').
        Inr (top, hn_demo\<lparr>vl_pool := vl_pool h'\<rparr>))"
  using searchBaseLayer_query_search [OF hn_demo_links_wf, of 0 demo_env "[29]"]
  by (simp add: hn_demo_params hn_demo_fields)

end
