(* ===== verification/Hnsw_Insert.thy ===== *)
theory Hnsw_Insert
  imports Hnsw_Layer
begin

text \<open>
  \<open>hnswlib/hnswalg.h\<close>, the operations that change the graph: the neighbour selection
  (\<open>getNeighborsByHeuristic2\<close>), \<open>mutuallyConnectNewElement\<close>, \<open>updatePoint\<close> with
  \<open>repairConnectionsForUpdate\<close>, the two \<open>addPoint\<close> methods and \<open>checkIntegrity\<close>.

  An exception ends the operation and the model keeps no partly changed index. The iteration order of a
  \<open>std::unordered_set\<close> and the random draws come from the environment record.
\<close>

subsection \<open>Selecting neighbours\<close>

definition data_dist :: "'d hnsw \<Rightarrow> tableint \<Rightarrow> tableint \<Rightarrow> hnsw_error + 'd" where
  "data_dist h i j = bindE (elem_at h i) (\<lambda>a. bindE (elem_at h j) (\<lambda>b. Inr (hn_fstdistfunc h (e_data a) (e_data b))))"

text \<open>The loop over \<open>return_list\<close> that decides whether a candidate is good.\<close>

fun heuristic_good ::
    "'d::linordered_ab_group_add hnsw \<Rightarrow> 'd \<times> tableint \<Rightarrow> ('d \<times> tableint) list \<Rightarrow> hnsw_error + bool" where
  "heuristic_good h curent_pair [] = Inr True"
| "heuristic_good h curent_pair (second_pair # return_list) =
     bindE (data_dist h (snd second_pair) (snd curent_pair)) (\<lambda>curdist.
       if curdist < - fst curent_pair then Inr False else heuristic_good h curent_pair return_list)"

function heuristic_loop ::
    "'d::linordered_ab_group_add hnsw \<Rightarrow> nat \<Rightarrow> ('d \<times> tableint) list \<Rightarrow> ('d \<times> tableint) list
      \<Rightarrow> hnsw_error + ('d \<times> tableint) list" where
  "heuristic_loop h M queue_closest return_list =
     (if queue_closest = [] then Inr return_list
      else if M \<le> length return_list then Inr return_list
      else let curent_pair = pq_top queue_closest in
        bindE (heuristic_good h curent_pair return_list) (\<lambda>good.
          heuristic_loop h M (pq_pop pair_less queue_closest) (if good then return_list @ [curent_pair] else return_list)))"
  by pat_completeness auto
termination
  by (relation "measure (\<lambda>(h, M, q, r). length q)") (auto simp: heap_simps)

declare heuristic_loop.simps [simp del]

definition getNeighborsByHeuristic2 ::
    "'d::linordered_ab_group_add hnsw \<Rightarrow> ('d \<times> tableint) list \<Rightarrow> nat \<Rightarrow> hnsw_error + ('d \<times> tableint) list" where
  "getNeighborsByHeuristic2 h top_candidates M =
     (if length top_candidates < M then Inr top_candidates
      else let queue_closest = foldl (\<lambda>q p. pq_push pair_less (- fst p, snd p) q) [] (pq_drain CompareByFirst top_candidates) in
        bindE (heuristic_loop h M queue_closest []) (\<lambda>return_list.
          Inr (foldl (\<lambda>q p. pq_push CompareByFirst (- fst p, snd p) q) [] return_list)))"

subsection \<open>Connecting an element\<close>

definition level_of :: "'d hnsw \<Rightarrow> tableint \<Rightarrow> hnsw_error + nat" where
  "level_of h i = (if i < length (element_levels h) then Inr (element_levels h ! i) else Inl Bad_access)"

definition write_slots :: "tableint list \<Rightarrow> linklist \<Rightarrow> hnsw_error + linklist" where
  "write_slots ids ll =
     (if length ids \<le> length (ll_slots ll) then Inr (ll\<lparr>ll_slots := ids @ drop (length ids) (ll_slots ll)\<rparr>)
      else Inl Bad_access)"

text \<open>The loop that writes the links of \<open>cur_c\<close> itself.\<close>

definition write_own_link ::
    "'d hnsw \<Rightarrow> tableint list \<Rightarrow> nat \<Rightarrow> bool \<Rightarrow> linklist \<Rightarrow> nat \<Rightarrow> hnsw_error + linklist" where
  "write_own_link h selectedNeighbors level isUpdate ll idx =
     bindE (guardE (idx < length (ll_slots ll)) Bad_access) (\<lambda>_.
     if ll_slots ll ! idx \<noteq> 0 \<and> \<not> isUpdate then Inl (Throw ''Possible memory corruption'')
     else bindE (level_of h (selectedNeighbors ! idx)) (\<lambda>l.
       if l < level then Inl (Throw ''Trying to make a link on a non-existent level'')
       else Inr (ll\<lparr>ll_slots := (ll_slots ll)[idx := selectedNeighbors ! idx]\<rparr>)))"

definition header_nonzero :: "linklist \<Rightarrow> bool" where
  "header_nonzero ll \<longleftrightarrow> ll_count ll \<noteq> 0 \<or> ll_mark ll \<noteq> 0 \<or> ll_pad ll \<noteq> 0"

definition write_own_links ::
    "'d hnsw \<Rightarrow> tableint \<Rightarrow> tableint list \<Rightarrow> nat \<Rightarrow> bool \<Rightarrow> hnsw_error + 'd hnsw" where
  "write_own_links h cur_c selectedNeighbors level isUpdate =
     bindE (get_linklist_at_level h cur_c level) (\<lambda>ll_cur.
     if header_nonzero ll_cur \<and> \<not> isUpdate
     then Inl (Throw ''The newly inserted element should have blank link list'')
     else bindE (foldE (write_own_link h selectedNeighbors level isUpdate)
                   (setListCount (length selectedNeighbors) ll_cur) [0..<length selectedNeighbors]) (\<lambda>ll_cur.
       Inr (put_linklist_at_level h cur_c level ll_cur)))"

text \<open>The candidates for the list of a full neighbour.\<close>

definition push_candidate ::
    "'d::linordered_ab_group_add hnsw \<Rightarrow> tableint \<Rightarrow> ('d \<times> tableint) list \<Rightarrow> tableint \<Rightarrow> hnsw_error + ('d \<times> tableint) list" where
  "push_candidate h other candidates i =
     bindE (data_dist h i other) (\<lambda>d. Inr (pq_push CompareByFirst (d, i) candidates))"

definition connect_back ::
    "tableint \<Rightarrow> nat \<Rightarrow> bool \<Rightarrow> 'd::linordered_ab_group_add hnsw \<Rightarrow> tableint \<Rightarrow> hnsw_error + 'd hnsw" where
  "connect_back cur_c level isUpdate h other =
     (let Mcurmax = (if level \<noteq> 0 then maxM h else maxM0 h) in
      bindE (get_linklist_at_level h other level) (\<lambda>ll_other.
      let sz_link_list_other = getListCount ll_other in
      if Mcurmax < sz_link_list_other then Inl (Throw ''Bad value of sz_link_list_other'')
      else if other = cur_c then Inl (Throw ''Trying to connect an element to itself'')
      else bindE (level_of h other) (\<lambda>l.
      if l < level then Inl (Throw ''Trying to make a link on a non-existent level'')
      else bindE (link_ids ll_other) (\<lambda>ids.
      let is_cur_c_present = (isUpdate \<and> cur_c \<in> set ids) in
      if is_cur_c_present then Inr h
      else if sz_link_list_other < Mcurmax then
        bindE (guardE (sz_link_list_other < length (ll_slots ll_other)) Bad_access) (\<lambda>_.
          Inr (put_linklist_at_level h other level
                 (setListCount (sz_link_list_other + 1)
                    (ll_other\<lparr>ll_slots := (ll_slots ll_other)[sz_link_list_other := cur_c]\<rparr>))))
      else
        bindE (data_dist h cur_c other) (\<lambda>d_max.
        bindE (foldE (push_candidate h other) (pq_push CompareByFirst (d_max, cur_c) []) ids) (\<lambda>candidates.
        bindE (getNeighborsByHeuristic2 h candidates Mcurmax) (\<lambda>candidates.
        let kept = map snd (pq_drain CompareByFirst candidates) in
        bindE (write_slots kept ll_other) (\<lambda>ll_other.
          Inr (put_linklist_at_level h other level (setListCount (length kept) ll_other))))))))))"

definition mutuallyConnectNewElement ::
    "'d::linordered_ab_group_add hnsw \<Rightarrow> tableint \<Rightarrow> ('d \<times> tableint) list \<Rightarrow> nat \<Rightarrow> bool \<Rightarrow> hnsw_error + tableint \<times> 'd hnsw" where
  "mutuallyConnectNewElement h cur_c top_candidates level isUpdate =
     bindE (getNeighborsByHeuristic2 h top_candidates (hnM h)) (\<lambda>top_candidates.
     if hnM h < length top_candidates
     then Inl (Throw ''Should be not be more than M_ candidates returned by the heuristic'')
     else let selectedNeighbors = map snd (pq_drain CompareByFirst top_candidates) in
       bindE (guardE (selectedNeighbors \<noteq> []) Empty_container) (\<lambda>_.
       let next_closest_entry_point = last selectedNeighbors in
       bindE (write_own_links h cur_c selectedNeighbors level isUpdate) (\<lambda>h.
       bindE (foldE (connect_back cur_c level isUpdate) h selectedNeighbors) (\<lambda>h.
         Inr (next_closest_entry_point, h)))))"

subsection \<open>Updating an element\<close>

text \<open>The loop of \<open>repairConnectionsForUpdate\<close> over the levels.\<close>

definition push_other :: "tableint \<Rightarrow> ('d::linorder \<times> tableint) list \<Rightarrow> 'd \<times> tableint \<Rightarrow> ('d \<times> tableint) list" where
  "push_other i q p = (if snd p \<noteq> i then pq_push CompareByFirst p q else q)"

definition add_deleted_entry ::
    "'d::linordered_ab_group_add hnsw \<Rightarrow> byte list \<Rightarrow> tableint \<Rightarrow> ('d \<times> tableint) list \<Rightarrow> hnsw_error + ('d \<times> tableint) list" where
  "add_deleted_entry h data_point ep top_candidates =
     bindE (elem_at h ep) (\<lambda>e.
       let q = pq_push CompareByFirst (hn_fstdistfunc h data_point (e_data e), ep) top_candidates
       in Inr (if ef_construction h < length q then pq_pop CompareByFirst q else q))"

definition repair_level ::
    "'d::linordered_ab_group_add hnsw_env \<Rightarrow> byte list \<Rightarrow> tableint \<Rightarrow> tableint \<Rightarrow> tableint \<times> 'd hnsw \<Rightarrow> nat
      \<Rightarrow> hnsw_error + tableint \<times> 'd hnsw" where
  "repair_level env dataPoint entryPointInternalId dataPointInternalId s level =
     bindE (searchBaseLayer env (snd s) (fst s) dataPoint level) (\<lambda>(topCandidates, h).
     let filteredTopCandidates = foldl (push_other dataPointInternalId) [] (pq_drain CompareByFirst topCandidates) in
     if filteredTopCandidates \<noteq> [] then
       bindE (isMarkedDeleted h entryPointInternalId) (\<lambda>epDeleted.
       bindE (if epDeleted then add_deleted_entry h dataPoint entryPointInternalId filteredTopCandidates
              else Inr filteredTopCandidates) (\<lambda>filteredTopCandidates.
         mutuallyConnectNewElement h dataPointInternalId filteredTopCandidates level True))
     else Inr (fst s, h))"

definition repairConnectionsForUpdate ::
    "'d::linordered_ab_group_add hnsw_env \<Rightarrow> 'd hnsw \<Rightarrow> byte list \<Rightarrow> tableint \<Rightarrow> tableint \<Rightarrow> nat \<Rightarrow> int \<Rightarrow> hnsw_error + 'd hnsw" where
  "repairConnectionsForUpdate env h dataPoint entryPointInternalId dataPointInternalId dataPointLevel maxLevel =
     bindE (if int dataPointLevel < maxLevel
            then bindE (elem_at h entryPointInternalId) (\<lambda>e.
                 bindE (greedy_down False h dataPoint dataPointLevel (nat maxLevel)
                   \<lparr>g_obj = entryPointInternalId, g_dist = hn_fstdistfunc h dataPoint (e_data e), g_hops = 0, g_comps = 0\<rparr>) (\<lambda>g.
                 Inr (g_obj g)))
            else Inr entryPointInternalId) (\<lambda>currObj.
     if maxLevel < int dataPointLevel
     then Inl (Throw ''Level of item to be updated cannot be bigger than max level'')
     else bindE (foldE (repair_level env dataPoint entryPointInternalId dataPointInternalId) (currObj, h)
                   (rev [0..<Suc dataPointLevel])) (\<lambda>s. Inr (snd s)))"

text \<open>
  \<open>updatePoint\<close>, for one layer: collect the one-hop neighbours that are drawn (\<open>sNeigh\<close>) and all candidates
  (\<open>sCand\<close>), then choose new links for each of the former.
\<close>

definition collect_hop ::
    "'d hnsw_env \<Rightarrow> 'd hnsw \<Rightarrow> nat \<Rightarrow> real \<Rightarrow> tableint list \<times> tableint list \<times> nat \<Rightarrow> tableint
      \<Rightarrow> hnsw_error + tableint list \<times> tableint list \<times> nat" where
  "collect_hop env h layer updateNeighborProbability s elOneHop =
     (case s of (sCand, sNeigh, draws) \<Rightarrow>
        let sCand = uset_insert elOneHop sCand in
        if updateNeighborProbability < update_draw env draws then Inr (sCand, sNeigh, draws + 1)
        else bindE (getConnectionsWithLock h elOneHop layer) (\<lambda>listTwoHop.
          Inr (foldl (\<lambda>c el. uset_insert el c) sCand listTwoHop, uset_insert elOneHop sNeigh, draws + 1)))"

definition consider_candidate ::
    "'d::linordered_ab_group_add hnsw \<Rightarrow> tableint \<Rightarrow> nat \<Rightarrow> ('d \<times> tableint) list \<Rightarrow> tableint \<Rightarrow> hnsw_error + ('d \<times> tableint) list" where
  "consider_candidate h neigh elementsToKeep candidates cand =
     (if cand = neigh then Inr candidates
      else bindE (data_dist h neigh cand) (\<lambda>distance.
        if length candidates < elementsToKeep then Inr (pq_push CompareByFirst (distance, cand) candidates)
        else bindE (guardE (candidates \<noteq> []) Empty_container) (\<lambda>_.
          Inr (if distance < fst (pq_top candidates)
               then pq_push CompareByFirst (distance, cand) (pq_pop CompareByFirst candidates) else candidates))))"

definition update_neighbour ::
    "'d::linordered_ab_group_add hnsw_env \<Rightarrow> nat \<Rightarrow> tableint list \<Rightarrow> 'd hnsw \<Rightarrow> tableint \<Rightarrow> hnsw_error + 'd hnsw" where
  "update_neighbour env layer sCand h neigh =
     (let size = (if neigh \<in> set sCand then length sCand - 1 else length sCand);
          elementsToKeep = min (ef_construction h) size
      in bindE (foldE (consider_candidate h neigh elementsToKeep) [] (uset_iter env sCand)) (\<lambda>candidates.
         bindE (getNeighborsByHeuristic2 h candidates (if layer = 0 then maxM0 h else maxM h)) (\<lambda>candidates.
         bindE (get_linklist_at_level h neigh layer) (\<lambda>ll_cur.
         let ids = map snd (pq_drain CompareByFirst candidates) in
         bindE (write_slots ids (setListCount (length ids) ll_cur)) (\<lambda>ll_cur.
           Inr (put_linklist_at_level h neigh layer ll_cur))))))"

definition update_layer ::
    "'d::linordered_ab_group_add hnsw_env \<Rightarrow> tableint \<Rightarrow> real \<Rightarrow> 'd hnsw \<Rightarrow> nat \<Rightarrow> hnsw_error + 'd hnsw" where
  "update_layer env internalId updateNeighborProbability h layer =
     bindE (getConnectionsWithLock h internalId layer) (\<lambda>listOneHop.
     if listOneHop = [] then Inr h
     else bindE (foldE (collect_hop env h layer updateNeighborProbability) ([internalId], [], update_draws h) listOneHop)
       (\<lambda>(sCand, sNeigh, draws).
       foldE (update_neighbour env layer sCand) (h\<lparr>update_draws := draws\<rparr>) (uset_iter env sNeigh)))"

definition updatePoint ::
    "'d::linordered_ab_group_add hnsw_env \<Rightarrow> 'd hnsw \<Rightarrow> byte list \<Rightarrow> tableint \<Rightarrow> real \<Rightarrow> hnsw_error + 'd hnsw" where
  "updatePoint env h dataPoint internalId updateNeighborProbability =
     bindE (setData h internalId dataPoint) (\<lambda>h.
     let maxLevelCopy = maxlevel h; entryPointCopy = enterpoint_node h in
     if entryPointCopy = internalId \<and> cur_element_count h = 1 then Inr h
     else bindE (level_of h internalId) (\<lambda>elemLevel.
       bindE (foldE (update_layer env internalId updateNeighborProbability) h [0..<Suc elemLevel]) (\<lambda>h.
         repairConnectionsForUpdate env h dataPoint entryPointCopy internalId elemLevel maxLevelCopy)))"

subsection \<open>Adding an element\<close>

definition blank_links :: "nat \<Rightarrow> linklist" where
  "blank_links n = \<lparr>ll_count = 0, ll_mark = 0, ll_pad = 0, ll_slots = replicate n 0\<rparr>"

text \<open>The new element's own memory: cleared, then label and vector; and the link lists of its upper levels.\<close>

definition init_element ::
    "'d hnsw_env \<Rightarrow> 'd hnsw \<Rightarrow> tableint \<Rightarrow> byte list \<Rightarrow> labeltype \<Rightarrow> nat \<Rightarrow> hnsw_error + 'd hnsw" where
  "init_element env h cur_c data_point label curlevel =
     bindE (elem_at h cur_c) (\<lambda>_.
     let h = put_elem h cur_c \<lparr>e_links = blank_links (maxM0 h), e_data = take (hn_data_size h) data_point, e_label = label\<rparr> in
     if curlevel \<noteq> 0 then
       bindE (guardE (malloc_ok env (size_links_per_element h * curlevel + 1))
         (Throw ''Not enough memory: addPoint failed to allocate linklist'')) (\<lambda>_.
         Inr (h\<lparr>linkLists := (linkLists h)[cur_c := replicate curlevel (blank_links (maxM h))]\<rparr>))
     else Inr h)"

definition insert_level ::
    "'d::linordered_ab_group_add hnsw_env \<Rightarrow> byte list \<Rightarrow> tableint \<Rightarrow> tableint \<Rightarrow> bool \<Rightarrow> int \<Rightarrow> tableint \<times> 'd hnsw \<Rightarrow> nat
      \<Rightarrow> hnsw_error + tableint \<times> 'd hnsw" where
  "insert_level env data_point cur_c enterpoint_copy epDeleted maxlevelcopy s level =
     (if maxlevelcopy < int level then Inl (Throw ''Level error'')
      else bindE (searchBaseLayer env (snd s) (fst s) data_point level) (\<lambda>(top_candidates, h).
        bindE (if epDeleted then add_deleted_entry h data_point enterpoint_copy top_candidates
               else Inr top_candidates) (\<lambda>top_candidates.
          mutuallyConnectNewElement h cur_c top_candidates level False)))"

definition link_new_element ::
    "'d::linordered_ab_group_add hnsw_env \<Rightarrow> 'd hnsw \<Rightarrow> byte list \<Rightarrow> tableint \<Rightarrow> nat \<Rightarrow> int \<Rightarrow> hnsw_error + 'd hnsw" where
  "link_new_element env h data_point cur_c curlevel maxlevelcopy =
     (let enterpoint_copy = enterpoint_node h in
      bindE (if int curlevel < maxlevelcopy
             then bindE (elem_at h enterpoint_copy) (\<lambda>e.
                  bindE (greedy_down True h data_point curlevel (nat maxlevelcopy)
                    \<lparr>g_obj = enterpoint_copy, g_dist = hn_fstdistfunc h data_point (e_data e), g_hops = 0, g_comps = 0\<rparr>) (\<lambda>g.
                  Inr (g_obj g)))
             else Inr enterpoint_copy) (\<lambda>currObj.
      bindE (isMarkedDeleted h enterpoint_copy) (\<lambda>epDeleted.
      bindE (foldE (insert_level env data_point cur_c enterpoint_copy epDeleted maxlevelcopy) (currObj, h)
               (rev [0..<nat (min (int curlevel) maxlevelcopy + 1)])) (\<lambda>s. Inr (snd s)))))"

definition addPoint_level ::
    "'d::linordered_ab_group_add hnsw_env \<Rightarrow> 'd hnsw \<Rightarrow> byte list \<Rightarrow> labeltype \<Rightarrow> int \<Rightarrow> hnsw_error + tableint \<times> 'd hnsw" where
  "addPoint_level env h data_point label level =
     (case label_lookup h label of
        Some existingInternalId \<Rightarrow>
          bindE (isMarkedDeleted h existingInternalId) (\<lambda>del.
          if allow_replace_deleted h \<and> del
          then Inl (Throw ''Can't use addPoint to update deleted elements if replacement of deleted elements is enabled.'')
          else bindE (if del then unmarkDeletedInternal h existingInternalId else Inr h) (\<lambda>h.
            bindE (updatePoint env h data_point existingInternalId 1) (\<lambda>h. Inr (existingInternalId, h))))
      | None \<Rightarrow>
          if max_elements h \<le> cur_element_count h
          then Inl (Throw ''The number of elements exceeds the specified limit'')
          else let cur_c = cur_element_count h;
                   h = h\<lparr>cur_element_count := cur_c + 1, label_lookup := (label_lookup h)(label \<mapsto> cur_c)\<rparr>;
                   (curlevel, h) = getRandomLevel env h;
                   curlevel = (if 0 < level then nat level else curlevel);
                   h = h\<lparr>element_levels := (element_levels h)[cur_c := curlevel]\<rparr>;
                   maxlevelcopy = maxlevel h
               in bindE (init_element env h cur_c data_point label curlevel) (\<lambda>h.
                  bindE (if enterpoint_node h \<noteq> no_node
                         then link_new_element env h data_point cur_c curlevel maxlevelcopy
                         else Inr (h\<lparr>enterpoint_node := 0, maxlevel := int curlevel\<rparr>)) (\<lambda>h.
                  Inr (cur_c, if maxlevelcopy < int curlevel
                              then h\<lparr>enterpoint_node := cur_c, maxlevel := int curlevel\<rparr> else h))))"

definition addPoint ::
    "'d::linordered_ab_group_add hnsw_env \<Rightarrow> 'd hnsw \<Rightarrow> byte list \<Rightarrow> labeltype \<Rightarrow> bool \<Rightarrow> hnsw_error + 'd hnsw" where
  "addPoint env h data_point label replace_deleted =
     (if \<not> allow_replace_deleted h \<and> replace_deleted
      then Inl (Throw ''Replacement of deleted elements is disabled in constructor'')
      else if \<not> replace_deleted then bindE (addPoint_level env h data_point label (-1)) (\<lambda>(_, h). Inr h)
      else if deleted_elements h = [] then bindE (addPoint_level env h data_point label (-1)) (\<lambda>(_, h). Inr h)
      else let internal_id_replaced = hd (uset_iter env (deleted_elements h));
               h = h\<lparr>deleted_elements := removeAll internal_id_replaced (deleted_elements h)\<rparr>
           in bindE (getExternalLabel h internal_id_replaced) (\<lambda>label_replaced.
              bindE (setExternalLabel h internal_id_replaced label) (\<lambda>h.
              let h = h\<lparr>label_lookup := (label_lookup h)(label_replaced := None, label \<mapsto> internal_id_replaced)\<rparr> in
              bindE (unmarkDeletedInternal h internal_id_replaced) (\<lambda>h.
                updatePoint env h data_point internal_id_replaced 1))))"

subsection \<open>Integrity check\<close>

text \<open>
  The state of the two outer loops is the number of checked connections and the inbound counters. The printed
  minimum and maximum are the result.
\<close>

definition check_link ::
    "'d hnsw \<Rightarrow> tableint \<Rightarrow> nat \<times> nat list \<Rightarrow> tableint \<Rightarrow> hnsw_error + nat \<times> nat list" where
  "check_link h i s d =
     bindE (guardE (d < cur_element_count h) Assertion) (\<lambda>_.
     bindE (guardE (d \<noteq> i) Assertion) (\<lambda>_.
       Inr (fst s + 1, (snd s)[d := snd s ! d + 1])))"

definition check_level :: "'d hnsw \<Rightarrow> tableint \<Rightarrow> nat \<times> nat list \<Rightarrow> nat \<Rightarrow> hnsw_error + nat \<times> nat list" where
  "check_level h i s l =
     bindE (getConnectionsWithLock h i l) (\<lambda>ids.
     bindE (foldE (check_link h i) s ids) (\<lambda>s.
     bindE (guardE (length (foldl (\<lambda>c el. uset_insert el c) [] ids) = length ids) Assertion) (\<lambda>_. Inr s)))"

definition check_element :: "'d hnsw \<Rightarrow> nat \<times> nat list \<Rightarrow> tableint \<Rightarrow> hnsw_error + nat \<times> nat list" where
  "check_element h s i =
     bindE (level_of h i) (\<lambda>top_level. foldE (check_level h i) s [0..<Suc top_level])"

definition checkIntegrity :: "'d hnsw \<Rightarrow> hnsw_error + nat \<times> (nat \<times> nat) option" where
  "checkIntegrity h =
     bindE (foldE (check_element h) (0, replicate (cur_element_count h) 0) [0..<cur_element_count h]) (\<lambda>(checked, inbound).
     if 1 < cur_element_count h
     then bindE (foldE (\<lambda>mm i. bindE (guardE (0 < inbound ! i) Assertion) (\<lambda>_.
                     Inr (min (inbound ! i) (fst mm), max (inbound ! i) (snd mm))))
                  (inbound ! 0, inbound ! 0) [0..<cur_element_count h]) (\<lambda>mm. Inr (checked, Some mm))
     else Inr (checked, None))"

end
