(* ===== verification/Hnsw_Heuristic.thy ===== *)
theory Hnsw_Heuristic
  imports Hnsw_Insert
begin

text \<open>
  The neighbour selection of \<open>Hnsw_Insert\<close>: \<open>getNeighborsByHeuristic2\<close> is a greedy selection from the
  candidates in the order of their distance, which takes a candidate unless one already taken
  is closer to it than the query.
\<close>

subsection \<open>Greedy selection\<close>

fun pick :: "('a \<Rightarrow> 'a \<Rightarrow> bool) \<Rightarrow> nat \<Rightarrow> 'a list \<Rightarrow> 'a list \<Rightarrow> 'a list" where
  "pick close M ret [] = ret"
| "pick close M ret (c # cs) =
     (if M \<le> length ret then ret
      else pick close M (if \<forall>p\<in>set ret. \<not> close p c then ret @ [c] else ret) cs)"

definition picked where
  "picked close R M cs res D \<longleftrightarrow> mset cs = mset res + D \<and> length res \<le> M \<and> sorted_wrt R res
     \<and> sorted_wrt (\<lambda>a b. \<not> close a b) res
     \<and> (\<forall>d\<in>#D. length res = M \<and> (\<forall>a\<in>set res. R a d) \<or> (\<exists>a\<in>set res. R a d \<and> close a d))"

lemma pick_spec:
  assumes "sorted_wrt R (pre @ cs)" and "picked close R M pre ret D" and "\<forall>a\<in>set pre. \<forall>b\<in>set cs. R a b"
  shows "\<exists>D'. picked close R M (pre @ cs) (pick close M ret cs) D'"
  using assms
proof (induction cs arbitrary: pre ret D)
  case Nil
  then show ?case by (simp only: pick.simps append_Nil2) blast
next
  case (Cons c cs)
  note pk = Cons.prems(2) [unfolded picked_def]
  have sub: "set ret \<subseteq> set pre" using pk by (metis Un_iff set_mset_mset set_mset_union subsetI)
  show ?case
  proof (cases "M \<le> length ret")
    case True
    then have "picked close R M (pre @ c # cs) ret (D + mset (c # cs))"
      using pk Cons.prems(3) sub by (auto simp: picked_def)
    then show ?thesis using True by auto
  next
    case False
    let ?good = "\<forall>p\<in>set ret. \<not> close p c"
    let ?ret = "if ?good then ret @ [c] else ret"
    have step: "picked close R M (pre @ [c]) ?ret (if ?good then D else add_mset c D)"
    proof (cases ?good)
      case True
      then show ?thesis
        using pk Cons.prems(3) sub False by (auto simp: picked_def sorted_wrt_append)
    next
      case bad: False
      then show ?thesis using pk Cons.prems(3) sub by (auto simp: picked_def)
    qed
    have "\<exists>D'. picked close R M ((pre @ [c]) @ cs) (pick close M ?ret cs) D'"
      by (rule Cons.IH [OF _ step]) (use Cons.prems(1,3) in \<open>auto simp: sorted_wrt_append\<close>)
    then show ?thesis using False by simp
  qed
qed

lemma picked_Nil: "picked close R M [] [] {#}"
  by (simp add: picked_def)

lemma pick_prefix: "set ret \<subseteq> set (pick close M ret cs)"
proof (induction cs arbitrary: ret)
  case (Cons c cs)
  show ?case
    using Cons.IH [of "if \<forall>p\<in>set ret. \<not> close p c then ret @ [c] else ret"]
    by (auto split: if_splits)
qed simp

lemma pick_first: "0 < M \<Longrightarrow> c \<in> set (pick close M [] (c # cs))"
  using pick_prefix [of "[c]" close M cs] by simp

subsection \<open>Queues filled from a list\<close>

context strict_weak_order
begin

lemma foldl_push:
  "is_heap lt q \<Longrightarrow> is_heap lt (foldl (\<lambda>q p. pq_push lt (f p) q) q xs)
    \<and> mset (foldl (\<lambda>q p. pq_push lt (f p) q) q xs) = mset q + image_mset f (mset xs)"
  by (induction xs arbitrary: q) (simp_all add: heap_pq_push heap_simps)

end

subsection \<open>The heuristic\<close>

definition pair_dist :: "'d hnsw \<Rightarrow> tableint \<Rightarrow> tableint \<Rightarrow> 'd" where
  "pair_dist h i j = hn_fstdistfunc h (e_data (data_level0 h ! i)) (e_data (data_level0 h ! j))"

lemma data_dist_ok:
  "links_wf h \<Longrightarrow> i < cur_element_count h \<Longrightarrow> j < cur_element_count h \<Longrightarrow> data_dist h i j = Inr (pair_dist h i j)"
  by (simp add: data_dist_def elem_at_ok pair_dist_def)

text \<open>A kept pair shadows a candidate if it is closer to it than the query (distances are negated in the queue).\<close>

definition shadows :: "'d::linordered_ab_group_add hnsw \<Rightarrow> 'd \<times> tableint \<Rightarrow> 'd \<times> tableint \<Rightarrow> bool" where
  "shadows h a b \<longleftrightarrow> pair_dist h (snd a) (snd b) < - fst b"

lemma heuristic_good_ok:
  assumes "links_wf h" and "snd c < cur_element_count h" and "\<forall>p\<in>set ret. snd p < cur_element_count h"
  shows "heuristic_good h c ret = Inr (\<forall>p\<in>set ret. \<not> shadows h p c)"
  using assms(3) by (induction ret) (auto simp: data_dist_ok [OF assms(1) _ assms(2)] shadows_def)

lemma heuristic_loop_pick:
  assumes wf: "links_wf h" and "\<forall>p\<in>set q \<union> set ret. snd p < cur_element_count h"
  shows "heuristic_loop h M q ret = Inr (pick (shadows h) M ret (pq_drain pair_less q))"
  using assms(2)
proof (induction "length q" arbitrary: q ret)
  case 0
  then show ?case by (simp add: heuristic_loop.simps pq_drain.simps)
next
  case (Suc n)
  then have q: "q \<noteq> []" by auto
  have n: "n = length (pq_pop pair_less q)" using Suc.hyps(2) by (simp add: heap_simps)
  have "mset (pq_pop pair_less q) \<subseteq># mset q" by (simp add: mset_pq_pop [OF q])
  then have pop: "set (pq_pop pair_less q) \<subseteq> set q" by (metis set_mset_mono set_mset_mset)
  have c: "snd (pq_top q) < cur_element_count h" using Suc.prems by_pair.std.top_in [OF q] by auto
  have good: "heuristic_good h (pq_top q) ret = Inr (\<forall>p\<in>set ret. \<not> shadows h p (pq_top q))"
    by (rule heuristic_good_ok [OF wf c]) (use Suc.prems in auto)
  let ?ret = "if \<forall>p\<in>set ret. \<not> shadows h p (pq_top q) then ret @ [pq_top q] else ret"
  have "heuristic_loop h M (pq_pop pair_less q) ?ret = Inr (pick (shadows h) M ?ret (pq_drain pair_less (pq_pop pair_less q)))"
    using Suc.prems pop c by (intro Suc.hyps(1) [OF n]) auto
  then show ?case
    using q good by (simp add: heuristic_loop.simps [of h M q] pq_drain.simps [of _ q] Let_def cong: if_cong)
qed

definition neg_pair :: "'d::uminus \<times> 'i \<Rightarrow> 'd \<times> 'i" where
  "neg_pair p = (- fst p, snd p)"

lemma neg_pair_simps [simp]:
  "neg_pair (neg_pair (p :: 'd::group_add \<times> 'i)) = p" "fst (neg_pair p) = - fst p" "snd (neg_pair p) = snd p"
  by (simp_all add: neg_pair_def)

text \<open>The selection, with what was left out; distances are not negated any more.\<close>

definition selection :: "'d::linordered_ab_group_add hnsw \<Rightarrow> nat \<Rightarrow> ('d \<times> tableint) multiset \<Rightarrow> ('d \<times> tableint) multiset \<Rightarrow> bool" where
  "selection h M C K \<longleftrightarrow> K \<subseteq># C \<and> size K \<le> M
     \<and> (\<forall>a\<in>#K. \<forall>b\<in>#K. fst a < fst b \<longrightarrow> fst b \<le> pair_dist h (snd a) (snd b))
     \<and> (\<forall>c\<in>#C - K. size K = M \<and> (\<forall>a\<in>#K. fst a \<le> fst c)
          \<or> (\<exists>a\<in>#K. fst a \<le> fst c \<and> pair_dist h (snd a) (snd c) < fst c))"

lemma sorted_wrt_pairs:
  assumes "sorted_wrt P xs" and "a \<in> set xs" "b \<in> set xs" and "a \<noteq> b"
  shows "P a b \<or> P b a"
  using assms by (induction xs) auto

lemma sorted_wrt_conj: "sorted_wrt P xs \<Longrightarrow> sorted_wrt Q xs \<Longrightarrow> sorted_wrt (\<lambda>a b. P a b \<and> Q a b) xs"
  by (induction xs) auto

lemma picked_selection:
  assumes "picked (shadows h) (\<lambda>a b. \<not> pair_less a b) M cs res D"
  shows "selection h M (image_mset neg_pair (mset cs)) (image_mset neg_pair (mset res))"
proof -
  note pk = assms [unfolded picked_def]
  have diff: "image_mset neg_pair (mset cs) - image_mset neg_pair (mset res) = image_mset neg_pair D" using pk by simp
  have div: "\<not> shadows h a b" if "a \<in> set res" "b \<in> set res" "fst b < fst a" for a b
  proof -
    have "sorted_wrt (\<lambda>a b. \<not> pair_less a b \<and> \<not> shadows h a b) res"
      using pk by (simp add: sorted_wrt_conj)
    then show ?thesis
      using sorted_wrt_pairs [of "\<lambda>a b. \<not> pair_less a b \<and> \<not> shadows h a b" res a b] that by (auto simp: pair_less_def)
  qed
  have le: "fst b \<le> fst a" if "\<not> pair_less a b" for a b :: "'a \<times> tableint" using that by (auto simp: pair_less_def)
  show ?thesis
    unfolding selection_def diff
  proof (intro conjI ballI impI)
    show "image_mset neg_pair (mset res) \<subseteq># image_mset neg_pair (mset cs)" using pk by simp
    show "size (image_mset neg_pair (mset res)) \<le> M" using pk by simp
  next
    fix a b assume "a \<in># image_mset neg_pair (mset res)" "b \<in># image_mset neg_pair (mset res)" "fst a < fst b"
    then show "fst b \<le> pair_dist h (snd a) (snd b)" using div by (fastforce simp: shadows_def not_less)
  next
    fix c assume "c \<in># image_mset neg_pair D"
    then obtain d where d: "d \<in># D" "c = neg_pair d" by auto
    then have "length res = M \<and> (\<forall>a\<in>set res. \<not> pair_less a d) \<or> (\<exists>a\<in>set res. \<not> pair_less a d \<and> shadows h a d)"
      using pk by blast
    then show "size (image_mset neg_pair (mset res)) = M \<and> (\<forall>a\<in>#image_mset neg_pair (mset res). fst a \<le> fst c)
      \<or> (\<exists>a\<in>#image_mset neg_pair (mset res). fst a \<le> fst c \<and> pair_dist h (snd a) (snd c) < fst c)"
    proof
      assume full: "length res = M \<and> (\<forall>a\<in>set res. \<not> pair_less a d)"
      then have "\<forall>a\<in>set res. fst d \<le> fst a" using le by blast
      then show ?thesis using full d(2) by simp
    next
      assume "\<exists>a\<in>set res. \<not> pair_less a d \<and> shadows h a d"
      then obtain a where "a \<in> set res" "fst d \<le> fst a" "shadows h a d" using le by blast
      then show ?thesis using d(2) by (intro disjI2 bexI [of _ "neg_pair a"]) (simp_all add: shadows_def)
    qed
  qed
qed

lemma heuristic_total:
  assumes wf: "links_wf h" and heap: "is_heap CompareByFirst tq" and ids: "\<forall>p\<in>set tq. snd p < cur_element_count h"
  shows "\<exists>r. getNeighborsByHeuristic2 h tq M = Inr r \<and> is_heap CompareByFirst r
    \<and> mset r \<subseteq># mset tq \<and> length r \<le> M \<and> (tq \<noteq> [] \<longrightarrow> 0 < M \<longrightarrow> r \<noteq> [])
    \<and> (if length tq < M then r = tq else selection h M (mset tq) (mset r))"
proof (cases "length tq < M")
  case True
  then show ?thesis using heap by (simp add: getNeighborsByHeuristic2_def)
next
  case False
  define q where "q = foldl (\<lambda>q p. pq_push pair_less (- fst p, snd p) q) [] (pq_drain CompareByFirst tq)"
  define cs where "cs = pq_drain pair_less q"
  define ret where "ret = pick (shadows h) M [] cs"
  define r where "r = foldl (\<lambda>q p. pq_push CompareByFirst (- fst p, snd p) q) [] ret"
  have neg: "(\<lambda>p. (- fst p, snd p)) = (neg_pair :: 'a \<times> tableint \<Rightarrow> _)" by (rule ext) (simp add: neg_pair_def)
  have q: "is_heap pair_less q" "mset q = image_mset neg_pair (mset tq)"
    using by_pair.foldl_push [of "[]" "\<lambda>p :: 'a \<times> tableint. (- fst p, snd p)"] by (simp_all add: q_def by_pair.std.invar_empty heap_simps neg)
  have r: "is_heap CompareByFirst r" "mset r = image_mset neg_pair (mset ret)"
    using by_first.foldl_push [of "[]" "\<lambda>p :: 'a \<times> tableint. (- fst p, snd p)"] by (simp_all add: r_def by_first.std.invar_empty neg)
  have set_q: "set q = neg_pair ` set tq" using arg_cong [OF q(2), of set_mset] by simp
  have run: "getNeighborsByHeuristic2 h tq M = Inr r"
    using False heuristic_loop_pick [OF wf, of q "[]" M] ids
    unfolding getNeighborsByHeuristic2_def q_def [symmetric] Let_def by (simp add: set_q r_def ret_def cs_def)
  have "sorted_wrt (\<lambda>a b. \<not> pair_less a b) ([] @ cs)" using by_pair.sorted_pq_drain [OF q(1)] by (simp add: cs_def)
  from pick_spec [OF this picked_Nil] obtain D where
    "picked (shadows h) (\<lambda>a b. \<not> pair_less a b) M cs ret D" by (auto simp: ret_def)
  from picked_selection [OF this] have sel: "selection h M (mset tq) (mset r)"
    by (simp add: r heap_simps q cs_def image_mset.compositionality comp_def)
  then have sub: "mset r \<subseteq># mset tq" "length r \<le> M" by (simp_all add: selection_def flip: size_mset)
  have "r \<noteq> []" if ne: "tq \<noteq> []" and M: "0 < M"
  proof -
    have "length cs = length tq" using arg_cong [OF q(2), of size] by (simp add: cs_def heap_simps)
    then obtain c cs' where "cs = c # cs'" using ne by (cases cs) auto
    then have "c \<in> set ret" using pick_first [OF M, of c "shadows h" cs'] by (simp add: ret_def)
    then have "mset r \<noteq> {#}" unfolding r(2) by auto
    then show ?thesis by (metis mset.simps(1))
  qed
  then show ?thesis using False run r(1) sel sub by auto
qed

text \<open>
  \<^bold>\<open>C19.\<close> The neighbour selection returns on valid candidates. If there are fewer than \<open>M\<close> it keeps them all. Otherwise it
  keeps at most \<open>M\<close> of them such that (a) two kept candidates are not closer to each other than the
  farther one is to the query, (b) a candidate is left out only if a kept one that is at least as close to the
  query is closer to it than the query, or if \<open>M\<close> candidates at least as close were kept; and a nearest
  candidate is always kept.
\<close>

theorem heuristic_selects_diverse:
  assumes wf: "links_wf h" and heap: "is_heap CompareByFirst tq" and ids: "\<forall>p\<in>set tq. snd p < cur_element_count h"
    and M: "0 < M"
  shows "\<exists>r. getNeighborsByHeuristic2 h tq M = Inr r \<and> is_heap CompareByFirst r
    \<and> (if length tq < M then r = tq else selection h M (mset tq) (mset r))
    \<and> (tq \<noteq> [] \<longrightarrow> (\<exists>p\<in>set r. \<forall>c\<in>set tq. fst p \<le> fst c))"
proof -
  obtain r where r: "getNeighborsByHeuristic2 h tq M = Inr r" "is_heap CompareByFirst r" "mset r \<subseteq># mset tq"
    "tq \<noteq> [] \<longrightarrow> r \<noteq> []" "if length tq < M then r = tq else selection h M (mset tq) (mset r)"
    using heuristic_total [OF wf heap ids, of M] M by auto
  have "\<exists>p\<in>set r. \<forall>c\<in>set tq. fst p \<le> fst c" if ne: "tq \<noteq> []"
  proof -
    have "\<exists>p\<in>set r. \<forall>c\<in>set r. fst p \<le> fst c"
      using r(4) ne ex_min_if_finite [of "fst ` set r"] by (force simp: not_less)
    then obtain p where p: "p \<in> set r" "\<forall>c\<in>set r. fst p \<le> fst c" by blast
    have "fst p \<le> fst c" if "c \<in> set tq" for c
    proof (cases "c \<in> set r")
      case False
      then have "count (mset r) c = 0" "0 < count (mset tq) c" using that by simp_all
      then have "c \<in># mset tq - mset r" by (metis in_diff_count)
      then have "\<not> length tq < M" using r(5) by auto
      then have "selection h M (mset tq) (mset r)" using r(5) by simp
      then have "(\<forall>a\<in>set r. fst a \<le> fst c) \<or> (\<exists>a\<in>set r. fst a \<le> fst c)"
        using \<open>c \<in># mset tq - mset r\<close> unfolding selection_def by auto
      then show ?thesis using p by (meson order_trans)
    qed (use p in blast)
    then show ?thesis using p(1) by blast
  qed
  then show ?thesis using r by blast
qed

theorem heuristic_selects_diverse_witness:
  "\<exists>r. getNeighborsByHeuristic2 hn_demo [(13, 0), (3, 1)] 1 = Inr r \<and> selection hn_demo 1 {#(13, 0), (3, 1)#} (mset r)"
proof -
  have "is_heap CompareByFirst [(13 :: int, 0 :: tableint), (3, 1)]"
    by (auto simp: is_heap_def CompareByFirst_def less_Suc_eq)
  then show ?thesis
    using heuristic_selects_diverse [OF hn_demo_links_wf, of "[(13, 0), (3, 1)]" 1] by (auto simp: hn_demo_fields)
qed

end
