(* ===== verification/Hnsw_Connect.thy ===== *)
theory Hnsw_Connect
  imports Hnsw_Heuristic
begin

text \<open>
  Rewriting link lists keeps the graph well formed: one list (\<open>relink\<close>), and then
  \<open>mutuallyConnectNewElement\<close>, which writes the new element's list and those of its
  neighbours on one level.
\<close>

subsection \<open>What linking leaves alone\<close>

definition bare_elem :: "elem \<Rightarrow> elem" where
  "bare_elem e = e\<lparr>e_links := (e_links e)\<lparr>ll_count := 0, ll_slots := []\<rparr>\<rparr>"

definition graph_frame :: "'d hnsw \<Rightarrow> 'd hnsw \<Rightarrow> bool" where
  "graph_frame h h' \<longleftrightarrow> (\<exists>d ls vp n m u. map bare_elem d = map bare_elem (data_level0 h)
     \<and> h' = h\<lparr>data_level0 := d, linkLists := ls, vl_pool := vp, metric_hops := n, metric_distance_computations := m,
              update_draws := u\<rparr>)"

lemma graph_frame_refl [simp]: "graph_frame h h"
  unfolding graph_frame_def
  by (intro exI [of _ "data_level0 h"] exI [of _ "linkLists h"] exI [of _ "vl_pool h"] exI [of _ "metric_hops h"]
      exI [of _ "metric_distance_computations h"] exI [of _ "update_draws h"]) simp

lemma graph_frame_trans: "graph_frame h h1 \<Longrightarrow> graph_frame h1 h2 \<Longrightarrow> graph_frame h h2"
  unfolding graph_frame_def by fastforce

lemma bare_elem_fields:
  assumes "bare_elem e = bare_elem e'"
  shows "e_data e = e_data e'" "e_label e = e_label e'" "elem_deleted e = elem_deleted e'"
proof -
  show "e_data e = e_data e'" "e_label e = e_label e'"
    using arg_cong [OF assms, of e_data] arg_cong [OF assms, of e_label] by (simp_all add: bare_elem_def)
  show "elem_deleted e = elem_deleted e'"
    using arg_cong [OF assms, of "\<lambda>e. ll_mark (e_links e)"] by (simp add: bare_elem_def elem_deleted_def)
qed

lemma graph_frame_fields:
  assumes "graph_frame h h'"
  shows "max_elements h' = max_elements h" "cur_element_count h' = cur_element_count h"
    "hnM h' = hnM h" "maxM h' = maxM h" "maxM0 h' = maxM0 h" "ef_construction h' = ef_construction h"
    "element_levels h' = element_levels h" "enterpoint_node h' = enterpoint_node h" "maxlevel h' = maxlevel h"
    "label_lookup h' = label_lookup h" "num_deleted h' = num_deleted h" "deleted_elements h' = deleted_elements h"
    "allow_replace_deleted h' = allow_replace_deleted h" "hn_fstdistfunc h' = hn_fstdistfunc h"
    "hn_data_size h' = hn_data_size h" "hnEf h' = hnEf h" "length (data_level0 h') = length (data_level0 h)"
    "size_data_per_element h' = size_data_per_element h" "size_links_per_element h' = size_links_per_element h"
    "size_links_level0 h' = size_links_level0 h" "offsetData h' = offsetData h" "offsetLevel0 h' = offsetLevel0 h"
    "label_offset h' = label_offset h" "hnMult h' = hnMult h"
proof -
  show "length (data_level0 h') = length (data_level0 h)"
    using assms unfolding graph_frame_def by (auto dest: arg_cong [of _ _ length])
qed (use assms in \<open>auto simp: graph_frame_def\<close>)

lemma graph_frame_elem:
  assumes "graph_frame h h'" and "i < length (data_level0 h)"
  shows "e_data (data_level0 h' ! i) = e_data (data_level0 h ! i)" "e_label (data_level0 h' ! i) = e_label (data_level0 h ! i)"
    "elem_deleted (data_level0 h' ! i) = elem_deleted (data_level0 h ! i)"
proof -
  have "map bare_elem (data_level0 h') = map bare_elem (data_level0 h)"
    using assms(1) by (auto simp: graph_frame_def)
  then have "bare_elem (data_level0 h' ! i) = bare_elem (data_level0 h ! i)"
    using assms by (metis graph_frame_fields(17) nth_map)
  from bare_elem_fields [OF this] show
    "e_data (data_level0 h' ! i) = e_data (data_level0 h ! i)" "e_label (data_level0 h' ! i) = e_label (data_level0 h ! i)"
    "elem_deleted (data_level0 h' ! i) = elem_deleted (data_level0 h ! i)" .
qed

lemma graph_frame_elems:
  assumes "graph_frame h h'" and "links_wf h"
  shows "deleted_ids h' = deleted_ids h"
    "i < cur_element_count h \<Longrightarrow> elem_dist h' q i = elem_dist h q i"
proof -
  have b: "i < length (data_level0 h)" if "i < cur_element_count h" for i using assms(2) that by (simp add: links_wf_def)
  note f = graph_frame_fields [OF assms(1)] and e = graph_frame_elem [OF assms(1)]
  show "deleted_ids h' = deleted_ids h" using b by (auto simp: deleted_ids_def f e)
  show "i < cur_element_count h \<Longrightarrow> elem_dist h' q i = elem_dist h q i" using b by (simp add: elem_dist_def f e)
qed

lemma graph_frame_hnsw_wf:
  assumes "graph_frame h h'" and "links_wf h'" and wf: "hnsw_wf h"
  shows "hnsw_wf h'"
proof -
  have links: "links_wf h" using wf by (simp add: hnsw_wf_def)
  have b: "i < length (data_level0 h)" if "i < cur_element_count h" for i using links that by (simp add: links_wf_def)
  note f = graph_frame_fields [OF assms(1)]
  have "deleted_wf h'"
    using wf by (simp add: hnsw_wf_def deleted_wf_def f graph_frame_elems [OF assms(1) links])
  then show ?thesis
    by (intro hnsw_wf_cong [OF assms(2) wf]) (simp_all add: f graph_frame_elem [OF assms(1)] b)
qed

lemma search_graph_frame: "search_frame h h' \<Longrightarrow> graph_frame h h'"
  unfolding search_frame_def graph_frame_def
  by (elim exE conjE) (intro exI [of _ "data_level0 h"] exI [of _ "linkLists h"] exI [of _ "vl_pool h'"] exI [of _ "metric_hops h'"]
      exI [of _ "metric_distance_computations h'"] exI [of _ "update_draws h"], simp)

lemma put_linklist_graph_frame:
  assumes "ll_mark ll = ll_mark (at_level h i level)" and "ll_pad ll = ll_pad (at_level h i level)"
  shows "graph_frame h (put_linklist_at_level h i level ll)"
proof (cases "level = 0")
  case True
  let ?e = "(data_level0 h ! i)\<lparr>e_links := ll\<rparr>"
  have "bare_elem ?e = bare_elem (data_level0 h ! i)"
    using assms True by (simp add: bare_elem_def at_level_def)
  then have "map bare_elem ((data_level0 h)[i := ?e]) = map bare_elem (data_level0 h)"
    by (metis list_update_beyond list_update_id map_update not_le_imp_less nth_map)
  then show ?thesis
    unfolding graph_frame_def put_linklist_at_level_def put_elem_def using True
    by (intro exI [of _ "(data_level0 h)[i := ?e]"] exI [of _ "linkLists h"] exI [of _ "vl_pool h"] exI [of _ "metric_hops h"]
      exI [of _ "metric_distance_computations h"] exI [of _ "update_draws h"]) simp
next
  case False
  then show ?thesis
    unfolding graph_frame_def put_linklist_at_level_def
    by (intro exI [of _ "data_level0 h"] exI [of _ "(linkLists h)[i := (linkLists h ! i)[level - 1 := ll]]"] exI [of _ "vl_pool h"]
      exI [of _ "metric_hops h"] exI [of _ "metric_distance_computations h"] exI [of _ "update_draws h"]) simp
qed

subsection \<open>Rewriting one list\<close>

text \<open>The links that element \<open>i\<close> may have on a level.\<close>

definition ids_ok :: "'d hnsw \<Rightarrow> tableint \<Rightarrow> nat \<Rightarrow> tableint list \<Rightarrow> bool" where
  "ids_ok h i level ids \<longleftrightarrow> distinct ids \<and> length ids \<le> list_cap h level
     \<and> (\<forall>j\<in>set ids. j < cur_element_count h \<and> j \<noteq> i \<and> level \<le> lvl h j)"

text \<open>\<open>h'\<close> is \<open>h\<close> with other links for element \<open>i\<close> on one level.\<close>

definition relinked :: "'d hnsw \<Rightarrow> tableint \<Rightarrow> nat \<Rightarrow> tableint list \<Rightarrow> 'd hnsw \<Rightarrow> bool" where
  "relinked h i level ids h' \<longleftrightarrow> links_wf h' \<and> graph_frame h h' \<and> nbrs h' i level = ids
     \<and> (\<forall>j l. (j, l) \<noteq> (i, level) \<longrightarrow> at_level h' j l = at_level h j l)"

lemma list_cap_small: "links_wf h \<Longrightarrow> list_cap h level < 2 ^ 16"
  by (auto simp: links_wf_def list_cap_def)

lemma relink:
  assumes wf: "links_wf h" and i: "i < cur_element_count h" "level \<le> lvl h i" and ids: "ids_ok h i level ids"
    and ll: "ll_count ll = length ids" "take (length ids) (ll_slots ll) = ids" "length (ll_slots ll) = list_cap h level"
      "ll_mark ll = ll_mark (at_level h i level)" "ll_pad ll = ll_pad (at_level h i level)"
      "set (ll_slots ll) \<subseteq> set ids \<union> set (ll_slots (at_level h i level))"
  shows "relinked h i level ids (put_linklist_at_level h i level ll)"
proof -
  have "ids_of ll = ids" using ll by (simp add: ids_of_def)
  moreover have "s < 2 ^ 32" if "s \<in> set (ll_slots ll)" for s
    using that ll(6) ids links_wf_ll_ok [OF wf i] wf by (fastforce simp: ll_ok_def ids_ok_def links_wf_def)
  ultimately have ok: "ll_ok h i level ll" using ids ll by (simp add: ll_ok_def ids_ok_def)
  show ?thesis
    unfolding relinked_def
    using links_wf_put [OF wf i ok] put_linklist_graph_frame [OF ll(4,5)] at_level_put [OF wf i, of ll] \<open>ids_of ll = ids\<close>
    by (auto simp: nbrs_def)
qed

lemma relinked_ids_ok:
  assumes "graph_frame h h'"
  shows "ids_ok h' j level ids = ids_ok h j level ids" "list_cap h' level = list_cap h level"
  using graph_frame_fields [OF assms] by (simp_all add: ids_ok_def list_cap_def)

lemma slots_length:
  "links_wf h \<Longrightarrow> i < cur_element_count h \<Longrightarrow> level \<le> lvl h i \<Longrightarrow> length (ll_slots (at_level h i level)) = list_cap h level"
  using links_wf_ll_ok [of h i level] by (simp add: ll_ok_def)

text \<open>Writing all slots at once, as the loops over a drained queue do.\<close>

lemma write_slots_relink:
  assumes wf: "links_wf h" and i: "i < cur_element_count h" "level \<le> lvl h i" and ids: "ids_ok h i level ids"
  shows "\<exists>ll. write_slots ids (at_level h i level) = Inr ll
      \<and> relinked h i level ids (put_linklist_at_level h i level (setListCount (length ids) ll))"
    and "\<exists>ll. write_slots ids (setListCount (length ids) (at_level h i level)) = Inr ll
      \<and> relinked h i level ids (put_linklist_at_level h i level ll)"
proof -
  have len: "length ids \<le> list_cap h level" using ids by (simp add: ids_ok_def)
  have mod: "length ids mod 2 ^ 16 = length ids" using len list_cap_small [OF wf, of level] by simp
  note sl = slots_length [OF wf i]
  have sub: "set (drop (length ids) (ll_slots (at_level h i level))) \<subseteq> set ids \<union> set (ll_slots (at_level h i level))"
    using set_drop_subset by fastforce
  show "\<exists>ll. write_slots ids (at_level h i level) = Inr ll
      \<and> relinked h i level ids (put_linklist_at_level h i level (setListCount (length ids) ll))"
    using len sl mod sub by (auto simp: write_slots_def setListCount_def intro!: relink [OF wf i ids])
  show "\<exists>ll. write_slots ids (setListCount (length ids) (at_level h i level)) = Inr ll
      \<and> relinked h i level ids (put_linklist_at_level h i level ll)"
    using len sl mod sub by (auto simp: write_slots_def setListCount_def intro!: relink [OF wf i ids])
qed

subsection \<open>The element's own list\<close>

lemma level_of_ok: "links_wf h \<Longrightarrow> i < cur_element_count h \<Longrightarrow> level_of h i = Inr (lvl h i)"
  by (simp add: level_of_def links_wf_def)

lemma write_own_fold:
  assumes wf: "links_wf h" and sel: "\<forall>j\<in>set sel. j < cur_element_count h \<and> level \<le> lvl h j"
    and len: "length sel \<le> length (ll_slots ll)" and blank: "upd \<or> ll_slots ll = replicate (length (ll_slots ll)) 0"
  shows "foldE (write_own_link h sel level upd) ll [0..<length sel]
    = Inr (ll\<lparr>ll_slots := sel @ drop (length sel) (ll_slots ll)\<rparr>)"
proof -
  define st where "st k = ll\<lparr>ll_slots := take k sel @ drop k (ll_slots ll)\<rparr>" for k
  have "\<exists>t. foldE (write_own_link h sel level upd) ll [0..<length sel] = Inr t \<and> t = st (length sel)"
  proof (rule foldE_upt_total)
    show "ll = st 0" by (simp add: st_def)
  next
    fix k t assume k: "0 \<le> k" "k < length sel" and t: "t = st k"
    have slot: "k < length (ll_slots (st k))" "ll_slots (st k) ! k = ll_slots ll ! k"
      using k len by (simp_all add: st_def nth_append)
    have j: "sel ! k < cur_element_count h" "\<not> lvl h (sel ! k) < level" using sel nth_mem [OF k(2)] by force+
    have "upd \<or> ll_slots ll ! k = 0" using blank k(2) len by (metis nth_replicate order_less_le_trans)
    then have "write_own_link h sel level upd t k = Inr ((st k)\<lparr>ll_slots := (ll_slots (st k))[k := sel ! k]\<rparr>)"
      using slot j by (auto simp: write_own_link_def t level_of_ok [OF wf])
    moreover have "(ll_slots (st k))[k := sel ! k] = take (Suc k) sel @ drop (Suc k) (ll_slots ll)"
      using k len by (simp add: st_def list_update_append take_Suc_conv_app_nth Cons_nth_drop_Suc [symmetric])
    ultimately show "\<exists>t'. write_own_link h sel level upd t k = Inr t' \<and> t' = st (Suc k)"
      by (simp add: st_def)
  qed simp
  then show ?thesis by (simp add: st_def)
qed

lemma write_own_links_ok:
  assumes wf: "links_wf h" and i: "i < cur_element_count h" "level \<le> lvl h i" and ids: "ids_ok h i level sel"
    and blank: "upd \<or> at_level h i level = blank_links (list_cap h level)"
  shows "\<exists>h'. write_own_links h i sel level upd = Inr h' \<and> relinked h i level sel h'"
proof -
  let ?ll = "at_level h i level"
  note sl = slots_length [OF wf i]
  have len: "length sel \<le> length (ll_slots ?ll)" using ids sl by (simp add: ids_ok_def)
  have mod: "length sel mod 2 ^ 16 = length sel" using len sl list_cap_small [OF wf, of level] by simp
  have "upd \<or> ll_slots ?ll = replicate (length (ll_slots ?ll)) 0" using blank sl by (auto simp: blank_links_def)
  then have fold: "foldE (write_own_link h sel level upd) (setListCount (length sel) ?ll) [0..<length sel]
      = Inr ((setListCount (length sel) ?ll)\<lparr>ll_slots := sel @ drop (length sel) (ll_slots ?ll)\<rparr>)"
    using write_own_fold [OF wf, of sel level "setListCount (length sel) ?ll" upd] ids len
    by (simp add: ids_ok_def setListCount_def)
  have "\<not> (header_nonzero ?ll \<and> \<not> upd)" using blank by (auto simp: header_nonzero_def blank_links_def)
  then have "write_own_links h i sel level upd
      = Inr (put_linklist_at_level h i level ((setListCount (length sel) ?ll)\<lparr>ll_slots := sel @ drop (length sel) (ll_slots ?ll)\<rparr>))"
    by (simp add: write_own_links_def get_linklist_ok [OF wf i] fold)
  moreover have "relinked h i level sel
      (put_linklist_at_level h i level ((setListCount (length sel) ?ll)\<lparr>ll_slots := sel @ drop (length sel) (ll_slots ?ll)\<rparr>))"
    using len sl mod set_drop_subset [of "length sel" "ll_slots ?ll"]
    by (intro relink [OF wf i ids]) (auto simp: setListCount_def)
  ultimately show ?thesis by blast
qed

subsection \<open>Linking back\<close>

lemma is_heap_single [simp]: "is_heap lt [x]"
  by (simp add: is_heap_def)

lemma push_candidates:
  assumes wf: "links_wf h" and other: "other < cur_element_count h"
    and "\<forall>i\<in>set ids. i < cur_element_count h" and "is_heap CompareByFirst q"
  shows "\<exists>r. foldE (push_candidate h other) q ids = Inr r \<and> is_heap CompareByFirst r
    \<and> mset r = mset q + mset (map (\<lambda>i. (pair_dist h i other, i)) ids)"
  using assms(3,4)
proof (induction ids arbitrary: q)
  case (Cons i ids)
  then show ?case
    using Cons.IH [of "pq_push CompareByFirst (pair_dist h i other, i) q"] other
    by (simp add: push_candidate_def data_dist_ok [OF wf] by_first.heap_pq_push heap_simps)
qed simp

text \<open>The ids of a queue that a selection made smaller.\<close>

lemma map_snd_mset:
  "mset r \<subseteq># mset q \<Longrightarrow> distinct (map snd q) \<Longrightarrow> distinct (map snd (pq_drain lt r))"
  "mset r \<subseteq># mset q \<Longrightarrow> set (map snd (pq_drain lt r)) \<subseteq> snd ` set q"
proof -
  assume sub: "mset r \<subseteq># mset q"
  then show "set (map snd (pq_drain lt r)) \<subseteq> snd ` set q"
    using set_mset_mono [OF sub] by (auto simp: heap_simps)
  assume dis: "distinct (map snd q)"
  have "mset (map snd (pq_drain lt r)) \<subseteq># mset (map snd q)"
    using image_mset_subseteq_mono [OF sub, of snd] by (simp add: heap_simps)
  moreover obtain ys where "mset (map snd q) = mset (map snd (pq_drain lt r)) + mset ys"
    using calculation by (metis ex_mset subset_mset.less_eqE)
  then have "distinct (map snd q) = distinct (map snd (pq_drain lt r) @ ys)"
    by (intro mset_eq_imp_distinct_iff) simp
  ultimately show "distinct (map snd (pq_drain lt r))" using dis by simp
qed

lemma relinked_same:
  "links_wf h \<Longrightarrow> relinked h i level (nbrs h i level) h"
  by (simp add: relinked_def)

lemma connect_back_ok:
  assumes wf: "links_wf h" and other: "other < cur_element_count h" "level \<le> lvl h other"
    and c: "c < cur_element_count h" "level \<le> lvl h c" "other \<noteq> c" and new: "upd \<or> c \<notin> set (nbrs h other level)"
  shows "\<exists>h' ids. connect_back c level upd h other = Inr h' \<and> relinked h other level ids h'
    \<and> set ids \<subseteq> insert c (set (nbrs h other level))
    \<and> (length (nbrs h other level) < list_cap h level \<longrightarrow> set ids = insert c (set (nbrs h other level)))"
proof -
  let ?ll = "at_level h other level" and ?ids = "nbrs h other level" and ?cap = "list_cap h level"
  have ok: "ll_ok h other level ?ll" by (rule links_wf_ll_ok [OF wf other])
  have cap: "(if level \<noteq> 0 then maxM h else maxM0 h) = ?cap" by (simp add: list_cap_def)
  have ids_ok: "ids_ok h other level ?ids" using nbrs_ok [OF wf other] by (auto simp: ids_ok_def)
  have count: "getListCount ?ll = length ?ids" "length ?ids \<le> ?cap"
    using ok by (simp_all add: getListCount_def nbrs_def ids_of_def ll_ok_def)
  have run: "connect_back c level upd h other =
      (if upd \<and> c \<in> set ?ids then Inr h
       else if length ?ids < ?cap then
         Inr (put_linklist_at_level h other level
                (setListCount (length ?ids + 1) (?ll\<lparr>ll_slots := (ll_slots ?ll)[length ?ids := c]\<rparr>)))
       else bindE (foldE (push_candidate h other) (pq_push CompareByFirst (pair_dist h c other, c) []) ?ids) (\<lambda>cs.
         bindE (getNeighborsByHeuristic2 h cs ?cap) (\<lambda>cs.
         let kept = map snd (pq_drain CompareByFirst cs) in
         bindE (write_slots kept ?ll) (\<lambda>ll. Inr (put_linklist_at_level h other level (setListCount (length kept) ll))))))"
    unfolding connect_back_def Let_def cap using other c(3) count ok
    by (simp add: get_linklist_ok [OF wf other] level_of_ok [OF wf other(1)]
        link_ids_ok [OF ok] nbrs_def [symmetric] data_dist_ok [OF wf c(1) other(1)] ll_ok_def)
  consider (present) "upd \<and> c \<in> set ?ids" | (room) "\<not> (upd \<and> c \<in> set ?ids)" "length ?ids < ?cap"
    | (full) "\<not> (upd \<and> c \<in> set ?ids)" "\<not> length ?ids < ?cap" by blast
  then show ?thesis
  proof cases
    case present
    then show ?thesis using run relinked_same [OF wf, of other level] by auto
  next
    case room
    let ?new = "setListCount (length ?ids + 1) (?ll\<lparr>ll_slots := (ll_slots ?ll)[length ?ids := c]\<rparr>)"
    have "ids_ok h other level (?ids @ [c])" using ids_ok room new c by (auto simp: ids_ok_def)
    moreover have "take (length (?ids @ [c])) (ll_slots ?new) = ?ids @ [c]"
    proof -
      have "?ids = take (length ?ids) (ll_slots ?ll)" using count by (simp add: nbrs_def ids_of_def getListCount_def)
      then show ?thesis
        using room slots_length [OF wf other] by (simp add: setListCount_def take_Suc_conv_app_nth)
    qed
    ultimately have "relinked h other level (?ids @ [c]) (put_linklist_at_level h other level ?new)"
      using room slots_length [OF wf other] list_cap_small [OF wf, of level] set_update_subset_insert [of "ll_slots ?ll" "length ?ids" c]
      by (intro relink [OF wf other]) (auto simp: setListCount_def)
    then show ?thesis using run room by (intro exI conjI) auto
  next
    case full
    then have c_new: "c \<notin> set ?ids" using new by blast
    obtain q where q: "foldE (push_candidate h other) (pq_push CompareByFirst (pair_dist h c other, c) []) ?ids = Inr q"
      "is_heap CompareByFirst q" "mset q = mset (map (\<lambda>i. (pair_dist h i other, i)) (c # ?ids))"
      using push_candidates [OF wf other(1), of ?ids "pq_push CompareByFirst (pair_dist h c other, c) []"]
        ids_ok by (auto simp: ids_ok_def)
    have q_ids: "mset (map snd q) = mset (c # ?ids)"
      using arg_cong [OF q(3), of "image_mset snd"] by (simp add: image_mset.compositionality comp_def)
    have dis: "distinct (map snd q)"
      using mset_eq_imp_distinct_iff [OF q_ids] c_new ids_ok by (simp add: ids_ok_def)
    have set_q: "snd ` set q = insert c (set ?ids)" using arg_cong [OF q_ids, of set_mset] by simp
    have q_ok: "\<forall>j\<in>snd ` set q. j < cur_element_count h \<and> j \<noteq> other \<and> level \<le> lvl h j"
      unfolding set_q using c ids_ok by (auto simp: ids_ok_def)
    then have "\<forall>p\<in>set q. snd p < cur_element_count h" by simp
    from heuristic_total [OF wf q(2) this, of ?cap] obtain r where
      r: "getNeighborsByHeuristic2 h q ?cap = Inr r" "mset r \<subseteq># mset q" "length r \<le> ?cap" by blast
    let ?kept = "map snd (pq_drain CompareByFirst r)"
    have kept: "set ?kept \<subseteq> snd ` set q" by (rule map_snd_mset(2) [OF r(2)])
    then have "\<forall>j\<in>set ?kept. j < cur_element_count h \<and> j \<noteq> other \<and> level \<le> lvl h j" using q_ok by blast
    then have "ids_ok h other level ?kept"
      using map_snd_mset(1) [OF r(2) dis] r(3) by (simp add: ids_ok_def heap_simps)
    from write_slots_relink(1) [OF wf other this] obtain ll where
      "write_slots ?kept ?ll = Inr ll" "relinked h other level ?kept (put_linklist_at_level h other level (setListCount (length ?kept) ll))"
      by blast
    moreover have "connect_back c level upd h other = Inr (put_linklist_at_level h other level (setListCount (length ?kept) ll))"
      unfolding run using full(2) c_new q(1) r(1) \<open>write_slots ?kept ?ll = Inr ll\<close> by simp
    ultimately show ?thesis using full kept set_q by blast
  qed
qed

subsection \<open>Connecting on one level\<close>

text \<open>Only the links of one level changed, and the graph is still well formed.\<close>

definition level_frame :: "nat \<Rightarrow> 'd hnsw \<Rightarrow> 'd hnsw \<Rightarrow> bool" where
  "level_frame level h h' \<longleftrightarrow> links_wf h' \<and> graph_frame h h'
     \<and> (\<forall>j l. l \<noteq> level \<longrightarrow> at_level h' j l = at_level h j l)"

lemma level_frame_trans: "level_frame level h h1 \<Longrightarrow> level_frame level h1 h2 \<Longrightarrow> level_frame level h h2"
  using graph_frame_trans [of h h1 h2] by (simp add: level_frame_def)

lemma relinked_level_frame: "relinked h i level ids h' \<Longrightarrow> level_frame level h h'"
  by (simp add: relinked_def level_frame_def)

lemma relinked_other: "relinked h i level ids h' \<Longrightarrow> j \<noteq> i \<Longrightarrow> nbrs h' j l = nbrs h j l"
  by (simp add: relinked_def nbrs_def)

lemma connect_fold:
  assumes "links_wf h" and "c < cur_element_count h" "level \<le> lvl h c" and "distinct sel"
    and "\<forall>j\<in>set sel. j < cur_element_count h \<and> j \<noteq> c \<and> level \<le> lvl h j \<and> (upd \<or> c \<notin> set (nbrs h j level))"
  shows "\<exists>h'. foldE (connect_back c level upd) h sel = Inr h' \<and> level_frame level h h'
    \<and> (\<forall>j l. j \<notin> set sel \<longrightarrow> nbrs h' j l = nbrs h j l)
    \<and> (\<forall>j\<in>set sel. set (nbrs h' j level) \<subseteq> insert c (set (nbrs h j level))
         \<and> (length (nbrs h j level) < list_cap h level \<longrightarrow> c \<in> set (nbrs h' j level)))"
  using assms
proof (induction sel arbitrary: h)
  case Nil
  then show ?case by (simp add: level_frame_def)
next
  case (Cons i sel)
  have i: "i < cur_element_count h" "level \<le> lvl h i" "i \<noteq> c" "upd \<or> c \<notin> set (nbrs h i level)" "i \<notin> set sel"
    using Cons.prems by auto
  from connect_back_ok [OF Cons.prems(1) i(1,2) Cons.prems(2,3) i(3,4)] obtain h1 ids where
    1: "connect_back c level upd h i = Inr h1" "relinked h i level ids h1" "set ids \<subseteq> insert c (set (nbrs h i level))"
      "length (nbrs h i level) < list_cap h level \<longrightarrow> set ids = insert c (set (nbrs h i level))" by blast
  have g: "graph_frame h h1" "links_wf h1" "nbrs h1 i level = ids" using 1(2) by (simp_all add: relinked_def)
  note f = graph_frame_fields [OF g(1)]
  note other = relinked_other [OF 1(2)]
  have same: "nbrs h1 j l = nbrs h j l" if "j \<in> set sel" for j l using other [of j] that i(5) by metis
  then have "\<forall>j\<in>set sel. j < cur_element_count h1 \<and> j \<noteq> c \<and> level \<le> lvl h1 j \<and> (upd \<or> c \<notin> set (nbrs h1 j level))"
    using Cons.prems(5) by (simp add: f)
  then obtain h2 where 2: "foldE (connect_back c level upd) h1 sel = Inr h2" "level_frame level h1 h2"
    "\<forall>j l. j \<notin> set sel \<longrightarrow> nbrs h2 j l = nbrs h1 j l"
    "\<forall>j\<in>set sel. set (nbrs h2 j level) \<subseteq> insert c (set (nbrs h1 j level))
       \<and> (length (nbrs h1 j level) < list_cap h1 level \<longrightarrow> c \<in> set (nbrs h2 j level))"
    using Cons.IH [OF g(2)] Cons.prems(2-4) by (auto simp: f)
  have "level_frame level h h2" by (rule level_frame_trans [OF relinked_level_frame [OF 1(2)] 2(2)])
  moreover have "nbrs h2 i level = ids" using 2(3) i(5) g(3) by simp
  ultimately show ?case
    using 1(1,3,4) 2(1,3,4) other same relinked_ids_ok(2) [OF g(1)] by auto
qed

lemma hnM_cap: "links_wf h \<Longrightarrow> hnM h \<le> list_cap h level"
  by (simp add: links_wf_def list_cap_def)

text \<open>What a queue of candidates for element \<open>c\<close> on a level must be.\<close>

definition candidates_ok :: "'d::linorder hnsw \<Rightarrow> tableint \<Rightarrow> nat \<Rightarrow> ('d \<times> tableint) list \<Rightarrow> bool" where
  "candidates_ok h c level tq \<longleftrightarrow> is_heap CompareByFirst tq \<and> distinct (map snd tq)
     \<and> (\<forall>p\<in>set tq. snd p < cur_element_count h \<and> snd p \<noteq> c \<and> level \<le> lvl h (snd p))"

lemma mutuallyConnect_ok:
  assumes wf: "links_wf h" and c: "c < cur_element_count h" "level \<le> lvl h c" and tq: "candidates_ok h c level tq"
    and ne: "tq \<noteq> []" and M: "0 < hnM h"
    and new: "upd \<or> at_level h c level = blank_links (list_cap h level)
      \<and> (\<forall>j<cur_element_count h. level \<le> lvl h j \<longrightarrow> c \<notin> set (nbrs h j level))"
  shows "\<exists>nxt h'. mutuallyConnectNewElement h c tq level upd = Inr (nxt, h') \<and> level_frame level h h'
    \<and> nxt \<in> snd ` set tq \<and> nbrs h' c level \<noteq> [] \<and> set (nbrs h' c level) \<subseteq> snd ` set tq \<and> length (nbrs h' c level) \<le> hnM h
    \<and> (\<forall>j\<in>set (nbrs h' c level). length (nbrs h j level) < list_cap h level \<longrightarrow> c \<in> set (nbrs h' j level))"
proof -
  have heap: "is_heap CompareByFirst tq" "distinct (map snd tq)"
    and ids: "\<forall>p\<in>set tq. snd p < cur_element_count h \<and> snd p \<noteq> c \<and> level \<le> lvl h (snd p)"
    using tq by (simp_all add: candidates_ok_def)
  obtain r where r: "getNeighborsByHeuristic2 h tq (hnM h) = Inr r" "mset r \<subseteq># mset tq" "length r \<le> hnM h" "r \<noteq> []"
    using heuristic_total [OF wf heap(1), of "hnM h"] ids ne M by auto
  define sel where "sel = map snd (pq_drain CompareByFirst r)"
  have sub: "set sel \<subseteq> snd ` set tq" unfolding sel_def by (rule map_snd_mset(2) [OF r(2)])
  have dis: "distinct sel" unfolding sel_def by (rule map_snd_mset(1) [OF r(2) heap(2)])
  have len: "length sel = length r" by (simp add: sel_def heap_simps)
  then have sel_ne: "sel \<noteq> []" using r(4) by auto
  have sel: "\<forall>j\<in>set sel. j < cur_element_count h \<and> j \<noteq> c \<and> level \<le> lvl h j" using sub ids by fastforce
  have "ids_ok h c level sel" using dis sel len r(3) hnM_cap [OF wf, of level] by (simp add: ids_ok_def)
  then obtain h1 where 1: "write_own_links h c sel level upd = Inr h1" "relinked h c level sel h1"
    using write_own_links_ok [OF wf c] new by blast
  have g: "graph_frame h h1" "links_wf h1" "nbrs h1 c level = sel" using 1(2) by (simp_all add: relinked_def)
  note f = graph_frame_fields [OF g(1)]
  have same: "nbrs h1 j l = nbrs h j l" if "j \<in> set sel" for j l using relinked_other [OF 1(2), of j] sel that by blast
  have "\<forall>j\<in>set sel. j < cur_element_count h1 \<and> j \<noteq> c \<and> level \<le> lvl h1 j \<and> (upd \<or> c \<notin> set (nbrs h1 j level))"
    using sel new same by (auto simp: f)
  then obtain h2 where 2: "foldE (connect_back c level upd) h1 sel = Inr h2" "level_frame level h1 h2"
    "\<forall>j l. j \<notin> set sel \<longrightarrow> nbrs h2 j l = nbrs h1 j l"
    "\<forall>j\<in>set sel. length (nbrs h1 j level) < list_cap h1 level \<longrightarrow> c \<in> set (nbrs h2 j level)"
    using connect_fold [OF g(2) _ _ dis, of c level upd] c by (auto simp: f)
  have "nbrs h2 c level = sel" using 2(3) sel g(3) by auto
  moreover have "last sel \<in> snd ` set tq" using sub sel_ne last_in_set by blast
  moreover have "mutuallyConnectNewElement h c tq level upd = Inr (last sel, h2)"
    using r(1,3) sel_ne 1(1) 2(1) by (simp add: mutuallyConnectNewElement_def sel_def Let_def)
  moreover have "level_frame level h h2" by (rule level_frame_trans [OF relinked_level_frame [OF 1(2)] 2(2)])
  ultimately show ?thesis
    using sub sel_ne len r(3) 2(4) same relinked_ids_ok(2) [OF g(1)] by auto
qed

end
