(* ===== verification/Hnsw_Add.thy ===== *)
theory Hnsw_Add
  imports Hnsw_Connect
begin

text \<open>
  \<open>addPoint\<close> for a label that is not in the index: the new element gets memory of its own, is linked on its
  levels from the top down, and may become the entry point. The index stays well formed; the only
  way to fail is the use of an empty candidate list, and only if elements are deleted.
\<close>

subsection \<open>One level\<close>

lemma search_level_frame:
  assumes "search_frame h h'" and "links_wf h"
  shows "level_frame level h h'"
  using search_frame_links_wf [OF assms] search_graph_frame [OF assms(1)] search_frame_fields [OF assms(1)]
  by (simp add: level_frame_def at_level_def)

lemma search_candidates_ok:
  assumes "search_frame h h1" and "is_heap CompareByFirst tq" and "distinct (map snd tq)"
    and "\<forall>p\<in>set tq. snd p < cur_element_count h \<and> snd p \<noteq> c \<and> level \<le> lvl h (snd p)"
  shows "candidates_ok h1 c level tq"
  using assms search_frame_fields [OF assms(1)] by (simp add: candidates_ok_def)

lemma distinct_snd_pop: "distinct (map snd q) \<Longrightarrow> distinct (map snd (pq_pop lt q))"
  and set_pq_pop: "set (pq_pop lt q) \<subseteq> set q"
proof -
  show "distinct (map snd q) \<Longrightarrow> distinct (map snd (pq_pop lt q))"
  proof (cases "q = []")
    case False
    assume "distinct (map snd q)"
    from pq_trim_distinct [OF this, of lt "length q - 1"] False show ?thesis
      by (simp add: pq_trim.simps [of _ _ q] pq_trim_id heap_simps)
  qed (simp add: pq_pop_def)
  show "set (pq_pop lt q) \<subseteq> set q"
  proof (cases "q = []")
    case False
    then show ?thesis using mset_pq_pop [of q lt] by (metis diff_subset_eq_self set_mset_mono set_mset_mset)
  qed (simp add: pq_pop_def)
qed

lemma pq_pop_Nil: "pq_pop lt q = [] \<longleftrightarrow> length q \<le> 1"
  using length_pq_pop [of lt q] by (metis One_nat_def diff_is_0_eq length_0_conv)

text \<open>A deleted entry point joins the candidates.\<close>

lemma add_deleted_entry_ok:
  assumes wf: "links_wf h" and ep: "ep < cur_element_count h" "ep \<noteq> c" "level \<le> lvl h ep"
    and tq: "candidates_ok h c level tq" and new: "ep \<notin> snd ` set tq" and ef: "1 \<le> ef_construction h"
  shows "\<exists>tq'. add_deleted_entry h q ep tq = Inr tq' \<and> candidates_ok h c level tq' \<and> tq' \<noteq> []"
proof -
  let ?q = "pq_push CompareByFirst (hn_fstdistfunc h q (e_data (data_level0 h ! ep)), ep) tq"
  let ?r = "if ef_construction h < length ?q then pq_pop CompareByFirst ?q else ?q"
  have q: "candidates_ok h c level ?q"
    using tq ep new by (auto simp: candidates_ok_def by_first.heap_pq_push distinct_snd_push set_pq_push)
  then have "candidates_ok h c level (pq_pop CompareByFirst ?q)"
    using set_pq_pop [of CompareByFirst ?q] by (auto simp: candidates_ok_def by_first.heap_pq_pop distinct_snd_pop)
  moreover have "?r \<noteq> []" using ef by (auto simp: pq_pop_Nil heap_simps)
  ultimately show ?thesis using q by (auto simp: add_deleted_entry_def elem_at_ok [OF wf ep(1)] Let_def)
qed

lemma mutuallyConnect_empty:
  assumes "0 < hnM h"
  shows "mutuallyConnectNewElement h c [] level upd = Inl Empty_container"
  using assms by (simp add: mutuallyConnectNewElement_def getNeighborsByHeuristic2_def pq_drain.simps)

definition fresh_below :: "'d hnsw \<Rightarrow> tableint \<Rightarrow> nat \<Rightarrow> bool" where
  "fresh_below h c n \<longleftrightarrow> (\<forall>l<n. at_level h c l = blank_links (list_cap h l)
     \<and> (\<forall>j<cur_element_count h. l \<le> lvl h j \<longrightarrow> c \<notin> set (nbrs h j l)))"

definition insertable :: "'d hnsw \<Rightarrow> tableint \<Rightarrow> tableint \<Rightarrow> nat \<Rightarrow> bool" where
  "insertable h c ep n \<longleftrightarrow> links_wf h \<and> 0 < hnM h \<and> 1 \<le> ef_construction h \<and> c < cur_element_count h \<and> n \<le> Suc (lvl h c)
     \<and> ep < cur_element_count h \<and> ep \<noteq> c \<and> n \<le> Suc (lvl h ep) \<and> fresh_below h c n"

definition insert_errors :: "'d hnsw \<Rightarrow> hnsw_error set" where
  "insert_errors h = (if deleted_ids h = {} then {} else {Empty_container})"

lemma level_frame_insertable:
  assumes "level_frame n h h'" and "insertable h c ep (Suc n)"
  shows "insertable h' c ep n"
proof -
  have g: "graph_frame h h'" and at: "\<And>j l. l < n \<Longrightarrow> at_level h' j l = at_level h j l"
    using assms(1) by (auto simp: level_frame_def)
  note f = graph_frame_fields [OF g] and cap = relinked_ids_ok(2) [OF g]
  have "fresh_below h' c n"
    unfolding fresh_below_def
  proof (intro allI impI)
    fix l assume l: "l < n"
    then have "at_level h c l = blank_links (list_cap h l) \<and> (\<forall>j<cur_element_count h. l \<le> lvl h j \<longrightarrow> c \<notin> set (nbrs h j l))"
      using assms(2) by (simp add: insertable_def fresh_below_def)
    then show "at_level h' c l = blank_links (list_cap h' l) \<and> (\<forall>j<cur_element_count h'. l \<le> lvl h' j \<longrightarrow> c \<notin> set (nbrs h' j l))"
      using at [OF l] by (simp add: f cap nbrs_def)
  qed
  then show ?thesis using assms by (auto simp: insertable_def level_frame_def f)
qed

lemma insert_level_ok:
  assumes ins: "insertable h c ep (Suc n)" and obj: "obj < cur_element_count h" "obj \<noteq> c" "n \<le> lvl h obj"
    and max: "int n \<le> ml" and del: "epDeleted \<longleftrightarrow> ep \<in> deleted_ids h"
  shows "safeE (insert_errors h) (\<lambda>(obj', h'). level_frame n h h' \<and> nbrs h' c n \<noteq> []
      \<and> obj' < cur_element_count h \<and> obj' \<noteq> c \<and> n \<le> lvl h obj')
    (insert_level env q c ep epDeleted ml (obj, h) n)"
proof -
  have wf: "links_wf h" and M: "0 < hnM h" and ef: "1 \<le> ef_construction h" and c: "c < cur_element_count h" "n \<le> lvl h c"
    and ep: "ep < cur_element_count h" "ep \<noteq> c" "n \<le> lvl h ep"
    and fresh: "at_level h c n = blank_links (list_cap h n)" "\<forall>j<cur_element_count h. n \<le> lvl h j \<longrightarrow> c \<notin> set (nbrs h j n)"
    using ins by (auto simp: insertable_def fresh_below_def)
  obtain tq h1 where s: "searchBaseLayer env h obj q n = Inr (tq, h1)" "search_frame h h1"
      "is_heap CompareByFirst tq" "distinct (map snd tq)"
      "\<forall>p\<in>set tq. snd p < cur_element_count h \<and> fst p = elem_dist h q (snd p) \<and> snd p \<notin> deleted_ids h \<and> linked_from h obj n (snd p)"
      "obj \<notin> deleted_ids h \<longrightarrow> tq \<noteq> []"
    using searchBaseLayer_finds [OF wf ef obj(1,3)] by blast
  note f1 = search_frame_fields [OF s(2)] and g1 = graph_frame_fields [OF search_graph_frame [OF s(2)]]
  note frame1 = search_level_frame [OF s(2) wf, of n]
  have wf1: "links_wf h1" by (rule search_frame_links_wf [OF s(2) wf])
  have cap1: "list_cap h1 n = list_cap h n" by (rule relinked_ids_ok(2) [OF search_graph_frame [OF s(2)]])
  have "\<forall>p\<in>set tq. snd p < cur_element_count h \<and> snd p \<noteq> c \<and> n \<le> lvl h (snd p)"
    using s(5) obj(2) fresh(2) by (fastforce simp: linked_from_def)
  then have cand: "candidates_ok h1 c n tq" by (rule search_candidates_ok [OF s(2-4)])
  have at1: "at_level h1 c n = at_level h c n" unfolding at_level_def f1 ..
  have connect: "safeE (insert_errors h) (\<lambda>(obj', h'). level_frame n h h' \<and> nbrs h' c n \<noteq> []
      \<and> obj' < cur_element_count h \<and> obj' \<noteq> c \<and> n \<le> lvl h obj') (mutuallyConnectNewElement h1 c tq' n False)"
    if tq': "candidates_ok h1 c n tq'" "tq' \<noteq> []" for tq'
  proof -
    have "\<exists>nxt h'. mutuallyConnectNewElement h1 c tq' n False = Inr (nxt, h') \<and> level_frame n h1 h'
      \<and> nxt \<in> snd ` set tq' \<and> nbrs h' c n \<noteq> [] \<and> set (nbrs h' c n) \<subseteq> snd ` set tq' \<and> length (nbrs h' c n) \<le> hnM h1
      \<and> (\<forall>j\<in>set (nbrs h' c n). length (nbrs h1 j n) < list_cap h1 n \<longrightarrow> c \<in> set (nbrs h' j n))"
      using c M fresh by (intro mutuallyConnect_ok [OF wf1 _ _ tq']) (simp_all add: f1 g1 at1 cap1)
    then obtain nxt h' where "mutuallyConnectNewElement h1 c tq' n False = Inr (nxt, h')" "level_frame n h1 h'"
      "nxt \<in> snd ` set tq'" "nbrs h' c n \<noteq> []" by blast
    then show ?thesis
      using level_frame_trans [OF frame1] tq'(1) by (auto simp: candidates_ok_def f1)
  qed
  show ?thesis
  proof (cases epDeleted)
    case True
    then have "ep \<notin> snd ` set tq" using s(5) del by auto
    then obtain tq' where "add_deleted_entry h1 q ep tq = Inr tq'" "candidates_ok h1 c n tq'" "tq' \<noteq> []"
      using add_deleted_entry_ok [OF wf1 _ ep(2) _ cand, where q = q] ep ef by (auto simp: f1 g1)
    then show ?thesis using connect [of tq'] max True by (simp add: insert_level_def s(1))
  next
    case False
    show ?thesis
    proof (cases "tq = []")
      case True
      then have "deleted_ids h \<noteq> {}" using s(6) by blast
      then show ?thesis
        using False True max M by (simp add: insert_level_def s(1) mutuallyConnect_empty g1 insert_errors_def)
    next
      case ne: False
      then show ?thesis using connect [OF cand] False max by (simp add: insert_level_def s(1))
    qed
  qed
qed

subsection \<open>All levels\<close>

lemma insert_levels_ok:
  assumes "insertable h c ep n" and "obj < cur_element_count h" "obj \<noteq> c" "n \<le> Suc (lvl h obj)" and "int n \<le> ml + 1"
    and del: "epDeleted \<longleftrightarrow> ep \<in> deleted_ids h"
  shows "safeE (insert_errors h) (\<lambda>(obj', h'). links_wf h' \<and> graph_frame h h' \<and> (\<forall>l<n. nbrs h' c l \<noteq> [])
      \<and> (\<forall>l\<ge>n. nbrs h' c l = nbrs h c l))
    (foldE (insert_level env q c ep epDeleted ml) (obj, h) (rev [0..<n]))"
  using assms
proof (induction n arbitrary: obj h)
  case 0
  then show ?case by (simp add: insertable_def)
next
  case (Suc n)
  have obj: "n \<le> lvl h obj" "int n \<le> ml" using Suc.prems by simp_all
  have wf: "links_wf h" using Suc.prems(1) by (simp add: insertable_def)
  have rest: "safeE (insert_errors h) (\<lambda>(obj', h'). links_wf h' \<and> graph_frame h h' \<and> (\<forall>l<Suc n. nbrs h' c l \<noteq> [])
      \<and> (\<forall>l\<ge>Suc n. nbrs h' c l = nbrs h c l)) (foldE (insert_level env q c ep epDeleted ml) s (rev [0..<n]))"
    if s: "case s of (obj', h1) \<Rightarrow> level_frame n h h1 \<and> nbrs h1 c n \<noteq> []
      \<and> obj' < cur_element_count h \<and> obj' \<noteq> c \<and> n \<le> lvl h obj'" for s
  proof -
    obtain obj1 h1 where s1: "s = (obj1, h1)" by fastforce
    have fr: "level_frame n h h1" and ne: "nbrs h1 c n \<noteq> []" using s by (simp_all add: s1)
    then have g: "graph_frame h h1" and at: "\<And>l. n < l \<Longrightarrow> nbrs h1 c l = nbrs h c l"
      by (auto simp: level_frame_def nbrs_def)
    note f = graph_frame_fields [OF g] and del1 = graph_frame_elems(1) [OF g wf]
    have err: "insert_errors h1 = insert_errors h" by (simp add: insert_errors_def del1)
    have S: "safeE (insert_errors h1) (\<lambda>(obj', h'). links_wf h' \<and> graph_frame h1 h' \<and> (\<forall>l<n. nbrs h' c l \<noteq> [])
      \<and> (\<forall>l\<ge>n. nbrs h' c l = nbrs h1 c l)) (foldE (insert_level env q c ep epDeleted ml) (obj1, h1) (rev [0..<n]))"
      using s Suc.prems(5,6) by (intro Suc.IH level_frame_insertable [OF fr Suc.prems(1)]) (auto simp: s1 f del1)
    have N: "(\<forall>l<Suc n. nbrs h' c l \<noteq> []) \<and> (\<forall>l\<ge>Suc n. nbrs h' c l = nbrs h c l)"
      if "\<forall>l<n. nbrs h' c l \<noteq> []" "\<forall>l\<ge>n. nbrs h' c l = nbrs h1 c l" for h' :: "'a hnsw"
    proof (intro conjI allI impI)
      show "nbrs h' c l \<noteq> []" if "l < Suc n" for l
        using that \<open>\<forall>l<n. nbrs h' c l \<noteq> []\<close> \<open>\<forall>l\<ge>n. nbrs h' c l = nbrs h1 c l\<close> ne by (cases "l = n") simp_all
      show "nbrs h' c l = nbrs h c l" if "Suc n \<le> l" for l
        using that \<open>\<forall>l\<ge>n. nbrs h' c l = nbrs h1 c l\<close> at [of l] by simp
    qed
    show ?thesis
      unfolding s1
    proof (rule safeE_mono [OF S [unfolded err]])
      fix x :: "tableint \<times> 'a hnsw"
      assume "case x of (obj', h') \<Rightarrow> links_wf h' \<and> graph_frame h1 h' \<and> (\<forall>l<n. nbrs h' c l \<noteq> [])
        \<and> (\<forall>l\<ge>n. nbrs h' c l = nbrs h1 c l)"
      then have x: "links_wf (snd x)" "graph_frame h1 (snd x)" "\<forall>l<n. nbrs (snd x) c l \<noteq> []"
        "\<forall>l\<ge>n. nbrs (snd x) c l = nbrs h1 c l" by (simp_all add: case_prod_beta)
      show "case x of (obj', h') \<Rightarrow> links_wf h' \<and> graph_frame h h' \<and> (\<forall>l<Suc n. nbrs h' c l \<noteq> [])
        \<and> (\<forall>l\<ge>Suc n. nbrs h' c l = nbrs h c l)"
        unfolding case_prod_beta using x(1) graph_frame_trans [OF g x(2)] N [OF x(3,4)] by blast
    qed
  qed
  show ?case
    by (simp, rule safeE_bind [OF insert_level_ok [OF Suc.prems(1-3) obj Suc.prems(6)] rest])
qed

lemma link_new_element_ok:
  assumes ins: "insertable h c (enterpoint_node h) n" and n: "n = Suc (nat (min (int (lvl h c)) (maxlevel h)))"
    and ep: "maxlevel h = int (lvl h (enterpoint_node h))"
  shows "safeE (insert_errors h) (\<lambda>h'. links_wf h' \<and> graph_frame h h' \<and> (\<forall>l<n. nbrs h' c l \<noteq> []))
    (link_new_element env h q c (lvl h c) (maxlevel h))"
proof -
  let ?ep = "enterpoint_node h"
  let ?g = "\<lparr>g_obj = ?ep, g_dist = elem_dist h q ?ep, g_hops = 0, g_comps = 0\<rparr>"
  have wf: "links_wf h" and e: "?ep < cur_element_count h" "?ep \<noteq> c" "n \<le> Suc (lvl h ?ep)"
    using ins by (simp_all add: insertable_def)
  have "\<exists>obj. (if int (lvl h c) < maxlevel h
      then bindE (elem_at h ?ep) (\<lambda>e. bindE (greedy_down True h q (lvl h c) (nat (maxlevel h))
             \<lparr>g_obj = ?ep, g_dist = hn_fstdistfunc h q (e_data e), g_hops = 0, g_comps = 0\<rparr>) (\<lambda>g. Inr (g_obj g)))
      else Inr ?ep) = Inr obj \<and> obj < cur_element_count h \<and> obj \<noteq> c \<and> n \<le> Suc (lvl h obj)"
  proof (cases "int (lvl h c) < maxlevel h")
    case True
    have "greedy_at h q (nat (maxlevel h)) ?g" using ep e by (simp add: greedy_at_def)
    from greedy_down_ok [OF wf this, of True "lvl h c"] obtain g where
      g: "greedy_down True h q (lvl h c) (nat (maxlevel h)) ?g = Inr g" "greedy_at h q (min (nat (maxlevel h)) (Suc (lvl h c))) g"
      by blast
    then have "g_obj g < cur_element_count h" "Suc (lvl h c) \<le> lvl h (g_obj g)"
      using True by (auto simp: greedy_at_def min_def split: if_splits)
    then show ?thesis using True g(1) n by (auto simp: elem_at_ok [OF wf e(1)] elem_dist_def)
  qed (use e in simp)
  then obtain obj where obj: "(if int (lvl h c) < maxlevel h
      then bindE (elem_at h ?ep) (\<lambda>e. bindE (greedy_down True h q (lvl h c) (nat (maxlevel h))
             \<lparr>g_obj = ?ep, g_dist = hn_fstdistfunc h q (e_data e), g_hops = 0, g_comps = 0\<rparr>) (\<lambda>g. Inr (g_obj g)))
      else Inr ?ep) = Inr obj" "obj < cur_element_count h" "obj \<noteq> c" "n \<le> Suc (lvl h obj)" by blast
  have nn: "nat (min (int (lvl h c)) (maxlevel h) + 1) = n" using ep by (auto simp: n min_def)
  have "int n \<le> maxlevel h + 1" using ep by (simp add: n min_def)
  from insert_levels_ok [OF ins obj(2-4) this, of "?ep \<in> deleted_ids h" env q]
  show ?thesis
    using e(1) unfolding link_new_element_def Let_def obj(1) nn
    by (auto simp: isMarkedDeleted_def elem_at_ok [OF wf e(1)] deleted_ids_def elim!: safeE_bind)
qed

subsection \<open>The new element\<close>

definition prepared :: "'d hnsw \<Rightarrow> byte list \<Rightarrow> labeltype \<Rightarrow> nat \<Rightarrow> 'd hnsw" where
  "prepared h q label L =
     (let n = cur_element_count h in
      h\<lparr>cur_element_count := n + 1, label_lookup := (label_lookup h)(label \<mapsto> n), level_draws := level_draws h + 1,
        element_levels := (element_levels h)[n := L],
        data_level0 := (data_level0 h)[n := \<lparr>e_links = blank_links (maxM0 h), e_data = take (hn_data_size h) q, e_label = label\<rparr>],
        linkLists := (if L = 0 then linkLists h else (linkLists h)[n := replicate L (blank_links (maxM h))])\<rparr>)"

lemma prepared_fields [simp]:
  "cur_element_count (prepared h q label L) = Suc (cur_element_count h)" "max_elements (prepared h q label L) = max_elements h"
  "hnM (prepared h q label L) = hnM h" "maxM (prepared h q label L) = maxM h" "maxM0 (prepared h q label L) = maxM0 h"
  "ef_construction (prepared h q label L) = ef_construction h" "enterpoint_node (prepared h q label L) = enterpoint_node h"
  "maxlevel (prepared h q label L) = maxlevel h" "num_deleted (prepared h q label L) = num_deleted h"
  "deleted_elements (prepared h q label L) = deleted_elements h" "hn_data_size (prepared h q label L) = hn_data_size h"
  "allow_replace_deleted (prepared h q label L) = allow_replace_deleted h" "hn_fstdistfunc (prepared h q label L) = hn_fstdistfunc h" "vl_pool (prepared h q label L) = vl_pool h"
  "label_lookup (prepared h q label L) = (label_lookup h)(label \<mapsto> cur_element_count h)"
  "length (data_level0 (prepared h q label L)) = length (data_level0 h)" "length (linkLists (prepared h q label L)) = length (linkLists h)"
  "length (element_levels (prepared h q label L)) = length (element_levels h)"
  "list_cap (prepared h q label L) level = list_cap h level"
  "size_data_per_element (prepared h q label L) = size_data_per_element h"
  "size_links_per_element (prepared h q label L) = size_links_per_element h"
  "size_links_level0 (prepared h q label L) = size_links_level0 h"
  "offsetData (prepared h q label L) = offsetData h"
  "offsetLevel0 (prepared h q label L) = offsetLevel0 h"
  "label_offset (prepared h q label L) = label_offset h"
  "hnMult (prepared h q label L) = hnMult h"
  by (simp_all add: prepared_def Let_def list_cap_def)

lemma prepared_elems:
  assumes "links_wf h" and "cur_element_count h < max_elements h"
  shows "i \<noteq> cur_element_count h \<Longrightarrow> data_level0 (prepared h q label L) ! i = data_level0 h ! i"
    "i \<noteq> cur_element_count h \<Longrightarrow> lvl (prepared h q label L) i = lvl h i"
    "i \<noteq> cur_element_count h \<Longrightarrow> linkLists (prepared h q label L) ! i = linkLists h ! i"
    "i \<noteq> cur_element_count h \<Longrightarrow> at_level (prepared h q label L) i l = at_level h i l"
    "lvl (prepared h q label L) (cur_element_count h) = L"
    "data_level0 (prepared h q label L) ! cur_element_count h
      = \<lparr>e_links = blank_links (maxM0 h), e_data = take (hn_data_size h) q, e_label = label\<rparr>"
    "L \<noteq> 0 \<Longrightarrow> linkLists (prepared h q label L) ! cur_element_count h = replicate L (blank_links (maxM h))"
    "l \<le> L \<Longrightarrow> at_level (prepared h q label L) (cur_element_count h) l = blank_links (list_cap h l)"
proof -
  have len: "cur_element_count h < length (data_level0 h)" "cur_element_count h < length (linkLists h)"
    "cur_element_count h < length (element_levels h)" using assms by (simp_all add: links_wf_def)
  show ne: "i \<noteq> cur_element_count h \<Longrightarrow> data_level0 (prepared h q label L) ! i = data_level0 h ! i"
    "i \<noteq> cur_element_count h \<Longrightarrow> lvl (prepared h q label L) i = lvl h i"
    "i \<noteq> cur_element_count h \<Longrightarrow> linkLists (prepared h q label L) ! i = linkLists h ! i"
    by (simp_all add: prepared_def Let_def)
  show "i \<noteq> cur_element_count h \<Longrightarrow> at_level (prepared h q label L) i l = at_level h i l"
    using ne by (simp add: at_level_def)
  show "lvl (prepared h q label L) (cur_element_count h) = L" using len by (simp add: prepared_def Let_def)
  show d: "data_level0 (prepared h q label L) ! cur_element_count h
      = \<lparr>e_links = blank_links (maxM0 h), e_data = take (hn_data_size h) q, e_label = label\<rparr>"
    using len by (simp add: prepared_def Let_def)
  show ls: "L \<noteq> 0 \<Longrightarrow> linkLists (prepared h q label L) ! cur_element_count h = replicate L (blank_links (maxM h))"
    using len by (simp add: prepared_def Let_def)
  show "l \<le> L \<Longrightarrow> at_level (prepared h q label L) (cur_element_count h) l = blank_links (list_cap h l)"
    using d ls by (auto simp: at_level_def list_cap_def)
qed

lemma ids_of_blank [simp]: "ids_of (blank_links n) = []"
  by (simp add: ids_of_def blank_links_def)

lemma prepared_links_wf:
  assumes wf: "links_wf h" and room: "cur_element_count h < max_elements h" and q: "length q = hn_data_size h"
  shows "links_wf (prepared h q label L)"
proof -
  let ?h = "prepared h q label L" and ?n = "cur_element_count h"
  note el = prepared_elems [OF wf room]
  have old: "ll_ok ?h i l ll" if "ll_ok h i l ll" for i l ll
    using that el(2) by (auto simp: ll_ok_def)
  have "(lvl ?h i \<noteq> 0 \<longrightarrow> length (linkLists ?h ! i) = lvl ?h i) \<and> length (e_data (data_level0 ?h ! i)) = hn_data_size h
      \<and> (\<forall>l\<le>lvl ?h i. ll_ok ?h i l (at_level ?h i l))" if i: "i < Suc ?n" for i
  proof (cases "i = ?n")
    case True
    have "ll_ok ?h ?n l (blank_links (list_cap h l))" for l by (simp add: ll_ok_def) (simp add: blank_links_def)
    then show ?thesis using True q el(5,6,7) by (auto simp: el(8))
  next
    case False
    then have "i < ?n" using i by simp
    then show ?thesis
      using wf False old by (simp add: el(1-4) links_wf_def)
  qed
  then show ?thesis using wf room unfolding links_wf_def by auto
qed

lemma prepared_insertable:
  assumes wf: "links_wf h" and room: "cur_element_count h < max_elements h" and q: "length q = hn_data_size h"
    and M: "0 < hnM h" and ef: "1 \<le> ef_construction h" and ep: "ep < cur_element_count h" and n: "n \<le> Suc L" "n \<le> Suc (lvl h ep)"
  shows "insertable (prepared h q label L) (cur_element_count h) ep n"
proof -
  let ?h = "prepared h q label L" and ?n = "cur_element_count h"
  note el = prepared_elems [OF wf room]
  have "?n \<notin> set (nbrs ?h j l)" if l: "l < n" and j: "j < Suc ?n" "l \<le> lvl ?h j" for j l
  proof (cases "j = ?n")
    case True
    then show ?thesis using el(8) [of l L q label] l n by (simp add: nbrs_def)
  next
    case False
    then have "l \<le> lvl h j" "j < ?n" using j el(2) by auto
    then show ?thesis using nbrs_ok(3) [OF wf, of j l ?n] False el(4) by (auto simp: nbrs_def)
  qed
  then have "fresh_below ?h ?n n" using el(8) n by (auto simp: fresh_below_def)
  then show ?thesis
    using prepared_links_wf [OF wf room q] M ef ep n el(2) [of ep] el(5) by (simp add: insertable_def)
qed

text \<open>What an insertion may change of the old elements: only their links.\<close>

lemma prepared_others:
  assumes wf: "hnsw_wf h" and room: "cur_element_count h < max_elements h" and new: "label_lookup h label = None"
  shows "deleted_ids (prepared h q label L) = deleted_ids h" "labels_wf (prepared h q label L)" "deleted_wf (prepared h q label L)"
proof -
  let ?h = "prepared h q label L" and ?n = "cur_element_count h"
  have links: "links_wf h" using wf by (simp add: hnsw_wf_def)
  note el = prepared_elems [OF links room]
  have live: "\<not> elem_deleted (data_level0 ?h ! ?n)" by (simp add: el(6) elem_deleted_def blank_links_def)
  show del: "deleted_ids ?h = deleted_ids h"
    using live el(1) by (auto simp: deleted_ids_def less_Suc_eq)
  show "deleted_wf ?h" using wf by (simp add: hnsw_wf_def deleted_wf_def del)
  have lab: "label_lookup h l = Some i \<longleftrightarrow> i < ?n \<and> e_label (data_level0 h ! i) = l" for l i
    using wf by (simp add: hnsw_wf_def labels_wf_def)
  have "label_lookup ?h l = Some i \<longleftrightarrow> i < Suc ?n \<and> e_label (data_level0 ?h ! i) = l" for l i
  proof (cases "i = ?n")
    case True
    then show ?thesis using lab [of l ?n] by (auto simp: el(6))
  next
    case False
    then show ?thesis using lab [of l i] lab [of label i] new by (auto simp: el(1))
  qed
  then show "labels_wf ?h" by (simp add: labels_wf_def)
qed

subsection \<open>Adding a new label\<close>

definition inserted :: "'d hnsw \<Rightarrow> byte list \<Rightarrow> labeltype \<Rightarrow> tableint \<times> 'd hnsw \<Rightarrow> bool" where
  "inserted h q label r \<longleftrightarrow>
     (case r of (i, h') \<Rightarrow> i = cur_element_count h \<and> hnsw_wf h' \<and> cur_element_count h' = i + 1 \<and> max_elements h' = max_elements h
        \<and> same_params h h' \<and> label_lookup h' = (label_lookup h)(label \<mapsto> i) \<and> deleted_ids h' = deleted_ids h
        \<and> e_data (data_level0 h' ! i) = q
        \<and> (\<forall>j<i. e_data (data_level0 h' ! j) = e_data (data_level0 h ! j) \<and> e_label (data_level0 h' ! j) = e_label (data_level0 h ! j)
             \<and> lvl h' j = lvl h j)
        \<and> (\<forall>l. int l \<le> maxlevel h \<longrightarrow> l \<le> lvl h' i \<longrightarrow> nbrs h' i l \<noteq> []))"

lemma entry_update_wf:
  assumes "links_wf h" and "labels_wf h" and "deleted_wf h" and "entry_wf (h\<lparr>enterpoint_node := e, maxlevel := m\<rparr>)"
  shows "hnsw_wf (h\<lparr>enterpoint_node := e, maxlevel := m\<rparr>)"
proof -
  have "links_wf (h\<lparr>enterpoint_node := e, maxlevel := m\<rparr>)"
    by (rule links_wf_cong [OF _ _ _ _ _ _ _ _ _ _ assms(1)]) (use assms(1) in \<open>simp_all add: links_wf_def\<close>)
  then show ?thesis
    using assms by (simp add: hnsw_wf_def labels_wf_def deleted_wf_def deleted_ids_def)
qed

lemma addPoint_level_new:
  assumes wf: "hnsw_wf h" and new: "label_lookup h label = None" and room: "cur_element_count h < max_elements h"
    and mem: "\<And>n. malloc_ok env n" and M: "0 < hnM h" and ef: "1 \<le> ef_construction h" and q: "length q = hn_data_size h"
  shows "safeE (insert_errors h) (inserted h q label) (addPoint_level env h q label level)"
proof -
  let ?n = "cur_element_count h" and ?ml = "maxlevel h" and ?ep = "enterpoint_node h"
  define L where "L = (if 0 < level then nat level else random_level env (hnMult h) (level_draws h))"
  define h1 where "h1 = prepared h q label L"
  have links: "links_wf h" and ent: "entry_wf h" using wf by (simp_all add: hnsw_wf_def)
  have len: "?n < length (data_level0 h)" using links room by (simp add: links_wf_def)
  note el = prepared_elems [OF links room, where q = q and label = label and L = L, folded h1_def]
  note oth = prepared_others [OF wf room new, where q = q and L = L, folded h1_def]
  have links1: "links_wf h1" unfolding h1_def by (rule prepared_links_wf [OF links room q])
  have init: "init_element env (h\<lparr>cur_element_count := Suc ?n, label_lookup := (label_lookup h)(label \<mapsto> ?n),
      level_draws := Suc (level_draws h), element_levels := (element_levels h)[?n := L]\<rparr>) ?n q label L = Inr h1"
    using mem len by (auto simp: init_element_def elem_at_def put_elem_def h1_def prepared_def Let_def)
  have h1f: "maxlevel h1 = ?ml" "enterpoint_node h1 = ?ep" by (simp_all add: h1_def)
  have Lval: "0 < level \<Longrightarrow> nat level = L" "\<not> 0 < level \<Longrightarrow> random_level env (hnMult h) (level_draws h) = L"
    by (simp_all add: L_def)
  have run: "addPoint_level env h q label level =
      bindE (if ?ep \<noteq> no_node then link_new_element env h1 q ?n L ?ml
             else Inr (h1\<lparr>enterpoint_node := 0, maxlevel := int L\<rparr>)) (\<lambda>h'.
        Inr (?n, if ?ml < int L then h'\<lparr>enterpoint_node := ?n, maxlevel := int L\<rparr> else h'))"
    using new room Lval init h1f
    by (cases "0 < level") (simp_all add: addPoint_level_def getRandomLevel_def Let_def split del: if_split cong: if_cong)
  have fin: "inserted h q label (?n, if ?ml < int L then h'\<lparr>enterpoint_node := ?n, maxlevel := int L\<rparr> else h')"
    if g: "graph_frame h1 h'" and links': "links_wf h'" and nb: "\<forall>l. int l \<le> ?ml \<longrightarrow> l \<le> L \<longrightarrow> nbrs h' ?n l \<noteq> []"
      and ne: "?n \<noteq> 0 \<or> ?ml < int L" for h'
  proof -
    note f = graph_frame_fields [OF g]
    let ?h = "if ?ml < int L then h'\<lparr>enterpoint_node := ?n, maxlevel := int L\<rparr> else h'"
    have len1: "i < length (data_level0 h1)" if "i < Suc ?n" for i using that len by (simp add: h1_def)
    have lab: "labels_wf h'" and del: "deleted_wf h'"
      using oth(2,3) graph_frame_elem(2) [OF g len1] graph_frame_elems(1) [OF g links1]
      by (auto simp: labels_wf_def deleted_wf_def f h1_def)
    have lev: "lvl h' i = (if i = ?n then L else lvl h i)" for i using el(2,5) by (simp add: f)
    have "hnsw_wf ?h"
    proof (cases "?ml < int L")
      case True
      have "int (lvl h i) \<le> ?ml" if "i < ?n" for i using ent that by (auto simp: entry_wf_def split: if_splits)
      then have "entry_wf (h'\<lparr>enterpoint_node := ?n, maxlevel := int L\<rparr>)"
        using True by (fastforce simp: entry_wf_def f h1_def lev [unfolded f] less_Suc_eq el(2,5) [unfolded h1_def])
      then show ?thesis using entry_update_wf [OF links' lab del] True by simp
    next
      case False
      then have "entry_wf h'"
        using ent ne by (auto simp: entry_wf_def f h1_def lev [unfolded f] less_Suc_eq el(2,5) [unfolded h1_def])
      then show ?thesis using links' lab del False by (simp add: hnsw_wf_def)
    qed
    moreover have "e_data (data_level0 h' ! ?n) = q"
      using graph_frame_elem(1) [OF g len1, of ?n] el(6) q by simp
    moreover have "e_data (data_level0 h' ! j) = e_data (data_level0 h ! j) \<and> e_label (data_level0 h' ! j) = e_label (data_level0 h ! j)"
      if "j < ?n" for j
      using graph_frame_elem(1,2) [OF g len1, of j] el(1) [of j] that by simp
    moreover have "deleted_ids ?h = deleted_ids h"
      using graph_frame_elems(1) [OF g links1] oth(1) by (simp add: deleted_ids_def)
    moreover have "nbrs ?h = nbrs h'" by (intro ext) (simp add: nbrs_def at_level_def)
    ultimately show ?thesis
      using nb lev by (auto simp: inserted_def f same_params_def) (auto simp: h1_def)
  qed
  show ?thesis
  proof (cases "?n = 0")
    case True
    then have "?ep = no_node" "?ml = -1" using ent by (simp_all add: entry_wf_def)
    moreover have "(h1\<lparr>enterpoint_node := 0, maxlevel := int L\<rparr>)\<lparr>enterpoint_node := ?n, maxlevel := int L\<rparr>
      = h1\<lparr>enterpoint_node := ?n, maxlevel := int L\<rparr>" by simp
    ultimately show ?thesis using run fin [of h1] links1 by simp
  next
    case False
    then have ep: "?ep < ?n" "?ml = int (lvl h ?ep)" using ent by (simp_all add: entry_wf_def)
    then have "?ep \<noteq> no_node" using links by (simp add: links_wf_def no_node_def)
    let ?k = "Suc (nat (min (int L) ?ml))"
    have lvls: "lvl h1 ?ep = lvl h ?ep" "lvl h1 ?n = L" using el(2) [of ?ep] el(5) ep by auto
    have k: "?k \<le> Suc L" "?k \<le> Suc (lvl h ?ep)" using ep by (simp_all add: min_def)
    have "insertable h1 ?n (enterpoint_node h1) ?k"
      using prepared_insertable [OF links room q M ef ep(1) k] by (simp add: h1_def)
    then have S: "safeE (insert_errors h) (\<lambda>h'. links_wf h' \<and> graph_frame h1 h' \<and> (\<forall>l<?k. nbrs h' ?n l \<noteq> []))
        (link_new_element env h1 q ?n L ?ml)"
      using link_new_element_ok [of h1 ?n ?k env q] ep lvls h1f by (simp add: insert_errors_def oth(1))
    have F: "safeE (insert_errors h) (inserted h q label)
        (Inr (?n, if ?ml < int L then h'\<lparr>enterpoint_node := ?n, maxlevel := int L\<rparr> else h'))"
      if "links_wf h' \<and> graph_frame h1 h' \<and> (\<forall>l<?k. nbrs h' ?n l \<noteq> [])" for h'
      using fin [of h'] that False ep(2) by (simp add: less_Suc_eq_le min_def le_nat_iff split: if_splits)
    have "addPoint_level env h q label level = bindE (link_new_element env h1 q ?n L ?ml) (\<lambda>h'.
        Inr (?n, if ?ml < int L then h'\<lparr>enterpoint_node := ?n, maxlevel := int L\<rparr> else h'))"
      using run \<open>?ep \<noteq> no_node\<close> by simp
    then show ?thesis using safeE_bind [OF S F] by simp
  qed
qed

end
