(* ===== verification/Hnsw_Update.thy ===== *)
theory Hnsw_Update
  imports Hnsw_Add
begin

text \<open>
  \<open>addPoint\<close> for a label that is in the index: \<open>updatePoint\<close> replaces the vector, chooses new links for the
  neighbours and links the element again. It always returns and keeps the index well formed.
  What is assumed of \<open>std::unordered_set\<close> is that an iteration visits every element once.
\<close>

subsection \<open>New links for a neighbour\<close>

lemma consider_candidates:
  assumes wf: "links_wf h" and neigh: "neigh < cur_element_count h"
    and "\<forall>x\<in>set xs. x < cur_element_count h \<and> layer \<le> lvl h x" and "distinct xs"
    and "candidates_ok h neigh layer cs" and "\<forall>p\<in>set cs. snd p \<notin> set xs"
    and keep: "\<forall>x\<in>set xs. x \<noteq> neigh \<longrightarrow> 0 < keep"
  shows "\<exists>cs'. foldE (consider_candidate h neigh keep) cs xs = Inr cs' \<and> candidates_ok h neigh layer cs'"
  using assms(3-7)
proof (induction xs arbitrary: cs)
  case (Cons x xs)
  show ?case
  proof (cases "x = neigh")
    case True
    then show ?thesis using Cons by (simp add: consider_candidate_def)
  next
    case False
    let ?p = "(pair_dist h neigh x, x)"
    have x: "x < cur_element_count h" "layer \<le> lvl h x" "x \<notin> set xs" "x \<notin> snd ` set cs" using Cons.prems by auto
    have push: "candidates_ok h neigh layer (pq_push CompareByFirst ?p q) \<and> (\<forall>p\<in>set (pq_push CompareByFirst ?p q). snd p \<notin> set xs)"
      if "candidates_ok h neigh layer q" "set q \<subseteq> set cs" for q
      using that x False Cons.prems(4)
      by (auto simp: candidates_ok_def by_first.heap_pq_push distinct_snd_push set_pq_push)
    have pop: "candidates_ok h neigh layer (pq_pop CompareByFirst cs)"
      using Cons.prems(3) set_pq_pop [of CompareByFirst cs]
      by (auto simp: candidates_ok_def by_first.heap_pq_pop distinct_snd_pop)
    have ne: "\<not> length cs < keep \<Longrightarrow> cs \<noteq> []" using Cons.prems(5) False by auto
    define cs1 where "cs1 = (if length cs < keep then pq_push CompareByFirst ?p cs
      else if pair_dist h neigh x < fst (pq_top cs) then pq_push CompareByFirst ?p (pq_pop CompareByFirst cs) else cs)"
    have "consider_candidate h neigh keep cs x = Inr cs1"
      using False ne by (simp add: consider_candidate_def data_dist_ok [OF wf neigh x(1)] cs1_def)
    moreover have "candidates_ok h neigh layer cs1 \<and> (\<forall>p\<in>set cs1. snd p \<notin> set xs)"
      using push [of cs] push [OF pop set_pq_pop] Cons.prems(3,4) by (auto simp: cs1_def)
    ultimately show ?thesis using Cons.IH [of cs1] Cons.prems by simp
  qed
qed simp

lemma heuristic_ids_ok:
  assumes wf: "links_wf h" and cs: "candidates_ok h i level cs"
  shows "\<exists>r. getNeighborsByHeuristic2 h cs (list_cap h level) = Inr r \<and> ids_ok h i level (map snd (pq_drain CompareByFirst r))"
proof -
  have "\<forall>p\<in>set cs. snd p < cur_element_count h" using cs by (simp add: candidates_ok_def)
  then obtain r where r: "getNeighborsByHeuristic2 h cs (list_cap h level) = Inr r" "mset r \<subseteq># mset cs" "length r \<le> list_cap h level"
    using heuristic_total [OF wf, of cs "list_cap h level"] cs by (auto simp: candidates_ok_def)
  have "distinct (map snd (pq_drain CompareByFirst r))"
    by (rule map_snd_mset(1) [OF r(2)]) (use cs in \<open>simp add: candidates_ok_def\<close>)
  moreover have "\<forall>j\<in>set (map snd (pq_drain CompareByFirst r)). j < cur_element_count h \<and> j \<noteq> i \<and> level \<le> lvl h j"
    using map_snd_mset(2) [OF r(2), of CompareByFirst] cs by (fastforce simp: candidates_ok_def)
  ultimately show ?thesis using r(1,3) by (simp add: ids_ok_def heap_simps)
qed

lemma update_neighbour_ok:
  assumes wf: "links_wf h" and neigh: "neigh < cur_element_count h" "layer \<le> lvl h neigh" and ef: "1 \<le> ef_construction h"
    and sCand: "distinct sCand" "\<forall>x\<in>set sCand. x < cur_element_count h \<and> layer \<le> lvl h x"
    and iter: "\<And>xs. mset (uset_iter env xs) = mset xs"
  shows "\<exists>h'. update_neighbour env layer sCand h neigh = Inr h' \<and> level_frame layer h h'"
proof -
  let ?keep = "min (ef_construction h) (if neigh \<in> set sCand then length sCand - 1 else length sCand)"
  have set: "set (uset_iter env sCand) = set sCand" using iter by (metis set_mset_mset)
  have dis: "distinct (uset_iter env sCand)" using mset_eq_imp_distinct_iff [OF iter] sCand(1) by simp
  have "0 < ?keep" if "x \<in> set sCand" "x \<noteq> neigh" for x
  proof -
    have "0 < length sCand" using that by (cases sCand) auto
    moreover have "1 < length sCand" if "neigh \<in> set sCand"
    proof -
      have "card {x, neigh} \<le> card (set sCand)" using that \<open>x \<in> set sCand\<close> by (intro card_mono) auto
      then show ?thesis using \<open>x \<noteq> neigh\<close> distinct_card [OF sCand(1)] by simp
    qed
    ultimately show ?thesis using ef by auto
  qed
  then obtain cs where cs: "foldE (consider_candidate h neigh ?keep) [] (uset_iter env sCand) = Inr cs" "candidates_ok h neigh layer cs"
    using consider_candidates [OF wf neigh(1) _ dis, of layer "[]" ?keep] sCand(2)
    by (auto simp: set candidates_ok_def by_first.std.invar_empty)
  obtain r where r: "getNeighborsByHeuristic2 h cs (list_cap h layer) = Inr r" "ids_ok h neigh layer (map snd (pq_drain CompareByFirst r))"
    using heuristic_ids_ok [OF wf cs(2)] by blast
  from write_slots_relink(2) [OF wf neigh r(2)] obtain ll where
    ll: "write_slots (map snd (pq_drain CompareByFirst r)) (setListCount (length (map snd (pq_drain CompareByFirst r))) (at_level h neigh layer)) = Inr ll"
    "relinked h neigh layer (map snd (pq_drain CompareByFirst r)) (put_linklist_at_level h neigh layer ll)" by blast
  have "(if layer = 0 then maxM0 h else maxM h) = list_cap h layer" by (simp add: list_cap_def)
  then have "update_neighbour env layer sCand h neigh = Inr (put_linklist_at_level h neigh layer ll)"
    unfolding update_neighbour_def Let_def using cs(1) r(1) ll(1) by (simp add: get_linklist_ok [OF wf neigh])
  then show ?thesis using relinked_level_frame [OF ll(2)] by blast
qed

subsection \<open>One layer\<close>

lemma uset_insert_simps [simp]:
  "set (uset_insert x xs) = insert x (set xs)" "distinct (uset_insert x xs) = distinct xs"
  by (auto simp: uset_insert_def)

lemma uset_insert_foldl:
  "set (foldl (\<lambda>c el. uset_insert el c) xs ys) = set xs \<union> set ys"
  "distinct (foldl (\<lambda>c el. uset_insert el c) xs ys) = distinct xs"
  by (induction ys arbitrary: xs) auto

definition hops_ok :: "'d hnsw \<Rightarrow> nat \<Rightarrow> tableint list \<times> tableint list \<times> nat \<Rightarrow> bool" where
  "hops_ok h layer s \<longleftrightarrow> (case s of (sCand, sNeigh, draws) \<Rightarrow> distinct sCand
     \<and> (\<forall>x\<in>set sCand \<union> set sNeigh. x < cur_element_count h \<and> layer \<le> lvl h x))"

lemma collect_hops:
  assumes wf: "links_wf h" and "\<forall>x\<in>set ids. x < cur_element_count h \<and> layer \<le> lvl h x" and "hops_ok h layer s"
  shows "\<exists>s'. foldE (collect_hop env h layer prob) s ids = Inr s' \<and> hops_ok h layer s'"
proof (rule foldE_total)
  show "hops_ok h layer s" by fact
  fix t x assume x: "x \<in> set ids" and t: "hops_ok h layer t"
  obtain sCand sNeigh draws where [simp]: "t = (sCand, sNeigh, draws)" by (cases t)
  have xok: "x < cur_element_count h" "layer \<le> lvl h x" using assms(2) x by auto
  have two: "\<forall>y\<in>set (nbrs h x layer). y < cur_element_count h \<and> layer \<le> lvl h y" using nbrs_ok(3) [OF wf xok] by blast
  show "\<exists>t'. collect_hop env h layer prob t x = Inr t' \<and> hops_ok h layer t'"
    using t xok two by (auto simp: collect_hop_def Let_def getConnections_ok [OF wf xok] hops_ok_def uset_insert_foldl)
qed

lemma update_layer_ok:
  assumes wf: "links_wf h" and i: "i < cur_element_count h" "layer \<le> lvl h i" and ef: "1 \<le> ef_construction h"
    and iter: "\<And>xs. mset (uset_iter env xs) = mset xs"
  shows "\<exists>h'. update_layer env i prob h layer = Inr h' \<and> links_wf h' \<and> graph_frame h h'"
proof (cases "nbrs h i layer = []")
  case True
  then show ?thesis using wf by (simp add: update_layer_def getConnections_ok [OF wf i])
next
  case False
  have one: "\<forall>x\<in>set (nbrs h i layer). x < cur_element_count h \<and> layer \<le> lvl h x" using nbrs_ok(3) [OF wf i] by blast
  have "hops_ok h layer ([i], [], update_draws h)" using i by (simp add: hops_ok_def)
  then obtain sCand sNeigh draws where s:
    "foldE (collect_hop env h layer prob) ([i], [], update_draws h) (nbrs h i layer) = Inr (sCand, sNeigh, draws)"
    "hops_ok h layer (sCand, sNeigh, draws)"
    using collect_hops [OF wf one] by (metis prod_cases3)
  let ?h = "h\<lparr>update_draws := draws\<rparr>"
  have wf': "links_wf ?h"
    by (rule links_wf_cong [OF _ _ _ _ _ _ _ _ _ _ wf]) (use wf in \<open>simp_all add: links_wf_def\<close>)
  have g': "graph_frame h ?h"
    unfolding graph_frame_def
    by (intro exI [of _ "data_level0 h"] exI [of _ "linkLists h"] exI [of _ "vl_pool h"] exI [of _ "metric_hops h"]
      exI [of _ "metric_distance_computations h"] exI [of _ draws]) simp
  have set: "set (uset_iter env sNeigh) = set sNeigh" using iter by (metis set_mset_mset)
  have "\<exists>h'. foldE (update_neighbour env layer sCand) ?h (uset_iter env sNeigh) = Inr h' \<and> links_wf h' \<and> graph_frame h h'"
  proof (rule foldE_total)
    show "links_wf ?h \<and> graph_frame h ?h" using wf' g' by blast
    fix t x assume x: "x \<in> set (uset_iter env sNeigh)" and t: "links_wf t \<and> graph_frame h t"
    note f = graph_frame_fields [OF conjunct2 [OF t]]
    have "\<exists>h'. update_neighbour env layer sCand t x = Inr h' \<and> level_frame layer t h'"
      using s(2) x ef by (intro update_neighbour_ok [OF conjunct1 [OF t]] iter) (auto simp: f hops_ok_def set)
    then show "\<exists>t'. update_neighbour env layer sCand t x = Inr t' \<and> links_wf t' \<and> graph_frame h t'"
      using t graph_frame_trans by (auto simp: level_frame_def)
  qed
  then show ?thesis using False s(1) by (simp add: update_layer_def getConnections_ok [OF wf i])
qed

subsection \<open>Linking again\<close>

lemma push_others:
  "is_heap CompareByFirst q \<Longrightarrow> is_heap CompareByFirst (foldl (push_other c) q ps)
    \<and> mset (foldl (push_other c) q ps) = mset q + filter_mset (\<lambda>p. snd p \<noteq> c) (mset ps)"
  by (induction ps arbitrary: q) (simp_all add: push_other_def by_first.heap_pq_push heap_simps)

lemma distinct_snd_filter:
  assumes "mset r = filter_mset P (mset q)" and "distinct (map snd q)"
  shows "distinct (map snd r)" "set r = {p \<in> set q. P p}"
proof -
  have "mset r = mset (filter P q)" using assms(1) by simp
  then have "mset (map snd r) = mset (map snd (filter P q))" by (metis mset_map)
  then have "distinct (map snd r) = distinct (map snd (filter P q))" by (rule mset_eq_imp_distinct_iff)
  then show "distinct (map snd r)" using assms(2) by (simp add: distinct_map_filter)
  show "set r = {p \<in> set q. P p}" using arg_cong [OF assms(1), of set_mset] by simp
qed

lemma repair_level_ok:
  assumes wf: "links_wf h" and M: "0 < hnM h" and ef: "1 \<le> ef_construction h"
    and c: "c < cur_element_count h" "level \<le> lvl h c" "c \<notin> deleted_ids h"
    and obj: "obj < cur_element_count h" "level \<le> lvl h obj" and ep: "ep < cur_element_count h" "level \<le> lvl h ep"
  shows "\<exists>obj' h'. repair_level env q ep c (obj, h) level = Inr (obj', h') \<and> links_wf h' \<and> graph_frame h h'
    \<and> obj' < cur_element_count h \<and> level \<le> lvl h obj'"
proof -
  obtain tq h1 where s: "searchBaseLayer env h obj q level = Inr (tq, h1)" "search_frame h h1"
      "is_heap CompareByFirst tq" "distinct (map snd tq)"
      "\<forall>p\<in>set tq. snd p < cur_element_count h \<and> fst p = elem_dist h q (snd p) \<and> snd p \<notin> deleted_ids h \<and> linked_from h obj level (snd p)"
    using searchBaseLayer_finds [OF wf ef obj] by blast
  note f1 = search_frame_fields [OF s(2)] and frame1 = search_graph_frame [OF s(2)] and wf1 = search_frame_links_wf [OF s(2) wf]
  note g1 = graph_frame_fields [OF frame1]
  define fq where "fq = foldl (push_other c) [] (pq_drain CompareByFirst tq)"
  have fq: "is_heap CompareByFirst fq" "mset fq = filter_mset (\<lambda>p. snd p \<noteq> c) (mset tq)"
    using push_others [OF by_first.std.invar_empty, of c "pq_drain CompareByFirst tq"] by (simp_all add: fq_def heap_simps)
  note fset = distinct_snd_filter [OF fq(2) s(4)]
  have cand: "candidates_ok h1 c level fq"
    using fq(1) fset s(5) by (auto simp: candidates_ok_def f1 linked_from_def)
  show ?thesis
  proof (cases "fq = []")
    case True
    then show ?thesis using s(1) frame1 wf1 obj by (simp add: repair_level_def fq_def [symmetric])
  next
    case False
    have "\<exists>tq'. (if ep \<in> deleted_ids h then add_deleted_entry h1 q ep fq else Inr fq) = Inr tq' \<and> candidates_ok h1 c level tq' \<and> tq' \<noteq> []"
    proof (cases "ep \<in> deleted_ids h")
      case True
      then have "ep \<noteq> c" "ep \<notin> snd ` set fq" using c(3) s(5) fset(2) by auto
      then show ?thesis using add_deleted_entry_ok [OF wf1 _ _ _ cand, of ep q] ep ef True by (simp add: f1 g1)
    qed (use cand False in simp)
    then obtain tq' where tq': "(if ep \<in> deleted_ids h then add_deleted_entry h1 q ep fq else Inr fq) = Inr tq'"
      "candidates_ok h1 c level tq'" "tq' \<noteq> []" by blast
    have "\<exists>nxt h'. mutuallyConnectNewElement h1 c tq' level True = Inr (nxt, h') \<and> level_frame level h1 h' \<and> nxt \<in> snd ` set tq'
      \<and> nbrs h' c level \<noteq> [] \<and> set (nbrs h' c level) \<subseteq> snd ` set tq' \<and> length (nbrs h' c level) \<le> hnM h1
      \<and> (\<forall>j\<in>set (nbrs h' c level). length (nbrs h1 j level) < list_cap h1 level \<longrightarrow> c \<in> set (nbrs h' j level))"
      using c M by (intro mutuallyConnect_ok [OF wf1 _ _ tq'(2,3)]) (simp_all add: f1 g1)
    then obtain nxt h' where h': "mutuallyConnectNewElement h1 c tq' level True = Inr (nxt, h')" "level_frame level h1 h'"
      "nxt \<in> snd ` set tq'" by blast
    have "isMarkedDeleted h1 ep = Inr (ep \<in> deleted_ids h)"
      using ep elem_at_ok [OF wf1, of ep] by (simp add: isMarkedDeleted_def deleted_ids_def f1)
    then have "repair_level env q ep c (obj, h) level = Inr (nxt, h')"
      using s(1) False tq'(1) h'(1) by (simp add: repair_level_def fq_def [symmetric])
    then show ?thesis
      using h'(2,3) tq'(2) graph_frame_trans [OF frame1] by (auto simp: level_frame_def candidates_ok_def f1)
  qed
qed

lemma repair_levels_ok:
  assumes "links_wf h" and "0 < hnM h" and "1 \<le> ef_construction h"
    and "c < cur_element_count h" "n \<le> Suc (lvl h c)" "c \<notin> deleted_ids h"
    and "obj < cur_element_count h" "n \<le> Suc (lvl h obj)" and "ep < cur_element_count h" "n \<le> Suc (lvl h ep)"
  shows "\<exists>s. foldE (repair_level env q ep c) (obj, h) (rev [0..<n]) = Inr s \<and> links_wf (snd s) \<and> graph_frame h (snd s)"
  using assms
proof (induction n arbitrary: obj h)
  case (Suc n)
  obtain obj1 h1 where 1: "repair_level env q ep c (obj, h) n = Inr (obj1, h1)" "links_wf h1" "graph_frame h h1"
    "obj1 < cur_element_count h" "n \<le> lvl h obj1"
    using repair_level_ok [of h c n obj ep env q] Suc.prems by auto
  note f = graph_frame_fields [OF 1(3)] and d = graph_frame_elems(1) [OF 1(3) Suc.prems(1)]
  have "\<exists>s. foldE (repair_level env q ep c) (obj1, h1) (rev [0..<n]) = Inr s \<and> links_wf (snd s) \<and> graph_frame h1 (snd s)"
    using Suc.prems 1 by (intro Suc.IH) (simp_all add: f d)
  then show ?case using 1(1) graph_frame_trans [OF 1(3)] by auto
qed simp

lemma repairConnections_ok:
  assumes wf: "links_wf h" and M: "0 < hnM h" and ef: "1 \<le> ef_construction h" and c: "c < cur_element_count h" "c \<notin> deleted_ids h"
    and ep: "ep < cur_element_count h" and ml: "ml = int (lvl h ep)" "lvl h c \<le> lvl h ep"
  shows "\<exists>h'. repairConnectionsForUpdate env h q ep c (lvl h c) ml = Inr h' \<and> links_wf h' \<and> graph_frame h h'"
proof -
  let ?g = "\<lparr>g_obj = ep, g_dist = elem_dist h q ep, g_hops = 0, g_comps = 0\<rparr>"
  have "\<exists>obj. (if int (lvl h c) < ml
      then bindE (elem_at h ep) (\<lambda>e. bindE (greedy_down False h q (lvl h c) (nat ml)
             \<lparr>g_obj = ep, g_dist = hn_fstdistfunc h q (e_data e), g_hops = 0, g_comps = 0\<rparr>) (\<lambda>g. Inr (g_obj g)))
      else Inr ep) = Inr obj \<and> obj < cur_element_count h \<and> lvl h c \<le> lvl h obj"
  proof (cases "int (lvl h c) < ml")
    case True
    have "greedy_at h q (nat ml) ?g" using ml ep by (simp add: greedy_at_def)
    from greedy_down_ok [OF wf this, of False "lvl h c"] obtain g where
      "greedy_down False h q (lvl h c) (nat ml) ?g = Inr g" "greedy_at h q (min (nat ml) (Suc (lvl h c))) g" by blast
    then show ?thesis
      using True by (auto simp: elem_at_ok [OF wf ep] elem_dist_def greedy_at_def min_def split: if_splits)
  qed (use ep ml in simp)
  then obtain obj where obj: "(if int (lvl h c) < ml
      then bindE (elem_at h ep) (\<lambda>e. bindE (greedy_down False h q (lvl h c) (nat ml)
             \<lparr>g_obj = ep, g_dist = hn_fstdistfunc h q (e_data e), g_hops = 0, g_comps = 0\<rparr>) (\<lambda>g. Inr (g_obj g)))
      else Inr ep) = Inr obj" "obj < cur_element_count h" "lvl h c \<le> lvl h obj" by blast
  obtain s where "foldE (repair_level env q ep c) (obj, h) (rev [0..<Suc (lvl h c)]) = Inr s" "links_wf (snd s)" "graph_frame h (snd s)"
    using repair_levels_ok [OF wf M ef c(1) _ c(2) obj(2), of "Suc (lvl h c)" ep env q] obj(3) ep ml by auto
  then show ?thesis
    unfolding repairConnectionsForUpdate_def obj(1) using ml by simp
qed

subsection \<open>Changing an element in place\<close>

lemma elem_update_wf:
  assumes wf: "links_wf h" and ent: "entry_wf h" and i: "i < cur_element_count h"
    and e: "ll_count (e_links e) = ll_count (e_links (data_level0 h ! i))" "ll_slots (e_links e) = ll_slots (e_links (data_level0 h ! i))"
      "length (e_data e) = hn_data_size h"
    and h': "h' = (put_elem h i e)\<lparr>label_lookup := m, num_deleted := n, deleted_elements := ds\<rparr>"
  shows "links_wf h'" "entry_wf h'"
proof -
  have "links_wf (put_elem h i e)" by (rule links_wf_put_elem [OF wf i e])
  then show "links_wf h'"
    unfolding h' by (rule links_wf_cong [rotated -1]) (use wf in \<open>simp_all add: frame_simps links_wf_def\<close>)
  show "entry_wf h'" using ent unfolding h' entry_wf_def by (auto simp: frame_simps split: if_splits)
qed

lemma put_elem_deleted:
  assumes "links_wf h" and i: "i < cur_element_count h"
    and h': "h' = (put_elem h i e)\<lparr>label_lookup := m, num_deleted := n, deleted_elements := ds\<rparr>"
  shows "deleted_ids h' = (if elem_deleted e then insert i (deleted_ids h) else deleted_ids h - {i})"
  using links_wf_bounds(1) [OF assms(1) i] i by (auto simp: h' deleted_ids_def frame_simps)

lemma unmarkDeletedInternal_ok:
  assumes wf: "hnsw_wf h" and i: "i \<in> deleted_ids h"
  shows "\<exists>h'. unmarkDeletedInternal h i = Inr h' \<and> hnsw_wf h' \<and> deleted_ids h' = deleted_ids h - {i}
    \<and> label_lookup h' = label_lookup h \<and> cur_element_count h' = cur_element_count h \<and> same_params h h'
    \<and> (\<forall>j. e_data (data_level0 h' ! j) = e_data (data_level0 h ! j))"
proof -
  have links: "links_wf h" and ent: "entry_wf h" and lab: "labels_wf h" and del: "deleted_wf h" and ic: "i < cur_element_count h"
    and marked: "elem_deleted (data_level0 h ! i)"
    using wf i by (simp_all add: hnsw_wf_def deleted_ids_def)
  let ?e = "set_mark (\<lambda>b. b AND NOT DELETE_MARK) (data_level0 h ! i)"
  let ?ds = "if allow_replace_deleted h then removeAll i (deleted_elements h) else deleted_elements h"
  define h' where "h' = (put_elem h i ?e)\<lparr>label_lookup := label_lookup h, num_deleted := num_deleted h - 1, deleted_elements := ?ds\<rparr>"
  note b = links_wf_bounds [OF links ic]
  have run: "unmarkDeletedInternal h i = Inr h'"
    using ic marked b(1) by (simp add: unmarkDeletedInternal_def elem_at_def h'_def put_elem_def Let_def)
  have "\<not> elem_deleted ?e" by (simp add: elem_deleted_bit mark_bits)
  then have ids: "deleted_ids h' = deleted_ids h - {i}" using put_elem_deleted [OF links ic h'_def] by simp
  have "deleted_wf h'"
    unfolding deleted_wf_def ids using del i by (auto simp: deleted_wf_def h'_def frame_simps distinct_removeAll)
  moreover have "labels_wf h'"
    using lab b(1) by (auto simp: labels_wf_def h'_def frame_simps)
  ultimately have "hnsw_wf h'"
    using elem_update_wf [OF links ent ic _ _ _ h'_def] b(5) by (simp add: hnsw_wf_def)
  then show ?thesis using run ids b(1) by (auto simp: h'_def frame_simps same_params_def)
qed

lemma updatePoint_links:
  assumes links: "links_wf h" and ent: "entry_wf h" and i: "i < cur_element_count h" "i \<notin> deleted_ids h" and q: "length q = hn_data_size h"
    and M: "0 < hnM h" and ef: "1 \<le> ef_construction h" and iter: "\<And>xs. mset (uset_iter env xs) = mset xs"
  shows "\<exists>h'. updatePoint env h q i prob = Inr h' \<and> links_wf h' \<and> graph_frame (put_elem h i ((data_level0 h ! i)\<lparr>e_data := q\<rparr>)) h'"
proof -
  let ?e = "(data_level0 h ! i)\<lparr>e_data := q\<rparr>"
  define h1 where "h1 = put_elem h i ?e"
  note b = links_wf_bounds [OF links i(1)]
  have h1': "h1 = (put_elem h i ?e)\<lparr>label_lookup := label_lookup h, num_deleted := num_deleted h, deleted_elements := deleted_elements h\<rparr>"
    by (simp add: h1_def put_elem_def)
  have "\<not> elem_deleted ?e" using i by (simp add: deleted_ids_def elem_deleted_def)
  then have ids: "deleted_ids h1 = deleted_ids h" using put_elem_deleted [OF links i(1) h1'] i(2) by simp
  have links1: "links_wf h1" using elem_update_wf [OF links ent i(1) _ _ _ h1'] q by simp
  have f1: "cur_element_count h1 = cur_element_count h" "hnM h1 = hnM h" "ef_construction h1 = ef_construction h"
    "enterpoint_node h1 = enterpoint_node h" "maxlevel h1 = maxlevel h" "element_levels h1 = element_levels h"
    by (simp_all add: h1_def frame_simps)
  have set: "setData h i q = Inr h1" using b(1) q by (simp add: setData_def elem_at_def h1_def)
  show ?thesis
  proof (cases "enterpoint_node h1 = i \<and> cur_element_count h1 = 1")
    case True
    then show ?thesis using set links1 by (simp add: updatePoint_def h1_def [symmetric])
  next
    case False
    have "\<exists>h2. foldE (update_layer env i prob) h1 [0..<Suc (lvl h1 i)] = Inr h2 \<and> links_wf h2 \<and> graph_frame h1 h2"
    proof (rule foldE_total)
      show "links_wf h1 \<and> graph_frame h1 h1" using links1 by simp
      fix t layer assume layer: "layer \<in> set [0..<Suc (lvl h1 i)]" and t: "links_wf t \<and> graph_frame h1 t"
      note f = graph_frame_fields [OF conjunct2 [OF t]]
      have "\<exists>t'. update_layer env i prob t layer = Inr t' \<and> links_wf t' \<and> graph_frame t t'"
        using layer i ef by (intro update_layer_ok [OF conjunct1 [OF t]] iter) (auto simp: f f1)
      then show "\<exists>t'. update_layer env i prob t layer = Inr t' \<and> links_wf t' \<and> graph_frame h1 t'"
        using t graph_frame_trans by blast
    qed
    then obtain h2 where 2: "foldE (update_layer env i prob) h1 [0..<Suc (lvl h1 i)] = Inr h2" "links_wf h2" "graph_frame h1 h2" by blast
    note f2 = graph_frame_fields [OF 2(3)]
    have ep: "enterpoint_node h < cur_element_count h" "maxlevel h = int (lvl h (enterpoint_node h))" "int (lvl h i) \<le> maxlevel h"
      using ent i(1) by (auto simp: entry_wf_def split: if_splits)
    have "\<exists>h3. repairConnectionsForUpdate env h2 q (enterpoint_node h) i (lvl h2 i) (maxlevel h) = Inr h3 \<and> links_wf h3 \<and> graph_frame h2 h3"
      using M ef i ep ids graph_frame_elems(1) [OF 2(3) links1]
      by (intro repairConnections_ok [OF 2(2)]) (simp_all add: f1 f2)
    then obtain h3 where 3: "repairConnectionsForUpdate env h2 q (enterpoint_node h) i (lvl h2 i) (maxlevel h) = Inr h3" "links_wf h3" "graph_frame h2 h3"
      by blast
    have lv: "level_of h1 i = Inr (lvl h1 i)" using level_of_ok [OF links1] i(1) by (simp add: f1)
    have "updatePoint env h q i prob = Inr h3"
      using False 2(1) 3(1) unfolding updatePoint_def set by (auto simp: Let_def lv f1 f2)
    then show ?thesis using 3(2) graph_frame_trans [OF 2(3) 3(3)] unfolding h1_def by blast
  qed
qed

lemma setData_wf:
  assumes wf: "hnsw_wf h" and i: "i < cur_element_count h" "i \<notin> deleted_ids h" and q: "length q = hn_data_size h"
  shows "hnsw_wf (put_elem h i ((data_level0 h ! i)\<lparr>e_data := q\<rparr>))"
proof -
  let ?e = "(data_level0 h ! i)\<lparr>e_data := q\<rparr>"
  let ?h = "put_elem h i ?e"
  have links: "links_wf h" and ent: "entry_wf h" and lab: "labels_wf h" and del: "deleted_wf h"
    using wf by (simp_all add: hnsw_wf_def)
  have h': "?h = (put_elem h i ?e)\<lparr>label_lookup := label_lookup h, num_deleted := num_deleted h, deleted_elements := deleted_elements h\<rparr>"
    by (simp add: put_elem_def)
  have "\<not> elem_deleted ?e" using i by (simp add: deleted_ids_def elem_deleted_def)
  then have ids: "deleted_ids ?h = deleted_ids h" using put_elem_deleted [OF links i(1) h'] i(2) by simp
  have "labels_wf ?h" using lab links_wf_bounds(1) [OF links i(1)] by (auto simp: labels_wf_def frame_simps)
  moreover have "deleted_wf ?h" unfolding deleted_wf_def ids using del by (simp add: deleted_wf_def frame_simps)
  ultimately show ?thesis using elem_update_wf [OF links ent i(1) _ _ _ h'] q by (simp add: hnsw_wf_def)
qed

lemma updatePoint_ok:
  assumes wf: "hnsw_wf h" and i: "i < cur_element_count h" "i \<notin> deleted_ids h" and q: "length q = hn_data_size h"
    and M: "0 < hnM h" and ef: "1 \<le> ef_construction h" and iter: "\<And>xs. mset (uset_iter env xs) = mset xs"
  shows "\<exists>h'. updatePoint env h q i prob = Inr h' \<and> hnsw_wf h' \<and> graph_frame (put_elem h i ((data_level0 h ! i)\<lparr>e_data := q\<rparr>)) h'"
proof -
  have "links_wf h" "entry_wf h" using wf by (simp_all add: hnsw_wf_def)
  from updatePoint_links [OF this i q M ef iter] show ?thesis
    using graph_frame_hnsw_wf [OF _ _ setData_wf [OF wf i q]] by blast
qed

subsection \<open>Adding points\<close>

text \<open>The parameters an index needs to accept points, and what is asked of the environment.\<close>

definition accepts :: "'d hnsw_env \<Rightarrow> 'd hnsw \<Rightarrow> byte list \<Rightarrow> bool" where
  "accepts env h q \<longleftrightarrow> hnsw_wf h \<and> 0 < hnM h \<and> 1 \<le> ef_construction h \<and> length q = hn_data_size h
     \<and> (\<forall>n. malloc_ok env n) \<and> (\<forall>xs. mset (uset_iter env xs) = mset xs)"


lemma hn_demo_accepts: "accepts demo_env hn_demo [25]"
  using hn_demo_wf by (simp add: accepts_def hn_demo_params hn_demo_fields) (simp add: demo_env_def)


lemma addPoint_existing:
  assumes "accepts env h q" and lab: "label_lookup h label = Some i"
  shows "if i \<in> deleted_ids h \<and> allow_replace_deleted h
    then addPoint env h q label False
      = Inl (Throw ''Can't use addPoint to update deleted elements if replacement of deleted elements is enabled.'')
    else \<exists>h'. addPoint env h q label False = Inr h' \<and> hnsw_wf h' \<and> cur_element_count h' = cur_element_count h
      \<and> same_params h h' \<and> label_lookup h' = label_lookup h \<and> deleted_ids h' = deleted_ids h - {i}
      \<and> (\<forall>j<cur_element_count h. e_data (data_level0 h' ! j) = (if j = i then q else e_data (data_level0 h ! j)))"
proof -
  have wf: "hnsw_wf h" and links: "links_wf h" and i: "i < cur_element_count h" and iter: "\<And>xs. mset (uset_iter env xs) = mset xs"
    using assms by (auto simp: accepts_def hnsw_wf_def labels_wf_def)
  have del: "isMarkedDeleted h i = Inr (i \<in> deleted_ids h)"
    using i by (simp add: isMarkedDeleted_def elem_at_ok [OF links i] deleted_ids_def)
  show ?thesis
  proof (cases "i \<in> deleted_ids h \<and> allow_replace_deleted h")
    case True
    then show ?thesis using lab by (simp add: addPoint_def addPoint_level_def del)
  next
    case False
    have "\<exists>h1. (if i \<in> deleted_ids h then unmarkDeletedInternal h i else Inr h) = Inr h1 \<and> hnsw_wf h1
        \<and> deleted_ids h1 = deleted_ids h - {i} \<and> label_lookup h1 = label_lookup h \<and> cur_element_count h1 = cur_element_count h
        \<and> same_params h h1
        \<and> (\<forall>j. e_data (data_level0 h1 ! j) = e_data (data_level0 h ! j))"
      using unmarkDeletedInternal_ok [OF wf, of i] wf by (cases "i \<in> deleted_ids h") (auto simp: same_params_def)
    then obtain h1 where 1: "(if i \<in> deleted_ids h then unmarkDeletedInternal h i else Inr h) = Inr h1" "hnsw_wf h1"
      "deleted_ids h1 = deleted_ids h - {i}" "label_lookup h1 = label_lookup h" "cur_element_count h1 = cur_element_count h"
      "same_params h h1"
      "\<forall>j. e_data (data_level0 h1 ! j) = e_data (data_level0 h ! j)" by blast
    let ?p = "put_elem h1 i ((data_level0 h1 ! i)\<lparr>e_data := q\<rparr>)"
    have "\<exists>h'. updatePoint env h1 q i 1 = Inr h' \<and> hnsw_wf h' \<and> graph_frame ?p h'"
      using assms(1) i by (intro updatePoint_ok [OF 1(2)] iter) (use 1 in \<open>simp_all add: accepts_def same_params_def\<close>)
    then obtain h' where 2: "updatePoint env h1 q i 1 = Inr h'" "hnsw_wf h'" "graph_frame ?p h'" by blast
    have links1: "links_wf h1" using 1(2) by (simp add: hnsw_wf_def)
    have i1: "i < length (data_level0 h1)" using links_wf_bounds(1) [OF links1, of i] i 1(5) by simp
    have linksp: "links_wf ?p" using assms(1) by (intro links_wf_put_elem [OF links1]) (use 1 i in \<open>simp_all add: accepts_def same_params_def\<close>)
    have "e_data (data_level0 h' ! j) = (if j = i then q else e_data (data_level0 h ! j))" if "j < cur_element_count h" for j
      using graph_frame_elem(1) [OF 2(3), of j] that i1 1(7) links_wf_bounds(1) [OF links1, of j] 1(5) by (simp add: frame_simps)
    moreover have "deleted_ids ?p = deleted_ids h1"
      using i1 by (auto simp: deleted_ids_def frame_simps elem_deleted_def)
    then have "deleted_ids h' = deleted_ids h - {i}" using graph_frame_elems(1) [OF 2(3) linksp] 1(3) by simp
    moreover have "addPoint env h q label False = Inr h'"
      using lab False 1(1) 2(1) by (auto simp: addPoint_def addPoint_level_def del)
    ultimately show ?thesis
      using False 2(2) graph_frame_fields [OF 2(3)] 1(4-6) by (auto simp: frame_simps same_params_def)
  qed
qed



text \<open>
  The state after the label and the mark of a deleted element were changed, before \<open>updatePoint\<close>.
\<close>

definition revived :: "'d hnsw \<Rightarrow> tableint \<Rightarrow> labeltype \<Rightarrow> 'd hnsw" where
  "revived h i label =
     (put_elem h i (set_mark (\<lambda>b. b AND NOT DELETE_MARK) ((data_level0 h ! i)\<lparr>e_label := label\<rparr>)))
       \<lparr>label_lookup := (label_lookup h)(e_label (data_level0 h ! i) := None, label \<mapsto> i),
        num_deleted := num_deleted h - 1, deleted_elements := removeAll i (deleted_elements h)\<rparr>"

lemma addPoint_revives:
  assumes "links_wf h" and i: "i = hd (uset_iter env (deleted_elements h))" "i \<in> deleted_ids h"
    and allow: "allow_replace_deleted h" and ne: "deleted_elements h \<noteq> []"
  shows "addPoint env h q label True = updatePoint env (revived h i label) q i 1"
proof -
  have b: "i < cur_element_count h" "i < length (data_level0 h)" "elem_deleted (data_level0 h ! i)"
    using i links_wf_bounds(1) [OF assms(1), of i] by (auto simp: deleted_ids_def)
  then have "elem_deleted ((data_level0 h ! i)\<lparr>e_label := label\<rparr>)" by (simp add: elem_deleted_def)
  then have "addPoint env h q label True = updatePoint env
      (h\<lparr>label_lookup := (label_lookup h)(e_label (data_level0 h ! i) := None, label \<mapsto> i),
         data_level0 := (data_level0 h)[i := set_mark (\<lambda>b. b AND NOT DELETE_MARK) ((data_level0 h ! i)\<lparr>e_label := label\<rparr>)],
         num_deleted := num_deleted h - 1, deleted_elements := removeAll i (deleted_elements h)\<rparr>) q i 1"
    using b allow ne
    by (simp add: addPoint_def Let_def i(1) [symmetric] getExternalLabel_def setExternalLabel_def elem_at_def put_elem_def
        unmarkDeletedInternal_def)
  also have "(h\<lparr>label_lookup := (label_lookup h)(e_label (data_level0 h ! i) := None, label \<mapsto> i),
         data_level0 := (data_level0 h)[i := set_mark (\<lambda>b. b AND NOT DELETE_MARK) ((data_level0 h ! i)\<lparr>e_label := label\<rparr>)],
         num_deleted := num_deleted h - 1, deleted_elements := removeAll i (deleted_elements h)\<rparr>) = revived h i label"
    by (rule hnsw.equality) (simp_all add: revived_def put_elem_def)
  finally show ?thesis .
qed

lemma revived_links:
  assumes links: "links_wf h" and ent: "entry_wf h" and i: "i \<in> deleted_ids h"
  shows "links_wf (revived h i label)" "entry_wf (revived h i label)" "deleted_ids (revived h i label) = deleted_ids h - {i}"
proof -
  have ic: "i < cur_element_count h" using i by (simp add: deleted_ids_def)
  have "\<not> elem_deleted (set_mark (\<lambda>b. b AND NOT DELETE_MARK) ((data_level0 h ! i)\<lparr>e_label := label\<rparr>))"
    by (simp add: elem_deleted_bit mark_bits)
  then show "deleted_ids (revived h i label) = deleted_ids h - {i}" using put_elem_deleted [OF links ic revived_def] by simp
  show "links_wf (revived h i label)" "entry_wf (revived h i label)"
    using elem_update_wf [OF links ent ic _ _ _ revived_def] links_wf_bounds(5) [OF links ic] by simp_all
qed

lemma revived_wf:
  assumes wf: "hnsw_wf h" and i: "i \<in> deleted_ids h" and allow: "allow_replace_deleted h"
    and new: "label_lookup h label = None \<or> label_lookup h label = Some i"
  shows "hnsw_wf (revived h i label)" "deleted_ids (revived h i label) = deleted_ids h - {i}"
proof -
  let ?h = "revived h i label"
  have links: "links_wf h" and ent: "entry_wf h" and del: "deleted_wf h" and ic: "i < cur_element_count h"
    using wf i by (simp_all add: hnsw_wf_def deleted_ids_def)
  note b = links_wf_bounds [OF links ic] and rl = revived_links [OF links ent i, of label]
  show ids: "deleted_ids ?h = deleted_ids h - {i}" by (rule rl(3))
  have lab: "label_lookup h l = Some j \<longleftrightarrow> j < cur_element_count h \<and> e_label (data_level0 h ! j) = l" for l j
    using wf by (simp add: hnsw_wf_def labels_wf_def)
  have "label_lookup ?h l = Some j \<longleftrightarrow> j < cur_element_count ?h \<and> e_label (data_level0 ?h ! j) = l" for l j
  proof (cases "j = i")
    case True
    then show ?thesis using ic b(1) lab [of l i] by (auto simp: revived_def frame_simps)
  next
    case False
    then have "e_label (data_level0 h ! j) \<noteq> e_label (data_level0 h ! i)" if "j < cur_element_count h"
      using label_inj [of h j i] wf ic that by (auto simp: hnsw_wf_def)
    then show ?thesis
      using False b(1) lab [of l j] lab [of label j] new by (auto simp: revived_def frame_simps)
  qed
  then have "labels_wf ?h" unfolding labels_wf_def by blast
  moreover have "deleted_wf ?h"
    unfolding deleted_wf_def ids using del i allow by (auto simp: deleted_wf_def revived_def frame_simps distinct_removeAll)
  ultimately show "hnsw_wf ?h" using rl(1,2) by (simp add: hnsw_wf_def)
qed

lemma addPoint_replaces:
  assumes "accepts env h q" and allow: "allow_replace_deleted h" and del: "deleted_ids h \<noteq> {}" and new: "label_lookup h label = None"
  shows "\<exists>i h'. i \<in> deleted_ids h \<and> addPoint env h q label True = Inr h' \<and> hnsw_wf h' \<and> same_params h h'
    \<and> cur_element_count h' = cur_element_count h \<and> num_deleted h' + 1 = num_deleted h \<and> deleted_ids h' = deleted_ids h - {i}
    \<and> label_lookup h' = (label_lookup h)(e_label (data_level0 h ! i) := None, label \<mapsto> i)
    \<and> e_data (data_level0 h' ! i) = q"
proof -
  have wf: "hnsw_wf h" and links: "links_wf h" and dwf: "deleted_wf h" and iter: "\<And>xs. mset (uset_iter env xs) = mset xs"
    using assms(1) by (simp_all add: accepts_def hnsw_wf_def)
  have ds: "set (deleted_elements h) = deleted_ids h" using dwf allow by (simp add: deleted_wf_def)
  then have ne: "deleted_elements h \<noteq> []" using del by auto
  define i where "i = hd (uset_iter env (deleted_elements h))"
  have "set (uset_iter env (deleted_elements h)) = deleted_ids h" using iter ds by (metis set_mset_mset)
  then have i: "i \<in> deleted_ids h" using del unfolding i_def by (metis hd_in_set set_empty)
  let ?r = "revived h i label"
  let ?p = "put_elem ?r i ((data_level0 ?r ! i)\<lparr>e_data := q\<rparr>)"
  note rwf = revived_wf [OF wf i allow disjI1 [OF new]]
  have ic: "i < cur_element_count h" using i by (simp add: deleted_ids_def)
  have fr: "cur_element_count ?r = cur_element_count h" "hnM ?r = hnM h" "ef_construction ?r = ef_construction h" "hn_data_size ?r = hn_data_size h"
    by (simp_all add: revived_def frame_simps)
  have "\<exists>h'. updatePoint env ?r q i 1 = Inr h' \<and> hnsw_wf h' \<and> graph_frame ?p h'"
    using assms(1) ic by (intro updatePoint_ok [OF rwf(1)] iter) (simp_all add: accepts_def fr rwf(2))
  then obtain h' where h': "updatePoint env ?r q i 1 = Inr h'" "hnsw_wf h'" "graph_frame ?p h'" by blast
  note f = graph_frame_fields [OF h'(3)]
  have linksr: "links_wf ?r" using rwf(1) by (simp add: hnsw_wf_def)
  have linksp: "links_wf ?p" using assms(1) by (intro links_wf_put_elem [OF linksr]) (simp_all add: fr ic accepts_def)
  have len: "i < length (data_level0 ?r)" using links_wf_bounds(1) [OF linksr] ic fr by simp
  have "deleted_ids ?p = deleted_ids ?r" using len by (auto simp: deleted_ids_def frame_simps elem_deleted_def)
  then have ids: "deleted_ids h' = deleted_ids h - {i}" using graph_frame_elems(1) [OF h'(3) linksp] rwf(2) by simp
  have "num_deleted h' = card (deleted_ids h - {i})"
    unfolding ids [symmetric] using h'(2) by (simp add: hnsw_wf_def deleted_wf_def)
  then have "num_deleted h' + 1 = num_deleted h"
    using dwf card_Suc_Diff1 [OF finite_deleted_ids i] by (simp only: deleted_wf_def Suc_eq_plus1)
  moreover have "e_data (data_level0 h' ! i) = q" using graph_frame_elem(1) [OF h'(3), of i] len by (simp add: frame_simps)
  moreover have "addPoint env h q label True = Inr h'"
    using addPoint_revives [OF links i_def i allow ne] h'(1) by simp
  ultimately show ?thesis
    using i h'(2) ids by (intro exI [of _ i] exI [of _ h']) (simp add: f frame_simps revived_def same_params_def)
qed

text \<open>
  \<^bold>\<open>C22.\<close> Adding a point with replacement of deleted elements: some deleted element is taken over under the new label with
  the new vector. The index stays well formed, the number of elements does not grow, one deletion
  less is counted, and the label of the replaced element is gone.
\<close>

theorem addPoint_replaces_deleted:
  assumes "accepts env h q" and allow: "allow_replace_deleted h" and del: "deleted_ids h \<noteq> {}" and new: "label_lookup h label = None"
  shows "\<exists>i h'. i \<in> deleted_ids h \<and> addPoint env h q label True = Inr h' \<and> hnsw_wf h'
    \<and> cur_element_count h' = cur_element_count h \<and> num_deleted h' + 1 = num_deleted h \<and> deleted_ids h' = deleted_ids h - {i}
    \<and> label_lookup h' = (label_lookup h)(e_label (data_level0 h ! i) := None, label \<mapsto> i)
    \<and> e_data (data_level0 h' ! i) = q"
  using addPoint_replaces [OF assms] by blast

lemma hn_demo_marked:
  "\<exists>h. markDelete hn_demo 8 = Inr h \<and> accepts demo_env h [25] \<and> allow_replace_deleted h \<and> deleted_ids h = {1}
    \<and> label_lookup h = label_lookup hn_demo"
proof -
  obtain h where h: "markDeletedInternal hn_demo 1 = Inr h" "hnsw_wf h" "deleted_ids h = insert 1 (deleted_ids hn_demo)"
    "label_lookup h = label_lookup hn_demo"
    using markDeletedInternal_ok [OF hn_demo_wf, of 1] by (auto simp: hn_demo_fields hn_demo_deleted)
  have "allow_replace_deleted hn_demo" by (simp add: hn_demo_def)
  then show ?thesis
    using h hn_demo_accepts markDeletedInternal_params [OF h(1)]
    by (intro exI [of _ h]) (auto simp: markDelete_def find_label_def hn_demo_fields hn_demo_deleted accepts_def same_params_def)
qed

theorem addPoint_replaces_deleted_witness:
  "\<exists>h h'. markDelete hn_demo 8 = Inr h \<and> addPoint demo_env h [25] 5 True = Inr h' \<and> hnsw_wf h' \<and> deleted_ids h' = {}"
proof -
  obtain h where h: "markDelete hn_demo 8 = Inr h" "accepts demo_env h [25]" "allow_replace_deleted h" "deleted_ids h = {1}"
    "label_lookup h = label_lookup hn_demo" using hn_demo_marked by blast
  have "label_lookup h 5 = None" unfolding h(5) by (simp add: hn_demo_def)
  then show ?thesis using addPoint_replaces_deleted [OF h(2,3), of 5] h(1,4) by auto
qed

text \<open>
  \<^bold>\<open>C23.\<close> Replacement does not look for the label in the index: if the label already belongs to a live element, adding a point
  under it with \<open>replace_deleted\<close> leaves two live elements with the same label. The label then finds
  only the replaced element.
\<close>

theorem addPoint_replace_duplicates:
  assumes "accepts env h q" and allow: "allow_replace_deleted h" and del: "deleted_ids h \<noteq> {}"
    and lab: "label_lookup h label = Some j" and live: "j \<notin> deleted_ids h"
  shows "\<exists>i h'. addPoint env h q label True = Inr h' \<and> i \<noteq> j \<and> label_lookup h' label = Some i
    \<and> i < cur_element_count h' \<and> j < cur_element_count h' \<and> i \<notin> deleted_ids h' \<and> j \<notin> deleted_ids h'
    \<and> e_label (data_level0 h' ! i) = label \<and> e_label (data_level0 h' ! j) = label \<and> \<not> labels_wf h'"
proof -
  have links: "links_wf h" and ent: "entry_wf h" and labs: "labels_wf h" and dwf: "deleted_wf h" and iter: "\<And>xs. mset (uset_iter env xs) = mset xs"
    using assms(1) by (simp_all add: accepts_def hnsw_wf_def)
  have ds: "set (deleted_elements h) = deleted_ids h" using dwf allow by (simp add: deleted_wf_def)
  then have ne: "deleted_elements h \<noteq> []" using del by auto
  define i where "i = hd (uset_iter env (deleted_elements h))"
  have "set (uset_iter env (deleted_elements h)) = deleted_ids h" using iter ds by (metis set_mset_mset)
  then have i: "i \<in> deleted_ids h" using del unfolding i_def by (metis hd_in_set set_empty)
  let ?r = "revived h i label"
  let ?p = "put_elem ?r i ((data_level0 ?r ! i)\<lparr>e_data := q\<rparr>)"
  note rl = revived_links [OF links ent i, of label]
  have ic: "i < cur_element_count h" and jc: "j < cur_element_count h" "e_label (data_level0 h ! j) = label" "i \<noteq> j"
    using i lab labs live by (auto simp: deleted_ids_def labels_wf_def)
  have fr: "cur_element_count ?r = cur_element_count h" "hnM ?r = hnM h" "ef_construction ?r = ef_construction h" "hn_data_size ?r = hn_data_size h"
    by (simp_all add: revived_def frame_simps)
  have "\<exists>h'. updatePoint env ?r q i 1 = Inr h' \<and> links_wf h' \<and> graph_frame ?p h'"
    using assms(1) ic by (intro updatePoint_links [OF rl(1,2)] iter) (simp_all add: accepts_def fr rl(3))
  then obtain h' where h': "updatePoint env ?r q i 1 = Inr h'" "graph_frame ?p h'" by blast
  note f = graph_frame_fields [OF h'(2)]
  have len: "i < length (data_level0 h)" "j < length (data_level0 h)"
    using links_wf_bounds(1) [OF links ic] links_wf_bounds(1) [OF links jc(1)] by simp_all
  then have lens: "i < length (data_level0 ?p)" "j < length (data_level0 ?p)" "i < length (data_level0 ?r)"
    by (simp_all add: frame_simps revived_def)
  have labels: "e_label (data_level0 h' ! i) = label" "e_label (data_level0 h' ! j) = label"
    using graph_frame_elem(2) [OF h'(2) lens(1)] graph_frame_elem(2) [OF h'(2) lens(2)] jc len lens(3)
    by (simp_all add: revived_def)
  have linksp: "links_wf ?p" using assms(1) by (intro links_wf_put_elem [OF rl(1)]) (simp_all add: fr ic accepts_def)
  have "deleted_ids ?p = deleted_ids ?r" using lens(3) by (auto simp: deleted_ids_def frame_simps elem_deleted_def)
  then have ids: "deleted_ids h' = deleted_ids h - {i}" using graph_frame_elems(1) [OF h'(2) linksp] rl(3) by simp
  have cnt: "cur_element_count h' = cur_element_count h" by (simp add: f frame_simps fr)
  then have "\<not> labels_wf h'" using label_inj [of h' i j] labels ic jc by auto
  moreover have "label_lookup h' label = Some i" by (simp add: f frame_simps revived_def)
  moreover have "addPoint env h q label True = Inr h'" using addPoint_revives [OF links i_def i allow ne] h'(1) by simp
  ultimately show ?thesis
    using labels ids cnt ic jc live by (intro exI [of _ i] exI [of _ h']) simp
qed

theorem addPoint_replace_duplicates_witness:
  "\<exists>h h' i. markDelete hn_demo 8 = Inr h \<and> addPoint demo_env h [25] 7 True = Inr h' \<and> i \<noteq> 0
    \<and> e_label (data_level0 h' ! i) = 7 \<and> e_label (data_level0 h' ! 0) = 7 \<and> i \<notin> deleted_ids h' \<and> 0 \<notin> deleted_ids h'"
proof -
  obtain h where h: "markDelete hn_demo 8 = Inr h" "accepts demo_env h [25]" "allow_replace_deleted h" "deleted_ids h = {1}"
    "label_lookup h = label_lookup hn_demo" using hn_demo_marked by blast
  have "label_lookup h 7 = Some 0" unfolding h(5) by (simp add: hn_demo_def)
  then show ?thesis using addPoint_replace_duplicates [OF h(2,3), of 7 0] h(1,4) by auto
qed

end
