(* ===== verification/Hnsw_Integrity.thy ===== *)
theory Hnsw_Integrity
  imports Hnsw_Connect
begin

text \<open>
  \<open>checkIntegrity\<close> on a well-formed index: which of its assertions can fail, and what it counts.
\<close>

definition all_links :: "'d hnsw \<Rightarrow> tableint list" where
  "all_links h = concat (map (\<lambda>i. concat (map (nbrs h i) [0..<Suc (lvl h i)])) [0..<cur_element_count h])"

text \<open>The state of the loops after the links \<open>L\<close> were seen.\<close>

definition counted :: "'d hnsw \<Rightarrow> tableint list \<Rightarrow> nat \<times> nat list" where
  "counted h L = (length L, map (count_list L) [0..<cur_element_count h])"

lemma count_list_snoc: "count_list (xs @ [y]) x = count_list xs x + (if x = y then 1 else 0)"
  by simp

lemma check_link_counted:
  assumes "d < cur_element_count h" and "d \<noteq> i"
  shows "check_link h i (counted h L) d = Inr (counted h (L @ [d]))"
proof -
  have "(map (count_list L) [0..<cur_element_count h])[d := count_list L d + 1] = map (count_list (L @ [d])) [0..<cur_element_count h]"
    using assms(1) by (intro nth_equalityI) (auto simp: nth_list_update)
  then show ?thesis using assms by (simp add: check_link_def counted_def)
qed

lemma check_links_counted:
  "\<forall>d\<in>set ids. d < cur_element_count h \<and> d \<noteq> i \<Longrightarrow> foldE (check_link h i) (counted h L) ids = Inr (counted h (L @ ids))"
proof (induction ids arbitrary: L)
  case (Cons d ids)
  then show ?case using Cons.IH [of "L @ [d]"] by (simp add: check_link_counted)
qed simp

lemma uset_of_distinct: "distinct ids \<Longrightarrow> set xs \<inter> set ids = {} \<Longrightarrow> foldl (\<lambda>c el. uset_insert el c) xs ids = xs @ ids"
  by (induction ids arbitrary: xs) (auto simp: uset_insert_def)

lemma check_level_counted:
  assumes wf: "links_wf h" and i: "i < cur_element_count h" "l \<le> lvl h i"
  shows "check_level h i (counted h L) l = Inr (counted h (L @ nbrs h i l))"
proof -
  have "\<forall>d\<in>set (nbrs h i l). d < cur_element_count h \<and> d \<noteq> i" using nbrs_ok(3) [OF wf i] by blast
  moreover have "foldl (\<lambda>c el. uset_insert el c) [] (nbrs h i l) = nbrs h i l"
    using uset_of_distinct [OF nbrs_ok(1) [OF wf i], of "[]"] by simp
  ultimately show ?thesis by (simp add: check_level_def getConnections_ok [OF wf i] check_links_counted)
qed

lemma check_element_counted:
  assumes wf: "links_wf h" and i: "i < cur_element_count h"
  shows "check_element h (counted h L) i = Inr (counted h (L @ concat (map (nbrs h i) [0..<Suc (lvl h i)])))"
proof -
  have "foldE (check_level h i) (counted h L) [0..<n] = Inr (counted h (L @ concat (map (nbrs h i) [0..<n])))" if "n \<le> Suc (lvl h i)" for n
    using that
  proof (induction n)
    case (Suc n)
    then show ?case using check_level_counted [OF wf i, of n] by (simp add: foldE_append)
  qed simp
  from this [of "Suc (lvl h i)"] show ?thesis
    using wf i by (simp add: check_element_def level_of_def links_wf_def)
qed

lemma check_elements_counted:
  assumes wf: "links_wf h"
  shows "foldE (check_element h) (0, replicate (cur_element_count h) 0) [0..<cur_element_count h] = Inr (counted h (all_links h))"
proof -
  have start: "(0, replicate (cur_element_count h) 0) = counted h []"
    by (auto simp: counted_def intro: nth_equalityI)
  have "foldE (check_element h) (counted h []) [0..<n]
      = Inr (counted h (concat (map (\<lambda>i. concat (map (nbrs h i) [0..<Suc (lvl h i)])) [0..<n])))" if "n \<le> cur_element_count h" for n
    using that
  proof (induction n)
    case (Suc n)
    then show ?case using check_element_counted [OF wf, of n] by (simp add: foldE_append)
  qed simp
  from this [of "cur_element_count h"] show ?thesis by (simp add: start all_links_def)
qed

lemma min_max_fold:
  fixes f :: "nat \<Rightarrow> nat"
  assumes "0 < n"
  shows "foldE (\<lambda>mm i. bindE (guardE (0 < f i) Assertion) (\<lambda>_. Inr (min (f i) (fst mm), max (f i) (snd mm)))) (f 0, f 0) [0..<n]
    = (if \<forall>i<n. 0 < f i then Inr (Min (f ` {..<n}), Max (f ` {..<n})) else Inl Assertion)"
  using assms
proof (induction n)
  case (Suc n)
  show ?case
  proof (cases "n = 0")
    case False
    have "f ` {..<Suc n} = insert (f n) (f ` {..<n})" by (simp add: lessThan_Suc)
    moreover have "f ` {..<n} \<noteq> {}" using False by auto
    ultimately have "Min (f ` {..<Suc n}) = min (f n) (Min (f ` {..<n}))" "Max (f ` {..<Suc n}) = max (f n) (Max (f ` {..<n}))"
      by simp_all
    then show ?thesis using Suc False by (auto simp: foldE_append guardE_def less_Suc_eq)
  qed (simp add: guardE_def lessThan_Suc)
qed simp



end
