(* ===== verification/Hnsw_Persist.thy ===== *)
theory Hnsw_Persist
  imports Hnsw_State
begin

text \<open>
  \<open>hnswlib/hnswalg.h\<close>: \<open>clear\<close>, \<open>indexFileSize\<close>, \<open>saveIndex\<close>, \<open>loadIndex\<close> and the constructor that
  loads a file.

  A file is a list of bytes. Saving writes the bytes of the element records and of the link lists.
  Loading reads the memory block back through the offsets the file gives: the records that result
  hold what the accessors of the class read from that memory.

  The position of an \<open>ifstream\<close> is \<open>Some p\<close>, or \<open>None\<close> once the stream has failed, after which reads
  and seeks do nothing and \<open>tellg\<close> returns \<open>-1\<close>. A seek may leave the position behind the end.
\<close>

subsection \<open>Records as bytes\<close>

definition links_bytes :: "linklist \<Rightarrow> byte list" where
  "links_bytes ll = le_bytes 2 (ll_count ll) @ [ll_mark ll, ll_pad ll] @ concat (map (le_bytes 4) (ll_slots ll))"

definition elem_bytes :: "elem \<Rightarrow> byte list" where
  "elem_bytes e = links_bytes (e_links e) @ e_data e @ le_bytes 8 (e_label e)"

definition read_links :: "byte list \<Rightarrow> nat \<Rightarrow> nat \<Rightarrow> linklist" where
  "read_links mem off cap =
     \<lparr>ll_count = le_val (get_bytes mem off 2), ll_mark = of_nat (le_val (get_bytes mem (off + 2) 1)),
      ll_pad = of_nat (le_val (get_bytes mem (off + 3) 1)),
      ll_slots = map (\<lambda>k. le_val (get_bytes mem (off + 4 + 4 * k) 4)) [0..<cap]\<rparr>"

definition read_elem :: "'d hnsw \<Rightarrow> byte list \<Rightarrow> nat \<Rightarrow> elem" where
  "read_elem h mem i =
     (let base = i * size_data_per_element h in
      \<lparr>e_links = read_links mem (base + offsetLevel0 h) (maxM0 h),
       e_data = get_bytes mem (base + offsetData h) (hn_data_size h),
       e_label = le_val (get_bytes mem (base + label_offset h) 8)\<rparr>)"

subsection \<open>Input streams\<close>

type_synonym stream_pos = "nat option"

definition tellg :: "stream_pos \<Rightarrow> int" where
  "tellg st = (case st of None \<Rightarrow> -1 | Some p \<Rightarrow> int p)"

text \<open>\<open>seekg(off, input.cur)\<close>; the offset is a signed 64-bit number.\<close>

definition seek_cur :: "int \<Rightarrow> stream_pos \<Rightarrow> stream_pos" where
  "seek_cur off st =
     (case st of None \<Rightarrow> None
      | Some p \<Rightarrow> if 0 \<le> int p + off \<and> int p + off < 2 ^ 63 then Some (nat (int p + off)) else None)"

definition signed64 :: "nat \<Rightarrow> int" where
  "signed64 n = (let m = n mod 2 ^ 64 in if m < 2 ^ 63 then int m else int m - 2 ^ 64)"

definition signed32 :: "nat \<Rightarrow> int" where
  "signed32 n = (let m = n mod 2 ^ 32 in if m < 2 ^ 31 then int m else int m - 2 ^ 32)"

definition read_pod :: "byte list \<Rightarrow> nat \<Rightarrow> nat \<Rightarrow> stream_pos \<Rightarrow> nat \<times> stream_pos" where
  "read_pod file n old st =
     (case st of None \<Rightarrow> (old, None)
      | Some p \<Rightarrow> (fst (readBinaryPOD (drop p file) n old), if p + n \<le> length file then Some (p + n) else None))"

definition read_block :: "byte list \<Rightarrow> nat \<Rightarrow> stream_pos \<Rightarrow> byte list \<times> stream_pos" where
  "read_block file n st =
     (case st of None \<Rightarrow> ([], None)
      | Some p \<Rightarrow> (get_bytes file p n, if p + n \<le> length file then Some (p + n) else None))"

subsection \<open>Saving\<close>

definition linkListSize :: "'d hnsw \<Rightarrow> nat \<Rightarrow> nat" where
  "linkListSize h i = (if 0 < lvl h i then size_links_per_element h * lvl h i else 0) mod 2 ^ 32"

definition indexFileSize :: "'d hnsw \<Rightarrow> nat" where
  "indexFileSize h =
     (let size = 8 + 8 + 8 + 8 + 8 + 8 + 4 + 4 + 8;
          size = size + (8 + 8 + 8 + 8);
          size = size + cur_element_count h * size_data_per_element h
      in foldl (\<lambda>size i. size + 4 + linkListSize h i) size [0..<cur_element_count h] mod 2 ^ 64)"

definition save_lists :: "'d hnsw \<Rightarrow> byte list \<Rightarrow> nat \<Rightarrow> byte list" where
  "save_lists h out i =
     (let out = writeBinaryPOD out 4 (linkListSize h i) in
      if linkListSize h i \<noteq> 0 then out @ take (linkListSize h i) (concat (map links_bytes (linkLists h ! i))) else out)"

definition saveIndex :: "'d hnsw \<Rightarrow> byte list" where
  "saveIndex h =
     (let out = writeBinaryPOD [] 8 (offsetLevel0 h);
          out = writeBinaryPOD out 8 (max_elements h);
          out = writeBinaryPOD out 8 (cur_element_count h);
          out = writeBinaryPOD out 8 (size_data_per_element h);
          out = writeBinaryPOD out 8 (label_offset h);
          out = writeBinaryPOD out 8 (offsetData h);
          out = writeBinaryPOD out 4 (nat (maxlevel h mod 2 ^ 32));
          out = writeBinaryPOD out 4 (enterpoint_node h);
          out = writeBinaryPOD out 8 (maxM h);
          out = writeBinaryPOD out 8 (maxM0 h);
          out = writeBinaryPOD out 8 (hnM h);
          out = writeBinaryPOD out 8 (hnMult h);
          out = writeBinaryPOD out 8 (ef_construction h);
          out = out @ take (cur_element_count h * size_data_per_element h mod 2 ^ 64) (concat (map elem_bytes (data_level0 h)))
      in foldl (save_lists h) out [0..<cur_element_count h])"

subsection \<open>Loading\<close>

text \<open>\<open>clear\<close>: an index without memory; the visited lists are gone.\<close>

definition clear :: "'d hnsw \<Rightarrow> 'd hnsw" where
  "clear h = h\<lparr>data_level0 := [], linkLists := [], cur_element_count := 0,
     vl_pool := \<lparr>pool = [], pool_numelements = 0\<rparr>\<rparr>"

definition load_header :: "byte list \<Rightarrow> nat \<Rightarrow> 'd hnsw \<Rightarrow> 'd hnsw \<times> stream_pos" where
  "load_header file max_elements_i h =
     (let (v, st) = read_pod file 8 (offsetLevel0 h) (Some 0); h = h\<lparr>offsetLevel0 := v\<rparr>;
          (v, st) = read_pod file 8 (max_elements h) st; h = h\<lparr>max_elements := v\<rparr>;
          (v, st) = read_pod file 8 (cur_element_count h) st; h = h\<lparr>cur_element_count := v\<rparr>;
          max_els = (if max_elements_i < cur_element_count h then max_elements h else max_elements_i);
          h = h\<lparr>max_elements := max_els\<rparr>;
          (v, st) = read_pod file 8 (size_data_per_element h) st; h = h\<lparr>size_data_per_element := v\<rparr>;
          (v, st) = read_pod file 8 (label_offset h) st; h = h\<lparr>label_offset := v\<rparr>;
          (v, st) = read_pod file 8 (offsetData h) st; h = h\<lparr>offsetData := v\<rparr>;
          (v, st) = read_pod file 4 (nat (maxlevel h mod 2 ^ 32)) st; h = h\<lparr>maxlevel := signed32 v\<rparr>;
          (v, st) = read_pod file 4 (enterpoint_node h) st; h = h\<lparr>enterpoint_node := v\<rparr>;
          (v, st) = read_pod file 8 (maxM h) st; h = h\<lparr>maxM := v\<rparr>;
          (v, st) = read_pod file 8 (maxM0 h) st; h = h\<lparr>maxM0 := v\<rparr>;
          (v, st) = read_pod file 8 (hnM h) st; h = h\<lparr>hnM := v\<rparr>;
          (v, st) = read_pod file 8 (hnMult h) st; h = h\<lparr>hnMult := v\<rparr>;
          (v, st) = read_pod file 8 (ef_construction h) st; h = h\<lparr>ef_construction := v\<rparr>
      in (h, st))"

definition corrupted :: hnsw_error where
  "corrupted = Throw ''Index seems to be corrupted or unsupported''"

text \<open>
  The loop that walks the sizes of the link lists. The size is an uninitialised local before it is read; after a
  short read the stream has failed and the next test throws, whatever the size was.
\<close>

fun check_lists :: "byte list \<Rightarrow> nat \<Rightarrow> stream_pos \<Rightarrow> hnsw_error + stream_pos" where
  "check_lists file 0 st = Inr st"
| "check_lists file (Suc n) st =
     (if tellg st < 0 \<or> int (length file) \<le> tellg st then Inl corrupted
      else let (size, st) = read_pod file 4 0 st
           in check_lists file n (if size \<noteq> 0 then seek_cur (int size) st else st))"

text \<open>The body of the loop that reads the link lists.\<close>

definition load_element ::
    "'d hnsw_env \<Rightarrow> byte list \<Rightarrow> 'd hnsw \<times> stream_pos \<Rightarrow> nat \<Rightarrow> hnsw_error + 'd hnsw \<times> stream_pos" where
  "load_element env file s i =
     (let h = fst s in
      bindE (getExternalLabel h i) (\<lambda>label.
      let h = h\<lparr>label_lookup := (label_lookup h)(label \<mapsto> i)\<rparr>;
          (size, st) = read_pod file 4 0 (snd s)
      in bindE (guardE (i < length (element_levels h) \<and> i < length (linkLists h)) Bad_access) (\<lambda>_.
         if size = 0 then
           Inr (h\<lparr>element_levels := (element_levels h)[i := 0], linkLists := (linkLists h)[i := []]\<rparr>, st)
         else
           bindE (guardE (size_links_per_element h \<noteq> 0) Bad_access) (\<lambda>_.
           let level = size div size_links_per_element h;
               h = h\<lparr>element_levels := (element_levels h)[i := level]\<rparr>
           in bindE (guardE (malloc_ok env size) (Throw ''Not enough memory: loadIndex failed to allocate linklist'')) (\<lambda>_.
              let (bytes, st) = read_block file size st in
              Inr (h\<lparr>linkLists := (linkLists h)[i :=
                      map (\<lambda>k. read_links bytes (k * size_links_per_element h) (maxM h)) [0..<level]]\<rparr>, st))))))"

text \<open>The loop that counts the deleted elements.\<close>

definition count_deleted :: "'d hnsw \<Rightarrow> nat \<Rightarrow> hnsw_error + 'd hnsw" where
  "count_deleted h i =
     bindE (isMarkedDeleted h i) (\<lambda>del. Inr (if del then
       (let h = h\<lparr>num_deleted := num_deleted h + 1\<rparr>
        in if allow_replace_deleted h then h\<lparr>deleted_elements := uset_insert i (deleted_elements h)\<rparr> else h) else h))"

text \<open>
  \<open>loadIndex\<close>; the file is \<open>None\<close> when it cannot be opened. A read of the level-0 block that is longer than the
  block \<open>malloc\<close> returned, and a length that is negative as a \<open>streamsize\<close>, are \<open>Bad_access\<close>.
\<close>

definition loadIndex ::
    "'d hnsw_env \<Rightarrow> byte list option \<Rightarrow> 'd space_interface \<Rightarrow> nat \<Rightarrow> 'd hnsw \<Rightarrow> hnsw_error + 'd hnsw" where
  "loadIndex env location s max_elements_i h =
     (case location of None \<Rightarrow> Inl (Throw ''Cannot open file'')
      | Some file \<Rightarrow>
        let (h, st) = load_header file max_elements_i (clear h);
            max_els = max_elements h; cur = cur_element_count h;
            h = h\<lparr>hn_data_size := get_data_size s, hn_fstdistfunc := get_dist_func s\<rparr>;
            pos = st
        in bindE (check_lists file cur (seek_cur (signed64 (cur * size_data_per_element h)) st)) (\<lambda>st.
           if tellg st \<noteq> int (length file) then Inl corrupted
           else bindE (guardE (malloc_ok env (max_els * size_data_per_element h mod 2 ^ 64))
                  (Throw ''Not enough memory: loadIndex failed to allocate level0'')) (\<lambda>_.
           let n = cur * size_data_per_element h mod 2 ^ 64 in
           bindE (guardE (n < 2 ^ 63 \<and> n \<le> max_els * size_data_per_element h mod 2 ^ 64) Bad_access) (\<lambda>_.
           let (mem, st) = read_block file n pos;
               h = h\<lparr>data_level0 := map (\<lambda>i. if i < cur then read_elem h mem i else mem_junk env i) [0..<max_els]\<rparr>;
               h = h\<lparr>size_links_per_element := (maxM h * 4 + 4) mod 2 ^ 64, size_links_level0 := (maxM0 h * 4 + 4) mod 2 ^ 64\<rparr>;
               h = h\<lparr>vl_pool := new_VisitedListPool (vl_junk env) 1 max_els\<rparr>
           in bindE (guardE (malloc_ok env (8 * max_els mod 2 ^ 64))
                (Throw ''Not enough memory: loadIndex failed to allocate linklists'')) (\<lambda>_.
           let h = h\<lparr>linkLists := replicate max_els [], element_levels := replicate max_els 0, hnEf := 10\<rparr>
           in bindE (foldE (load_element env file) (h, st) [0..<cur]) (\<lambda>(h, st).
              foldE count_deleted h [0..<cur]))))))"

text \<open>
  The constructor that takes no parameters, and the one that loads a file. \<open>fstdistfunc_\<close> has no initial value.
\<close>

definition empty_HierarchicalNSW :: "(byte list \<Rightarrow> byte list \<Rightarrow> 'd) \<Rightarrow> bool \<Rightarrow> 'd hnsw" where
  "empty_HierarchicalNSW uninit allow_replace =
     \<lparr>max_elements = 0, cur_element_count = 0, size_data_per_element = 0, size_links_per_element = 0, num_deleted = 0,
      hnM = 0, maxM = 0, maxM0 = 0, ef_construction = 0, hnEf = 0, hnMult = 0, maxlevel = 0,
      vl_pool = \<lparr>pool = [], pool_numelements = 0\<rparr>, enterpoint_node = 0, size_links_level0 = 0, offsetData = 0,
      offsetLevel0 = 0, label_offset = 0, data_level0 = [], linkLists = [], element_levels = [], hn_data_size = 0,
      hn_fstdistfunc = uninit, label_lookup = Map.empty, level_draws = 0, update_draws = 0,
      metric_distance_computations = 0, metric_hops = 0, allow_replace_deleted = allow_replace, deleted_elements = []\<rparr>"

definition load_HierarchicalNSW ::
    "'d hnsw_env \<Rightarrow> (byte list \<Rightarrow> byte list \<Rightarrow> 'd) \<Rightarrow> 'd space_interface \<Rightarrow> byte list option \<Rightarrow> nat \<Rightarrow> bool \<Rightarrow> hnsw_error + 'd hnsw" where
  "load_HierarchicalNSW env uninit s location max_els allow_replace =
     loadIndex env location s max_els (empty_HierarchicalNSW uninit allow_replace)"

subsection \<open>Reading back what was written\<close>

lemma le_val_singleton [simp]: "le_val [b] = unat b"
  by simp

lemma length_links_bytes [simp]: "length (links_bytes ll) = 4 + 4 * length (ll_slots ll)"
proof -
  have "length (concat (map (le_bytes 4) xs)) = 4 * length xs" for xs :: "nat list"
    by (induction xs) simp_all
  then show ?thesis by (simp add: links_bytes_def)
qed

lemma length_elem_bytes: "length (elem_bytes e) = 4 + 4 * length (ll_slots (e_links e)) + length (e_data e) + 8"
  by (simp add: elem_bytes_def)

text \<open>Blocks of equal size, one after the other.\<close>

lemma drop_concat_blocks:
  assumes "\<forall>x\<in>set xs. length x = s" and "i < length xs"
  shows "drop (i * s) (concat xs) = xs ! i @ concat (drop (Suc i) xs)"
  using assms
proof (induction xs arbitrary: i)
  case (Cons x xs)
  then show ?case by (cases i) simp_all
qed simp

lemma get_block:
  assumes "\<forall>x\<in>set xs. length x = s" and "i < length xs" and "off + n \<le> s"
  shows "get_bytes (concat xs) (i * s + off) n = get_bytes (xs ! i) off n"
proof -
  have "length (xs ! i) = s" using assms by simp
  moreover have "drop (i * s + off) (concat xs) = drop off (drop (i * s) (concat xs))" by (simp add: add.commute)
  ultimately show ?thesis using assms by (simp add: get_bytes_def drop_concat_blocks)
qed

lemma length_concat_blocks: "\<forall>x\<in>set xs. length x = s \<Longrightarrow> length (concat xs) = length xs * s"
  by (induction xs) simp_all

lemma take_concat_blocks:
  "\<forall>x\<in>set (take n xs). length x = s \<Longrightarrow> n \<le> length xs \<Longrightarrow> take (n * s) (concat xs) = concat (take n xs)"
proof (induction xs arbitrary: n)
  case (Cons x xs)
  then show ?case by (cases n) simp_all
qed simp

definition fits_links :: "linklist \<Rightarrow> bool" where
  "fits_links ll \<longleftrightarrow> ll_count ll < 2 ^ 16 \<and> (\<forall>s\<in>set (ll_slots ll). s < 2 ^ 32)"

lemma read_links_bytes:
  assumes "fits_links ll" and "length (ll_slots ll) = cap" and mem: "drop off mem = links_bytes ll @ rest"
  shows "read_links mem off cap = ll"
proof -
  have get: "get_bytes mem (off + k) n = take n (drop k (links_bytes ll @ rest))" for k n
    unfolding get_bytes_def mem [symmetric] by (simp add: add.commute)
  have count: "ll_count ll < 256 ^ 2" using assms(1) by (simp add: fits_links_def)
  have slot: "le_val (get_bytes mem (off + 4 + 4 * k) 4) = ll_slots ll ! k" if k: "k < cap" for k
  proof -
    let ?xs = "map (le_bytes 4) (ll_slots ll)"
    have "get_bytes mem (off + (4 + 4 * k)) 4 = take 4 (drop (k * 4) (concat ?xs @ rest))"
      unfolding get by (simp add: links_bytes_def numeral_eq_Suc [of num.One] mult.commute)
    also have "\<dots> = le_bytes 4 (ll_slots ll ! k)"
      using drop_concat_blocks [of ?xs 4 k] length_concat_blocks [of ?xs 4] k assms(2) by simp
    finally have "get_bytes mem (off + 4 + 4 * k) 4 = le_bytes 4 (ll_slots ll ! k)" by (simp add: add.assoc)
    moreover have "ll_slots ll ! k < 256 ^ 4" using assms(1,2) k by (simp add: fits_links_def)
    ultimately show ?thesis by simp
  qed
  have head: "get_bytes mem off 2 = le_bytes 2 (ll_count ll)" "get_bytes mem (off + 2) 1 = [ll_mark ll]"
    "get_bytes mem (off + 3) 1 = [ll_pad ll]"
    using get [of 0 2] get [of 2 1] get [of 3 1] by (simp_all add: links_bytes_def)
  have "map (\<lambda>k. le_val (get_bytes mem (off + 4 + 4 * k) 4)) [0..<cap] = ll_slots ll"
    by (rule nth_equalityI) (simp_all add: assms(2) slot)
  then show ?thesis using count unfolding read_links_def head by simp
qed

text \<open>
  When every number of the index fits its type in the file: labels are 64-bit, the sizes of the link lists
  32-bit, the parameters 64-bit, and the file is shorter than \<open>2 ^ 63\<close> bytes.
\<close>

definition file_fits :: "'d hnsw \<Rightarrow> bool" where
  "file_fits h \<longleftrightarrow> (\<forall>i<cur_element_count h. e_label (data_level0 h ! i) < 2 ^ 64 \<and> size_links_per_element h * lvl h i < 2 ^ 32)
     \<and> ef_construction h < 2 ^ 64 \<and> hnMult h < 2 ^ 64 \<and> size_data_per_element h < 2 ^ 63
     \<and> max_elements h * size_data_per_element h < 2 ^ 64 \<and> length (saveIndex h) < 2 ^ 63"

lemma links_fit:
  assumes "links_wf h" and "i < cur_element_count h" and "level \<le> lvl h i"
  shows "fits_links (at_level h i level)" "length (ll_slots (at_level h i level)) = list_cap h level"
proof -
  have "list_cap h level < 2 ^ 16" using assms(1) by (auto simp: links_wf_def list_cap_def)
  then show "fits_links (at_level h i level)" "length (ll_slots (at_level h i level)) = list_cap h level"
    using links_wf_ll_ok [OF assms] by (auto simp: ll_ok_def fits_links_def)
qed

lemma elem_block_length:
  assumes "links_wf h" and "layout_wf h" and "i < cur_element_count h"
  shows "length (elem_bytes (data_level0 h ! i)) = size_data_per_element h"
  using links_fit(2) [OF assms(1,3), of 0] links_wf_bounds(5) [OF assms(1,3)] assms(2)
  by (simp add: length_elem_bytes at_level_def list_cap_def layout_wf_def)

lemma saved_blocks:
  assumes "links_wf h" and "layout_wf h"
  shows "\<forall>x\<in>set (map elem_bytes (take (cur_element_count h) (data_level0 h))). length x = size_data_per_element h"
    "cur_element_count h \<le> length (data_level0 h)"
  using elem_block_length [OF assms] assms(1) by (auto simp: in_set_conv_nth links_wf_def)

text \<open>The bytes of the level-0 block, of one link list, and of the whole file.\<close>

definition level0_bytes :: "'d hnsw \<Rightarrow> byte list" where
  "level0_bytes h = concat (map elem_bytes (take (cur_element_count h) (data_level0 h)))"

definition list_bytes :: "'d hnsw \<Rightarrow> nat \<Rightarrow> byte list" where
  "list_bytes h i = le_bytes 4 (linkListSize h i) @ (if lvl h i = 0 then [] else concat (map links_bytes (linkLists h ! i)))"

lemma length_level0_bytes:
  "links_wf h \<Longrightarrow> layout_wf h \<Longrightarrow> length (level0_bytes h) = cur_element_count h * size_data_per_element h"
  using length_concat_blocks [OF saved_blocks(1)] saved_blocks(2) by (fastforce simp: level0_bytes_def min_def)

lemma read_elem_saved:
  assumes wf: "links_wf h" and lay: "layout_wf h" and i: "i < cur_element_count h" and label: "e_label (data_level0 h ! i) < 2 ^ 64"
    and same: "size_data_per_element g = size_data_per_element h" "offsetLevel0 g = offsetLevel0 h" "offsetData g = offsetData h"
      "label_offset g = label_offset h" "maxM0 g = maxM0 h" "hn_data_size g = hn_data_size h"
  shows "read_elem g (level0_bytes h) i = data_level0 h ! i"
proof -
  let ?e = "data_level0 h ! i" and ?s = "size_data_per_element h"
  let ?xs = "map elem_bytes (take (cur_element_count h) (data_level0 h))"
  note blocks = saved_blocks [OF wf lay]
  have len: "i < length ?xs" using i blocks(2) by simp
  have xi: "?xs ! i = elem_bytes ?e" using i len by simp
  have slots: "length (ll_slots (e_links ?e)) = maxM0 h" "fits_links (e_links ?e)"
    using links_fit [OF wf i, of 0] by (simp_all add: at_level_def list_cap_def)
  have data: "length (e_data ?e) = hn_data_size h" by (rule links_wf_bounds(5) [OF wf i])
  have get: "get_bytes (level0_bytes h) (i * ?s + off) n = get_bytes (elem_bytes ?e) off n" if "off + n \<le> ?s" for off n
    using get_block [OF blocks(1) len that] xi by (simp add: level0_bytes_def)
  have "drop (i * ?s) (level0_bytes h) = elem_bytes ?e @ concat (drop (Suc i) ?xs)"
    using drop_concat_blocks [OF blocks(1) len] xi by (simp add: level0_bytes_def)
  then have "drop (i * ?s) (level0_bytes h) = links_bytes (e_links ?e)
      @ (e_data ?e @ le_bytes 8 (e_label ?e) @ concat (drop (Suc i) ?xs))"
    by (simp add: elem_bytes_def)
  from read_links_bytes [OF slots(2,1) this]
  have "read_links (level0_bytes h) (i * ?s) (maxM0 h) = e_links ?e" .
  moreover have "get_bytes (level0_bytes h) (i * ?s + offsetData h) (hn_data_size h) = e_data ?e"
    using get [of "offsetData h" "hn_data_size h"] lay slots data by (simp add: layout_wf_def elem_bytes_def get_bytes_def)
  moreover have "le_val (get_bytes (level0_bytes h) (i * ?s + label_offset h) 8) = e_label ?e"
    using get [of "label_offset h" 8] lay slots data label by (simp add: layout_wf_def elem_bytes_def get_bytes_def)
  moreover have "offsetLevel0 h = 0" using lay by (simp add: layout_wf_def)
  ultimately show ?thesis by (simp add: read_elem_def same)
qed

definition header_bytes :: "'d hnsw \<Rightarrow> byte list" where
  "header_bytes h = le_bytes 8 (offsetLevel0 h) @ le_bytes 8 (max_elements h) @ le_bytes 8 (cur_element_count h)
     @ le_bytes 8 (size_data_per_element h) @ le_bytes 8 (label_offset h) @ le_bytes 8 (offsetData h)
     @ le_bytes 4 (nat (maxlevel h mod 2 ^ 32)) @ le_bytes 4 (enterpoint_node h) @ le_bytes 8 (maxM h)
     @ le_bytes 8 (maxM0 h) @ le_bytes 8 (hnM h) @ le_bytes 8 (hnMult h) @ le_bytes 8 (ef_construction h)"

lemma length_header_bytes [simp]: "length (header_bytes h) = 96"
  by (simp add: header_bytes_def)

lemma linkListSize_fits:
  assumes "file_fits h" and "i < cur_element_count h"
  shows "linkListSize h i = size_links_per_element h * lvl h i" "linkListSize h i < 256 ^ 4"
  using assms by (auto simp: linkListSize_def file_fits_def)

lemma length_lists:
  assumes "links_wf h" and "layout_wf h" and "i < cur_element_count h"
  shows "\<forall>x\<in>set (map links_bytes (linkLists h ! i)). lvl h i \<noteq> 0 \<longrightarrow> length x = size_links_per_element h"
    "lvl h i \<noteq> 0 \<Longrightarrow> length (concat (map links_bytes (linkLists h ! i))) = size_links_per_element h * lvl h i"
proof -
  have "length (links_bytes (linkLists h ! i ! k)) = size_links_per_element h" if "k < length (linkLists h ! i)" "lvl h i \<noteq> 0" for k
    using links_fit(2) [OF assms(1,3), of "Suc k"] links_wf_bounds(4) [OF assms(1,3)] that assms(2)
    by (simp add: at_level_def list_cap_def layout_wf_def)
  then show blocks: "\<forall>x\<in>set (map links_bytes (linkLists h ! i)). lvl h i \<noteq> 0 \<longrightarrow> length x = size_links_per_element h"
    by (auto simp: in_set_conv_nth)
  assume "lvl h i \<noteq> 0"
  then show "length (concat (map links_bytes (linkLists h ! i))) = size_links_per_element h * lvl h i"
    using length_concat_blocks [of "map links_bytes (linkLists h ! i)" "size_links_per_element h"] blocks
      links_wf_bounds(4) [OF assms(1,3)] by (simp add: mult.commute)
qed

lemma length_list_bytes:
  assumes "links_wf h" and "layout_wf h" and "file_fits h" and "i < cur_element_count h"
  shows "length (list_bytes h i) = 4 + linkListSize h i"
  using length_lists(2) [OF assms(1,2,4)] linkListSize_fits(1) [OF assms(3,4)] by (simp add: list_bytes_def)

lemma saveIndex_bytes:
  assumes wf: "links_wf h" and lay: "layout_wf h" and fits: "\<forall>i<cur_element_count h. size_links_per_element h * lvl h i < 2 ^ 32"
    and size: "max_elements h * size_data_per_element h < 2 ^ 64"
  shows "saveIndex h = header_bytes h @ level0_bytes h @ concat (map (list_bytes h) [0..<cur_element_count h])"
proof -
  have "cur_element_count h * size_data_per_element h \<le> max_elements h * size_data_per_element h"
    using wf by (simp add: links_wf_def)
  then have mod: "cur_element_count h * size_data_per_element h mod 2 ^ 64 = cur_element_count h * size_data_per_element h"
    using size by (intro mod_less) (rule le_less_trans)
  have blk: "take (cur_element_count h * size_data_per_element h) (concat (map elem_bytes (data_level0 h))) = level0_bytes h"
    using take_concat_blocks [of "cur_element_count h" "map elem_bytes (data_level0 h)" "size_data_per_element h"]
      saved_blocks [OF wf lay] by (simp add: level0_bytes_def take_map)
  have lists: "save_lists h out i = out @ list_bytes h i" if "i < cur_element_count h" for out i
  proof -
    have sz: "linkListSize h i = size_links_per_element h * lvl h i" using fits that by (simp add: linkListSize_def)
    show ?thesis
      using length_lists(2) [OF wf lay that] lay
      by (auto simp: save_lists_def list_bytes_def writeBinaryPOD_def Let_def sz layout_wf_def)
  qed
  have fold: "foldl (save_lists h) out [0..<n] = out @ concat (map (list_bytes h) [0..<n])"
    if "n \<le> cur_element_count h" for out n
    using that by (induction n) (simp_all add: lists)
  show ?thesis
    unfolding saveIndex_def Let_def mod blk
    by (subst fold [OF order_refl]) (simp add: header_bytes_def writeBinaryPOD_def)
qed

subsection \<open>Streams over a known file\<close>

lemma read_pod_hit:
  assumes "drop p file = le_bytes n x @ rest" and "x < 256 ^ n" and "0 < n"
  shows "read_pod file n old (Some p) = (x, Some (p + n))" "drop (p + n) file = rest"
proof -
  have "length (drop p file) = n + length rest" using assms(1) by simp
  then have "p + n \<le> length file" using assms(3) by simp
  then show "read_pod file n old (Some p) = (x, Some (p + n))"
    using assms(2) by (simp add: read_pod_def assms(1) readBinaryPOD_def)
  have "drop (p + n) file = drop n (drop p file)" by (simp add: add.commute)
  then show "drop (p + n) file = rest" by (simp add: assms(1))
qed

lemma read_block_hit:
  assumes "drop p file = bs @ rest" and "length bs = n" and "p \<le> length file"
  shows "read_block file n (Some p) = (bs, Some (p + n))" "drop (p + n) file = rest"
proof -
  have "length (drop p file) = n + length rest" using assms(1,2) by simp
  then have "p + n \<le> length file" using assms(3) by (simp only: length_drop)
  then show "read_block file n (Some p) = (bs, Some (p + n))"
    using assms by (simp add: read_block_def get_bytes_def)
  have "drop (p + n) file = drop n (drop p file)" by (simp add: add.commute)
  then show "drop (p + n) file = rest" using assms by simp
qed

lemma load_header_saved:
  fixes h :: "'d hnsw" and g :: "'d hnsw"
  assumes "offsetLevel0 h < 2 ^ 64" "max_elements h < 2 ^ 64" "cur_element_count h < 2 ^ 64" "size_data_per_element h < 2 ^ 64"
    "label_offset h < 2 ^ 64" "offsetData h < 2 ^ 64" "- (2 ^ 31) \<le> maxlevel h" "maxlevel h < 2 ^ 31" "enterpoint_node h < 2 ^ 32"
    "maxM h < 2 ^ 64" "maxM0 h < 2 ^ 64" "hnM h < 2 ^ 64" "hnMult h < 2 ^ 64" "ef_construction h < 2 ^ 64"
  shows "load_header (header_bytes h @ rest) n g =
    (g\<lparr>offsetLevel0 := offsetLevel0 h, cur_element_count := cur_element_count h,
       max_elements := (if n < cur_element_count h then max_elements h else n),
       size_data_per_element := size_data_per_element h, label_offset := label_offset h, offsetData := offsetData h,
       maxlevel := maxlevel h, enterpoint_node := enterpoint_node h, maxM := maxM h, maxM0 := maxM0 h, hnM := hnM h,
       hnMult := hnMult h, ef_construction := ef_construction h\<rparr>, Some 96)"
proof -
  have lev: "nat (maxlevel h mod 2 ^ 32) < 256 ^ 4" "signed32 (nat (maxlevel h mod 2 ^ 32)) = maxlevel h"
  proof -
    show "nat (maxlevel h mod 2 ^ 32) < 256 ^ 4" by (simp add: nat_less_iff)
    show "signed32 (nat (maxlevel h mod 2 ^ 32)) = maxlevel h"
    proof (cases "0 \<le> maxlevel h")
      case True
      then have "maxlevel h mod 2 ^ 32 = maxlevel h" using assms(8) by simp
      then show ?thesis using True assms(8) by (simp add: signed32_def Let_def)
    next
      case False
      then have "maxlevel h mod 2 ^ 32 = maxlevel h + 2 ^ 32"
        using assms(7) mod_pos_pos_trivial [of "maxlevel h + 2 ^ 32" "2 ^ 32"] by simp
      moreover have "nat (maxlevel h + 2 ^ 32) mod 2 ^ 32 = nat (maxlevel h + 2 ^ 32)" using False by simp
      ultimately show ?thesis using False assms(7) by (simp add: signed32_def Let_def)
    qed
  qed
  have rd: "read_pod f k old (Some p) = (x, Some (p + k))"
    if "drop p f = le_bytes k x @ more" "x < 256 ^ k" "0 < k" for f k old p x more
    by (rule read_pod_hit(1) [OF that])
  let ?f = "header_bytes h @ rest"
  have r: "read_pod ?f 8 a (Some 0) = (offsetLevel0 h, Some 8)" "read_pod ?f 8 a (Some 8) = (max_elements h, Some 16)"
    "read_pod ?f 8 a (Some 16) = (cur_element_count h, Some 24)" "read_pod ?f 8 a (Some 24) = (size_data_per_element h, Some 32)"
    "read_pod ?f 8 a (Some 32) = (label_offset h, Some 40)" "read_pod ?f 8 a (Some 40) = (offsetData h, Some 48)"
    "read_pod ?f 4 a (Some 48) = (nat (maxlevel h mod 2 ^ 32), Some 52)" "read_pod ?f 4 a (Some 52) = (enterpoint_node h, Some 56)"
    "read_pod ?f 8 a (Some 56) = (maxM h, Some 64)" "read_pod ?f 8 a (Some 64) = (maxM0 h, Some 72)"
    "read_pod ?f 8 a (Some 72) = (hnM h, Some 80)" "read_pod ?f 8 a (Some 80) = (hnMult h, Some 88)"
    "read_pod ?f 8 a (Some 88) = (ef_construction h, Some 96)" for a
    by (subst rd, simp add: header_bytes_def, use assms lev(1) in \<open>simp add: nat_less_iff\<close>, simp, simp)+
  show ?thesis
    unfolding load_header_def r Let_def split lev(2) by simp
qed

lemma header_fits:
  assumes wf: "hnsw_wf h" and lay: "layout_wf h" and fits: "file_fits h"
  shows "offsetLevel0 h < 2 ^ 64" "max_elements h < 2 ^ 64" "cur_element_count h < 2 ^ 64" "size_data_per_element h < 2 ^ 64"
    "label_offset h < 2 ^ 64" "offsetData h < 2 ^ 64" "- (2 ^ 31) \<le> maxlevel h" "maxlevel h < 2 ^ 31" "enterpoint_node h < 2 ^ 32"
    "maxM h < 2 ^ 64" "maxM0 h < 2 ^ 64" "hnM h < 2 ^ 64" "hnMult h < 2 ^ 64" "ef_construction h < 2 ^ 64"
proof -
  have links: "links_wf h" and ent: "entry_wf h" using wf by (simp_all add: hnsw_wf_def)
  show "offsetLevel0 h < 2 ^ 64" "max_elements h < 2 ^ 64" "cur_element_count h < 2 ^ 64" "size_data_per_element h < 2 ^ 64"
    "label_offset h < 2 ^ 64" "offsetData h < 2 ^ 64" "maxM h < 2 ^ 64" "maxM0 h < 2 ^ 64" "hnM h < 2 ^ 64"
    "hnMult h < 2 ^ 64" "ef_construction h < 2 ^ 64"
    using links lay fits by (auto simp: links_wf_def layout_wf_def file_fits_def)
  have "- 1 \<le> maxlevel h \<and> maxlevel h < 2 ^ 31 \<and> enterpoint_node h < 2 ^ 32"
  proof (cases "cur_element_count h = 0")
    case True
    then show ?thesis using ent by (simp add: entry_wf_def no_node_def)
  next
    case False
    then have ep: "enterpoint_node h < cur_element_count h" "maxlevel h = int (lvl h (enterpoint_node h))"
      using ent by (simp_all add: entry_wf_def)
    then have "size_links_per_element h * lvl h (enterpoint_node h) < 2 ^ 32" using fits by (simp add: file_fits_def)
    moreover have "4 * lvl h (enterpoint_node h) \<le> size_links_per_element h * lvl h (enterpoint_node h)"
      using lay by (simp add: layout_wf_def)
    ultimately have "4 * lvl h (enterpoint_node h) < 2 ^ 32" by (rule le_less_trans [rotated])
    then show ?thesis using ep links by (simp add: links_wf_def)
  qed
  then show "- (2 ^ 31) \<le> maxlevel h" "maxlevel h < 2 ^ 31" "enterpoint_node h < 2 ^ 32" by simp_all
qed

text \<open>The bytes of the lists from element \<open>i\<close> on; the walk over the sizes ends where they end.\<close>

definition lists_from :: "'d hnsw \<Rightarrow> nat \<Rightarrow> byte list" where
  "lists_from h i = concat (map (list_bytes h) [i..<cur_element_count h])"

lemma lists_from_step: "i < cur_element_count h \<Longrightarrow> lists_from h i = list_bytes h i @ lists_from h (Suc i)"
  by (simp add: lists_from_def upt_rec [of i])

lemma lists_from_end [simp]: "lists_from h (cur_element_count h) = []"
  by (simp add: lists_from_def)

lemma list_bytes_split:
  "list_bytes h i = le_bytes 4 (linkListSize h i) @ drop 4 (list_bytes h i)"
  by (simp add: list_bytes_def)

lemma seek_forward: "p + n < 2 ^ 63 \<Longrightarrow> seek_cur (int n) (Some p) = Some (p + n)"
proof -
  assume "p + n < 2 ^ 63"
  then have "int (p + n) < 2 ^ 63" by simp
  then show ?thesis by (simp add: seek_cur_def nat_int_add)
qed

lemma check_lists_saved:
  assumes wf: "links_wf h" "layout_wf h" "file_fits h" and len: "length file < 2 ^ 63"
    and "i \<le> cur_element_count h" and "drop p file = lists_from h i" and "p \<le> length file"
  shows "check_lists file (cur_element_count h - i) (Some p) = Inr (Some (length file))"
  using assms(5-7)
proof (induction "cur_element_count h - i" arbitrary: i p)
  case 0
  then have "i = cur_element_count h" by simp
  then show ?case using "0.prems"(2,3) by simp
next
  case (Suc n)
  let ?s = "linkListSize h i"
  have i: "i < cur_element_count h" using Suc.hyps(2) by simp
  have bytes: "drop p file = le_bytes 4 ?s @ (drop 4 (list_bytes h i) @ lists_from h (Suc i))"
    using Suc.prems(2) lists_from_step [OF i] list_bytes_split [of h i] by (metis append.assoc)
  note rd = read_pod_hit [OF bytes linkListSize_fits(2) [OF wf(3) i]]
  have l: "length (drop p file) = 4 + ?s + length (lists_from h (Suc i))"
    using Suc.prems(2) lists_from_step [OF i] length_list_bytes [OF wf i] by simp
  then have p: "p < length file" "p + 4 + ?s \<le> length file" by (simp_all only: length_drop)
  have seek: "(if ?s \<noteq> 0 then seek_cur (int ?s) (Some (p + 4)) else Some (p + 4)) = Some (p + 4 + ?s)"
    using p(2) len by (simp add: seek_forward)
  have rest: "drop (p + 4 + ?s) file = lists_from h (Suc i)"
  proof -
    have "drop (p + 4 + ?s) file = drop (4 + ?s) (drop p file)" by (simp add: ac_simps)
    then show ?thesis using Suc.prems(2) lists_from_step [OF i] length_list_bytes [OF wf i] by simp
  qed
  have "check_lists file n (Some (p + 4 + ?s)) = Inr (Some (length file))"
  proof -
    have n: "n = cur_element_count h - Suc i" using Suc.hyps(2) by simp
    show ?thesis using Suc.hyps(1) [OF n _ rest p(2)] i n by simp
  qed
  then show ?case
    unfolding Suc.hyps(2) [symmetric] using p(1) seek by (cases "?s = 0") (simp_all add: tellg_def rd)
qed

text \<open>On a truncated file the walk throws, or ends elsewhere than at the end of the file.\<close>

lemma check_lists_truncated:
  assumes wf: "links_wf h" "layout_wf h" "file_fits h" and len: "length file < 2 ^ 63" and m: "m < length file"
    and "i \<le> cur_element_count h" and "\<forall>p. st = Some p \<longrightarrow> drop p file = lists_from h i \<and> p \<le> length file"
  shows "case check_lists (take m file) (cur_element_count h - i) st of Inl e \<Rightarrow> e = corrupted | Inr st' \<Rightarrow> tellg st' \<noteq> int m"
  using assms(6-7)
proof (induction "cur_element_count h - i" arbitrary: i st)
  case 0
  then have "i = cur_element_count h" by simp
  then show ?case using "0.prems"(2) m by (cases st) (auto simp: tellg_def)
next
  case (Suc n)
  let ?s = "linkListSize h i"
  have i: "i < cur_element_count h" "n = cur_element_count h - Suc i" using Suc.hyps(2) by simp_all
  have fail: "case check_lists (take m file) n None of Inl e \<Rightarrow> e = corrupted | Inr st' \<Rightarrow> tellg st' \<noteq> int m"
    using Suc.hyps(1) [OF i(2), of None] i by simp
  show ?case
  proof (cases st)
    case None
    then show ?thesis unfolding Suc.hyps(2) [symmetric] by (simp add: tellg_def)
  next
    case (Some p)
    have p: "drop p file = lists_from h i" "p \<le> length file" using Suc.prems(2) Some by simp_all
    have bytes: "drop p file = le_bytes 4 ?s @ (drop 4 (list_bytes h i) @ lists_from h (Suc i))"
      using p(1) lists_from_step [OF i(1)] list_bytes_split [of h i] by (metis append.assoc)
    consider (past) "m \<le> p" | (short) "p < m" "m < p + 4" | (full) "p + 4 \<le> m" by linarith
    then show ?thesis
    proof cases
      case past
      then show ?thesis unfolding Suc.hyps(2) [symmetric] using m Some by (simp add: tellg_def)
    next
      case short
      have "check_lists (take m file) (cur_element_count h - i) st = check_lists (take m file) n None"
        unfolding Suc.hyps(2) [symmetric] using short m Some by (simp add: tellg_def read_pod_def seek_cur_def)
      then show ?thesis using fail by simp
    next
      case full
      have "drop p (take m file) = take (m - p) (drop p file)" by (rule drop_take)
      also have "\<dots> = le_bytes 4 ?s @ take (m - p - 4) (drop 4 (list_bytes h i) @ lists_from h (Suc i))"
        unfolding bytes using full by (simp add: take_append)
      finally have rd: "read_pod (take m file) 4 0 (Some p) = (?s, Some (p + 4))"
        using read_pod_hit(1) linkListSize_fits(2) [OF wf(3) i(1)] by simp
      have l: "length (drop p file) = 4 + ?s + length (lists_from h (Suc i))"
        using p(1) lists_from_step [OF i(1)] length_list_bytes [OF wf i(1)] by simp
      then have end_p: "p + 4 + ?s \<le> length file" using full m by (simp only: length_drop)
      have seek: "(if ?s \<noteq> 0 then seek_cur (int ?s) (Some (p + 4)) else Some (p + 4)) = Some (p + 4 + ?s)"
        using end_p len by (simp add: seek_forward)
      have "drop (p + 4 + ?s) file = drop (4 + ?s) (drop p file)" by (simp add: ac_simps)
      then have rest: "drop (p + 4 + ?s) file = lists_from h (Suc i)"
        using p(1) lists_from_step [OF i(1)] length_list_bytes [OF wf i(1)] by simp
      have "check_lists (take m file) (cur_element_count h - i) st = check_lists (take m file) n (Some (p + 4 + ?s))"
        unfolding Suc.hyps(2) [symmetric] using full m Some seek by (simp add: tellg_def rd del: One_nat_def)
      then show ?thesis using Suc.hyps(1) [OF i(2), of "Some (p + 4 + ?s)"] i rest end_p by simp
    qed
  qed
qed

subsection \<open>Loading a saved file\<close>

text \<open>The index that loading the file of \<open>h\<close> into an object \<open>g\<close> makes, after \<open>n\<close> elements.\<close>

definition load_labels :: "'d hnsw \<Rightarrow> 'd hnsw \<Rightarrow> nat \<Rightarrow> labeltype \<rightharpoonup> tableint" where
  "load_labels g h n = foldl (\<lambda>m i. m(e_label (data_level0 h ! i) \<mapsto> i)) (label_lookup g) [0..<n]"

definition loading :: "'d hnsw \<Rightarrow> 'd hnsw \<Rightarrow> nat \<Rightarrow> nat \<Rightarrow> 'd hnsw" where
  "loading g h mx n = g\<lparr>label_lookup := load_labels g h n,
     element_levels := map (\<lambda>j. if j < n then lvl h j else 0) [0..<mx],
     linkLists := map (\<lambda>j. if j < n \<and> lvl h j \<noteq> 0 then linkLists h ! j else []) [0..<mx]\<rparr>"

lemma map_upt_update: "i < n \<Longrightarrow> (map f [0..<n])[i := v] = map (\<lambda>j. if j = i then v else f j) [0..<n]"
  by (rule nth_equalityI) (simp_all add: nth_list_update)

lemma loading_step:
  assumes "i < mx"
  shows "loading g h mx (Suc i) = (loading g h mx i)\<lparr>label_lookup := (load_labels g h i)(e_label (data_level0 h ! i) \<mapsto> i),
     element_levels := (element_levels (loading g h mx i))[i := lvl h i],
     linkLists := (linkLists (loading g h mx i))[i := if lvl h i \<noteq> 0 then linkLists h ! i else []]\<rparr>"
  using assms by (auto simp: loading_def load_labels_def map_upt_update less_Suc_eq)

lemma read_lists_saved:
  assumes wf: "links_wf h" and lay: "layout_wf h" and i: "i < cur_element_count h" and lev: "lvl h i \<noteq> 0"
  shows "map (\<lambda>k. read_links (concat (map links_bytes (linkLists h ! i))) (k * size_links_per_element h) (maxM h)) [0..<lvl h i]
    = linkLists h ! i"
proof (rule nth_equalityI)
  note len = links_wf_bounds(4) [OF wf i lev]
  show "length (map (\<lambda>k. read_links (concat (map links_bytes (linkLists h ! i))) (k * size_links_per_element h) (maxM h)) [0..<lvl h i])
      = length (linkLists h ! i)" by (simp add: len)
  fix k assume "k < length (map (\<lambda>k. read_links (concat (map links_bytes (linkLists h ! i))) (k * size_links_per_element h) (maxM h)) [0..<lvl h i])"
  then have k: "k < lvl h i" by simp
  let ?xs = "map links_bytes (linkLists h ! i)"
  have fit: "fits_links (linkLists h ! i ! k)" "length (ll_slots (linkLists h ! i ! k)) = maxM h"
    using links_fit [OF wf i, of "Suc k"] k by (simp_all add: at_level_def list_cap_def)
  have "drop (k * size_links_per_element h) (concat ?xs) = links_bytes (linkLists h ! i ! k) @ concat (drop (Suc k) ?xs)"
    using drop_concat_blocks [of ?xs "size_links_per_element h" k] length_lists(1) [OF wf lay i] lev k len by simp
  from read_links_bytes [OF fit this] k
  show "map (\<lambda>k. read_links (concat ?xs) (k * size_links_per_element h) (maxM h)) [0..<lvl h i] ! k = linkLists h ! i ! k"
    by simp
qed

lemma load_element_saved:
  assumes wf: "links_wf h" "layout_wf h" "file_fits h" and i: "i < cur_element_count h" "i < mx"
    and g: "length (data_level0 g) = mx" "data_level0 g ! i = data_level0 h ! i" "maxM g = maxM h"
      "size_links_per_element g = size_links_per_element h"
    and mem: "\<And>n. malloc_ok env n" and p: "drop p file = lists_from h i" "p \<le> length file"
  shows "\<exists>p'. load_element env file (loading g h mx i, Some p) i = Inr (loading g h mx (Suc i), Some p')
    \<and> drop p' file = lists_from h (Suc i) \<and> p' \<le> length file"
proof -
  let ?s = "linkListSize h i" and ?h = "loading g h mx i"
  have bytes: "drop p file = le_bytes 4 ?s @ ((if lvl h i = 0 then [] else concat (map links_bytes (linkLists h ! i))) @ lists_from h (Suc i))"
    using p(1) lists_from_step [OF i(1)] by (simp add: list_bytes_def)
  note rd = read_pod_hit [OF bytes linkListSize_fits(2) [OF wf(3) i(1)], simplified]
  note sz = linkListSize_fits(1) [OF wf(3) i(1)]
  have slpe: "0 < size_links_per_element h" using wf(2) by (simp add: layout_wf_def)
  have "length (drop p file) \<ge> 4" by (simp add: bytes)
  then have p4: "p + 4 \<le> length file" using p(2) by simp
  have lab: "getExternalLabel ?h i = Inr (e_label (data_level0 h ! i))"
    using g(1,2) i(2) by (simp add: getExternalLabel_def elem_at_def loading_def)
  have len: "i < length (element_levels ?h)" "i < length (linkLists ?h)" using i(2) by (simp_all add: loading_def)
  have par: "size_links_per_element ?h = size_links_per_element h" "maxM ?h = maxM h" "label_lookup ?h = load_labels g h i"
    using g by (simp_all add: loading_def)
  show ?thesis
  proof (cases "lvl h i = 0")
    case True
    have "drop (p + 4) file = lists_from h (Suc i)" using rd(2) True by (simp add: add.commute)
    moreover have "load_element env file (?h, Some p) i = Inr (loading g h mx (Suc i), Some (p + 4))"
      using True sz len unfolding loading_step [OF i(2)]
      by (simp add: load_element_def lab rd par Let_def)
    ultimately show ?thesis using p4 by blast
  next
    case False
    let ?bs = "concat (map links_bytes (linkLists h ! i))"
    have bs: "length ?bs = ?s" using length_lists(2) [OF wf(1,2) i(1) False] sz by simp
    have nz: "?s \<noteq> 0" "?s div size_links_per_element h = lvl h i" using sz slpe False by simp_all
    have "drop (p + 4) file = ?bs @ lists_from h (Suc i)" using rd(2) False by (simp add: add.commute)
    note blk = read_block_hit [OF this bs p4]
    have "length (drop (p + 4) file) = ?s + length (lists_from h (Suc i))"
      using \<open>drop (p + 4) file = ?bs @ lists_from h (Suc i)\<close> bs by simp
    then have "p + 4 + ?s \<le> length file" using p4 by simp
    moreover have "load_element env file (?h, Some p) i = Inr (loading g h mx (Suc i), Some (p + 4 + ?s))"
      using False nz len slpe mem unfolding loading_step [OF i(2)]
      by (simp add: load_element_def lab rd par blk(1) Let_def read_lists_saved [OF wf(1,2) i(1) False])
    ultimately show ?thesis using blk(2) by blast
  qed
qed

text \<open>After the loop over the marks.\<close>

definition marked_below :: "'d hnsw \<Rightarrow> nat \<Rightarrow> nat list" where
  "marked_below h n = filter (\<lambda>i. elem_deleted (data_level0 h ! i)) [0..<n]"

definition counted :: "'d hnsw \<Rightarrow> nat \<Rightarrow> 'd hnsw" where
  "counted h n = h\<lparr>num_deleted := num_deleted h + length (marked_below h n),
     deleted_elements := (if allow_replace_deleted h then foldl (\<lambda>d i. uset_insert i d) (deleted_elements h) (marked_below h n)
                          else deleted_elements h)\<rparr>"

lemma count_deleted_fold:
  assumes "n \<le> length (data_level0 h)"
  shows "foldE count_deleted h [0..<n] = Inr (counted h n)"
  using assms
proof (induction n)
  case 0
  show ?case by (simp add: counted_def marked_below_def)
next
  case (Suc n)
  then show ?case
    by (auto simp: foldE_append count_deleted_def isMarkedDeleted_def elem_at_def counted_def marked_below_def Let_def)
qed

text \<open>The object before the two loops.\<close>

definition load_base :: "'d hnsw_env \<Rightarrow> 'd hnsw \<Rightarrow> nat \<Rightarrow> 'd hnsw \<Rightarrow> 'd hnsw" where
  "load_base env h mx g = g\<lparr>offsetLevel0 := offsetLevel0 h, cur_element_count := cur_element_count h, max_elements := mx,
     size_data_per_element := size_data_per_element h, label_offset := label_offset h, offsetData := offsetData h,
     maxlevel := maxlevel h, enterpoint_node := enterpoint_node h, maxM := maxM h, maxM0 := maxM0 h, hnM := hnM h,
     hnMult := hnMult h, ef_construction := ef_construction h, hn_data_size := hn_data_size h,
     hn_fstdistfunc := hn_fstdistfunc h,
     data_level0 := map (\<lambda>i. if i < cur_element_count h then data_level0 h ! i else mem_junk env i) [0..<mx],
     size_links_per_element := size_links_per_element h, size_links_level0 := size_links_level0 h,
     vl_pool := new_VisitedListPool (vl_junk env) 1 mx, linkLists := replicate mx [], element_levels := replicate mx 0,
     hnEf := 10\<rparr>"

lemma loading_start: "loading (load_base env h mx g) h mx 0 = load_base env h mx g"
  by (rule hnsw.equality) (simp_all add: loading_def load_labels_def load_base_def map_replicate_const)

lemma load_elements_saved:
  assumes wf: "links_wf h" "layout_wf h" "file_fits h" and mx: "cur_element_count h \<le> mx"
    and mem: "\<And>n. malloc_ok env n" and p: "drop p file = lists_from h 0" "p \<le> length file"
  shows "\<exists>st. foldE (load_element env file) (load_base env h mx g, Some p) [0..<cur_element_count h]
    = Inr (loading (load_base env h mx g) h mx (cur_element_count h), st)"
proof -
  let ?g = "load_base env h mx g"
  define P where "P i s \<longleftrightarrow> (\<exists>p. s = (loading ?g h mx i, Some p) \<and> drop p file = lists_from h i \<and> p \<le> length file)" for i s
  have "\<exists>s. foldE (load_element env file) (?g, Some p) [0..<cur_element_count h] = Inr s \<and> P (cur_element_count h) s"
  proof (rule foldE_upt_total)
    show "P 0 (?g, Some p)" using p by (simp add: P_def loading_start)
  next
    fix i s assume i: "i < cur_element_count h" and "P i s"
    then obtain q where q: "s = (loading ?g h mx i, Some q)" "drop q file = lists_from h i" "q \<le> length file"
      by (auto simp: P_def)
    have "\<exists>p'. load_element env file (loading ?g h mx i, Some q) i = Inr (loading ?g h mx (Suc i), Some p')
        \<and> drop p' file = lists_from h (Suc i) \<and> p' \<le> length file"
      using i mx by (intro load_element_saved [OF wf i _ _ _ _ _ mem q(2,3)]) (simp_all add: load_base_def)
    then show "\<exists>s'. load_element env file s i = Inr s' \<and> P (Suc i) s'" by (auto simp: P_def q(1))
  qed simp
  then show ?thesis by (auto simp: P_def)
qed

definition loaded :: "'d hnsw_env \<Rightarrow> 'd hnsw \<Rightarrow> nat \<Rightarrow> 'd hnsw \<Rightarrow> 'd hnsw" where
  "loaded env h n g =
     (let mx = (if n < cur_element_count h then max_elements h else n)
      in counted (loading (load_base env h mx (clear g)) h mx (cur_element_count h)) (cur_element_count h))"

lemma signed64_small: "n < 2 ^ 63 \<Longrightarrow> signed64 n = int n"
  by (simp add: signed64_def Let_def)

lemma load_saved:
  assumes wf: "hnsw_wf h" and lay: "layout_wf h" and fits: "file_fits h" and mem: "\<And>n. malloc_ok env n"
    and s: "get_data_size s = hn_data_size h" "get_dist_func s = hn_fstdistfunc h"
    and n: "n * size_data_per_element h < 2 ^ 64"
  shows "loadIndex env (Some (saveIndex h)) s n g = Inr (loaded env h n g)"
proof -
  let ?cur = "cur_element_count h" and ?sd = "size_data_per_element h" and ?file = "saveIndex h"
  define mx where "mx = (if n < ?cur then max_elements h else n)"
  have links: "links_wf h" using wf by (simp add: hnsw_wf_def)
  have small: "length ?file < 2 ^ 63" "max_elements h * ?sd < 2 ^ 64" using fits by (simp_all add: file_fits_def)
  have file_eq: "?file = header_bytes h @ level0_bytes h @ lists_from h 0"
    using saveIndex_bytes [OF links lay] fits by (simp add: file_fits_def lists_from_def)
  have mx: "?cur \<le> mx" "mx * ?sd < 2 ^ 64" using links small(2) n by (auto simp: mx_def links_wf_def)
  have n0: "length (level0_bytes h) = ?cur * ?sd" by (rule length_level0_bytes [OF links lay])
  then have cs: "96 + ?cur * ?sd \<le> length ?file" by (simp add: file_eq)
  let ?h1 = "(clear g)\<lparr>offsetLevel0 := offsetLevel0 h, cur_element_count := ?cur, max_elements := mx,
       size_data_per_element := ?sd, label_offset := label_offset h, offsetData := offsetData h,
       maxlevel := maxlevel h, enterpoint_node := enterpoint_node h, maxM := maxM h, maxM0 := maxM0 h, hnM := hnM h,
       hnMult := hnMult h, ef_construction := ef_construction h\<rparr>"
  have head: "load_header ?file n (clear g) = (?h1, Some 96)"
    using load_header_saved [OF header_fits [OF wf lay fits], where n = n and g = "clear g"] by (simp add: file_eq mx_def)
  have sk: "seek_cur (signed64 (?cur * ?sd)) (Some 96) = Some (96 + ?cur * ?sd)"
  proof -
    have "96 + ?cur * ?sd < 2 ^ 63" "?cur * ?sd < 2 ^ 63" using cs small(1) by simp_all
    then show ?thesis by (simp only: signed64_small seek_forward)
  qed
  have d1: "drop (96 + ?cur * ?sd) ?file = lists_from h 0" by (simp add: file_eq n0)
  have chk: "check_lists ?file ?cur (Some (96 + ?cur * ?sd)) = Inr (Some (length ?file))"
    using check_lists_saved [OF links lay fits small(1) _ d1 cs] by simp
  have modn: "?cur * ?sd mod 2 ^ 64 = ?cur * ?sd" "mx * ?sd mod 2 ^ 64 = mx * ?sd"
    using cs small(1) mx by simp_all
  have blk: "read_block ?file (?cur * ?sd) (Some 96) = (level0_bytes h, Some (96 + ?cur * ?sd))"
    using cs by (intro read_block_hit(1) [where rest = "lists_from h 0"]) (simp_all add: file_eq n0)
  let ?h2 = "?h1\<lparr>hn_data_size := hn_data_size h, hn_fstdistfunc := hn_fstdistfunc h\<rparr>"
  have el: "read_elem ?h2 (level0_bytes h) i = data_level0 h ! i" if "i < ?cur" for i
    using fits that by (intro read_elem_saved [OF links lay that]) (simp_all add: file_fits_def)
  have els: "map (\<lambda>i. if i < ?cur then read_elem ?h2 (level0_bytes h) i else mem_junk env i) [0..<mx]
      = map (\<lambda>i. if i < ?cur then data_level0 h ! i else mem_junk env i) [0..<mx]"
    by (simp add: el)
  have slpe: "(maxM h * 4 + 4) mod 2 ^ 64 = size_links_per_element h" "(maxM0 h * 4 + 4) mod 2 ^ 64 = size_links_level0 h"
    using links lay by (simp_all add: links_wf_def layout_wf_def)
  let ?h3 = "load_base env h mx (clear g)"
  obtain st where loop: "foldE (load_element env ?file) (?h3, Some (96 + ?cur * ?sd)) [0..<?cur]
      = Inr (loading ?h3 h mx ?cur, st)"
    using load_elements_saved [OF links lay fits mx(1) mem d1 cs] by blast
  have h3: "?h2\<lparr>data_level0 := map (\<lambda>i. if i < ?cur then data_level0 h ! i else mem_junk env i) [0..<mx],
      size_links_per_element := size_links_per_element h, size_links_level0 := size_links_level0 h,
      vl_pool := new_VisitedListPool (vl_junk env) 1 mx, linkLists := replicate mx [], element_levels := replicate mx 0,
      hnEf := 10\<rparr> = ?h3"
    by (rule hnsw.equality) (simp_all add: load_base_def)
  have cnt: "foldE count_deleted (loading ?h3 h mx ?cur) [0..<?cur] = Inr (counted (loading ?h3 h mx ?cur) ?cur)"
    using mx(1) by (intro count_deleted_fold) (simp add: loading_def load_base_def)
  have le: "?cur * ?sd \<le> mx * ?sd" "?cur * ?sd < 2 ^ 63" using mx(1) cs small(1) by simp_all
  show ?thesis
    unfolding loadIndex_def option.case head Let_def split s loaded_def mx_def [symmetric]
    using mem le h3 loop cnt modn slpe
    by (simp add: sk chk tellg_def blk els del: One_nat_def)
qed

lemma load_labels_wf:
  assumes "labels_wf h" and "n \<le> cur_element_count h"
  shows "load_labels g h n = (\<lambda>l. if \<exists>i<n. e_label (data_level0 h ! i) = l then label_lookup h l else label_lookup g l)"
  using assms(2)
proof (induction n)
  case 0
  show ?case by (simp add: load_labels_def)
next
  case (Suc n)
  have "label_lookup h (e_label (data_level0 h ! n)) = Some n" using assms(1) Suc.prems by (simp add: labels_wf_def)
  moreover have "load_labels g h (Suc n) = (load_labels g h n)(e_label (data_level0 h ! n) \<mapsto> n)" by (simp add: load_labels_def)
  ultimately show ?case using Suc by (auto simp: fun_eq_iff less_Suc_eq)
qed

lemma marked_below_ids: "distinct (marked_below h n)" "set (marked_below h n) = {i. i < n \<and> elem_deleted (data_level0 h ! i)}"
  by (auto simp: marked_below_def)

lemma foldl_uset_insert: "distinct (d @ xs) \<Longrightarrow> foldl (\<lambda>d i. uset_insert i d) d xs = d @ xs"
  by (induction xs arbitrary: d) (simp_all add: uset_insert_def)

text \<open>What a loaded object has in common with the saved one.\<close>

lemma loaded_fields:
  fixes env h n g
  defines "h' \<equiv> loaded env h n g" and "mx \<equiv> (if n < cur_element_count h then max_elements h else n)"
  shows "max_elements h' = mx" "cur_element_count h' = cur_element_count h" "hnM h' = hnM h" "maxM h' = maxM h" "maxM0 h' = maxM0 h"
    "ef_construction h' = ef_construction h" "enterpoint_node h' = enterpoint_node h" "maxlevel h' = maxlevel h"
    "hn_data_size h' = hn_data_size h" "hn_fstdistfunc h' = hn_fstdistfunc h" "hnEf h' = 10" "hnMult h' = hnMult h"
    "allow_replace_deleted h' = allow_replace_deleted g" "vl_pool h' = new_VisitedListPool (vl_junk env) 1 mx"
    "length (data_level0 h') = mx" "length (linkLists h') = mx" "length (element_levels h') = mx"
    "label_lookup h' = load_labels g h (cur_element_count h)" "layout_wf h' = layout_wf h"
  unfolding h'_def mx_def
  by (simp_all add: loaded_def Let_def counted_def loading_def load_base_def load_labels_def clear_def layout_wf_def)

lemma loaded_elems:
  assumes "links_wf h" and i: "i < cur_element_count h"
  shows "data_level0 (loaded env h n g) ! i = data_level0 h ! i" "lvl (loaded env h n g) i = lvl h i"
    "lvl h i \<noteq> 0 \<Longrightarrow> linkLists (loaded env h n g) ! i = linkLists h ! i"
    "level \<le> lvl h i \<Longrightarrow> at_level (loaded env h n g) i level = at_level h i level"
proof -
  define mx where "mx = (if n < cur_element_count h then max_elements h else n)"
  have mx: "i < mx" using assms by (auto simp: mx_def links_wf_def)
  show d: "data_level0 (loaded env h n g) ! i = data_level0 h ! i" and "lvl (loaded env h n g) i = lvl h i"
    and ls: "lvl h i \<noteq> 0 \<Longrightarrow> linkLists (loaded env h n g) ! i = linkLists h ! i"
    unfolding loaded_def Let_def mx_def [symmetric] using i mx
    by (simp_all add: counted_def loading_def load_base_def)
  show "level \<le> lvl h i \<Longrightarrow> at_level (loaded env h n g) i level = at_level h i level"
    using d ls by (auto simp: at_level_def)
qed

lemma loaded_deleted:
  assumes "links_wf h"
  shows "deleted_ids (loaded env h n g) = deleted_ids h"
    "num_deleted (loaded env h n g) = num_deleted g + card (deleted_ids h)"
    "allow_replace_deleted g \<Longrightarrow> deleted_elements g = [] \<Longrightarrow> deleted_elements (loaded env h n g) = marked_below h (cur_element_count h)"
    "\<not> allow_replace_deleted g \<Longrightarrow> deleted_elements (loaded env h n g) = deleted_elements g"
proof -
  define mx where "mx = (if n < cur_element_count h then max_elements h else n)"
  define l where "l = loading (load_base env h mx (clear g)) h mx (cur_element_count h)"
  let ?c = "cur_element_count h"
  have l: "allow_replace_deleted l = allow_replace_deleted g" "deleted_elements l = deleted_elements g" "num_deleted l = num_deleted g"
    by (simp_all add: l_def loading_def load_base_def clear_def)
  have "?c \<le> mx" using assms by (auto simp: mx_def links_wf_def)
  then have m: "marked_below l ?c = marked_below h ?c"
    unfolding marked_below_def l_def by (intro filter_cong) (simp_all add: loading_def load_base_def)
  have run: "loaded env h n g = counted l ?c" by (simp add: loaded_def Let_def mx_def l_def)
  show "deleted_ids (loaded env h n g) = deleted_ids h"
    using loaded_elems(1) [OF assms] by (auto simp: deleted_ids_def loaded_fields)
  have "card (deleted_ids h) = length (marked_below h ?c)"
    using distinct_card [OF marked_below_ids(1), of h ?c] marked_below_ids(2) [of h ?c] by (simp add: deleted_ids_def)
  then show "num_deleted (loaded env h n g) = num_deleted g + card (deleted_ids h)"
    by (simp add: run counted_def m l)
  show "allow_replace_deleted g \<Longrightarrow> deleted_elements g = [] \<Longrightarrow> deleted_elements (loaded env h n g) = marked_below h ?c"
    "\<not> allow_replace_deleted g \<Longrightarrow> deleted_elements (loaded env h n g) = deleted_elements g"
    using foldl_uset_insert [of "[]" "marked_below h ?c"] marked_below_ids(1) [of h ?c] by (simp_all add: run counted_def m l)
qed

lemma loaded_wf:
  assumes wf: "hnsw_wf h" and g: "label_lookup g = Map.empty" "num_deleted g = 0" "deleted_elements g = []" and n: "n < 2 ^ 32"
  shows "hnsw_wf (loaded env h n g)" "label_lookup (loaded env h n g) = label_lookup h"
proof -
  let ?h = "loaded env h n g" and ?c = "cur_element_count h"
  have links: "links_wf h" and ent: "entry_wf h" and lab: "labels_wf h" using wf by (simp_all add: hnsw_wf_def)
  note f = loaded_fields and e = loaded_elems [OF links] and d = loaded_deleted [OF links]
  show lk: "label_lookup ?h = label_lookup h"
    unfolding f load_labels_wf [OF lab order_refl] using lab g(1)
    by (auto simp: fun_eq_iff labels_wf_def) (metis not_Some_eq)
  have ll: "ll_ok ?h i level l" if "ll_ok h i level l" for i level l
    using that e(2) by (auto simp: ll_ok_def list_cap_def f)
  have lvls: "(lvl ?h i \<noteq> 0 \<longrightarrow> length (linkLists ?h ! i) = lvl ?h i) \<and> length (e_data (data_level0 ?h ! i)) = hn_data_size ?h
      \<and> (\<forall>level\<le>lvl ?h i. ll_ok ?h i level (at_level ?h i level))" if i: "i < ?c" for i
    using links_wf_bounds(4,5) [OF links i] links_wf_ll_ok [OF links i] by (simp add: e i f ll)
  moreover have "?c \<le> max_elements ?h" "max_elements ?h < 2 ^ 32"
    using links n by (auto simp: f links_wf_def)
  moreover have "maxM h = hnM h" "maxM0 h = hnM h * 2" "hnM h \<le> 10000" using links by (simp_all add: links_wf_def)
  moreover have "length (data_level0 ?h) = max_elements ?h" "length (linkLists ?h) = max_elements ?h"
    "length (element_levels ?h) = max_elements ?h" "pool_ok (max_elements ?h) (vl_pool ?h)"
    by (simp_all only: f new_VisitedListPool_ok)
  ultimately have "links_wf ?h" unfolding links_wf_def by (simp add: f(2-5,9))
  moreover have "entry_wf ?h" using ent by (auto simp: entry_wf_def f e(2))
  moreover have "labels_wf ?h" using lab unfolding labels_wf_def lk by (simp add: f(2) e(1) cong: conj_cong)
  moreover have "deleted_wf ?h"
    using d marked_below_ids [of h ?c] g(2,3) by (cases "allow_replace_deleted g") (simp_all add: deleted_wf_def deleted_ids_def f(13))
  ultimately show "hnsw_wf ?h" by (simp add: hnsw_wf_def)
qed

lemma indexFileSize_saved:
  assumes "links_wf h" and "layout_wf h" and fits: "file_fits h"
  shows "length (saveIndex h) = indexFileSize h"
proof -
  have lists: "length (concat (map (list_bytes h) [0..<n])) + k = foldl (\<lambda>size i. size + 4 + linkListSize h i) k [0..<n]"
    if "n \<le> cur_element_count h" for n k
    using that length_list_bytes [OF assms] by (induction n) simp_all
  have "length (saveIndex h) = length (concat (map (list_bytes h) [0..<cur_element_count h]))
      + (96 + cur_element_count h * size_data_per_element h)"
    using saveIndex_bytes [OF assms(1,2)] length_level0_bytes [OF assms(1,2)] fits by (simp add: file_fits_def)
  also have "\<dots> = foldl (\<lambda>size i. size + 4 + linkListSize h i) (96 + cur_element_count h * size_data_per_element h) [0..<cur_element_count h]"
    by (rule lists) simp
  finally have len: "length (saveIndex h) = foldl (\<lambda>size i. size + 4 + linkListSize h i)
      (96 + cur_element_count h * size_data_per_element h) [0..<cur_element_count h]" .
  have "length (saveIndex h) < 2 ^ 64" using fits by (simp add: file_fits_def)
  then have "length (saveIndex h) mod 2 ^ 64 = length (saveIndex h)" by simp
  then show ?thesis unfolding indexFileSize_def Let_def len by simp
qed

subsection \<open>The examples\<close>

lemma hn_demo_layout: "layout_wf hn_demo"
  by (simp add: layout_wf_def hn_demo_def)

lemma hn_demo_saved: "length (saveIndex hn_demo) = 187"
proof -
  have lvl: "lvl hn_demo 0 = 1" "lvl hn_demo 1 = 0" "lvl hn_demo 2 = 1" and c: "cur_element_count hn_demo = 3"
    by (simp_all add: hn_demo_def)
  have len: "length (links_bytes (linkLists hn_demo ! 0 ! 0)) = 8" "length (links_bytes (linkLists hn_demo ! 2 ! 0)) = 8"
    by (simp_all add: hn_demo_def demo_links_def)
  have "\<forall>i<3. size_links_per_element hn_demo * lvl hn_demo i < 2 ^ 32"
    unfolding less_three by (simp add: hn_demo_def)
  then have "saveIndex hn_demo = header_bytes hn_demo @ level0_bytes hn_demo @ concat (map (list_bytes hn_demo) [0..<3])"
    using saveIndex_bytes [OF hn_demo_links_wf hn_demo_layout] by (simp add: hn_demo_fields) (simp add: hn_demo_def)
  moreover have "length (level0_bytes hn_demo) = 63"
    using length_level0_bytes [OF hn_demo_links_wf hn_demo_layout] by (simp add: hn_demo_def)
  moreover have "length (concat (map (list_bytes hn_demo) [0..<3])) = 28"
    by (simp add: upt_rec list_bytes_def) (simp add: hn_demo_def demo_links_def)
  ultimately show ?thesis by simp
qed

lemma hn_demo_fits: "file_fits hn_demo"
proof -
  have "\<forall>i<3. e_label (data_level0 hn_demo ! i) < 2 ^ 64 \<and> size_links_per_element hn_demo * lvl hn_demo i < 2 ^ 32"
    unfolding less_three by (auto simp: hn_demo_def)
  moreover have "ef_construction hn_demo < 2 ^ 64 \<and> hnMult hn_demo < 2 ^ 64 \<and> size_data_per_element hn_demo < 2 ^ 63
     \<and> max_elements hn_demo * size_data_per_element hn_demo < 2 ^ 64" by (simp add: hn_demo_def)
  ultimately show ?thesis using hn_demo_saved by (simp add: file_fits_def hn_demo_fields)
qed

subsection \<open>Round trip and errors\<close>

text \<open>
  \<^bold>\<open>C7.\<close> Saving and loading: \<open>indexFileSize\<close> is the number of bytes \<open>saveIndex\<close> writes, and the constructor
  that loads the file makes a well-formed index with the same elements, labels, delete marks, levels, link lists, entry
  point and parameters, and the capacity asked for if that is enough for the elements.
\<close>

theorem saveIndex_loadIndex:
  assumes wf: "hnsw_wf h" and lay: "layout_wf h" and fits: "file_fits h" and mem: "\<And>n. malloc_ok env n"
    and s: "get_data_size s = hn_data_size h" "get_dist_func s = hn_fstdistfunc h"
    and n: "n * size_data_per_element h < 2 ^ 64" "n < 2 ^ 32"
  shows "length (saveIndex h) = indexFileSize h
    \<and> (\<exists>h'. load_HierarchicalNSW env uninit s (Some (saveIndex h)) n allow = Inr h' \<and> hnsw_wf h' \<and> layout_wf h'
        \<and> cur_element_count h' = cur_element_count h \<and> label_lookup h' = label_lookup h \<and> num_deleted h' = num_deleted h
        \<and> enterpoint_node h' = enterpoint_node h \<and> maxlevel h' = maxlevel h \<and> hnM h' = hnM h
        \<and> ef_construction h' = ef_construction h \<and> allow_replace_deleted h' = allow
        \<and> max_elements h' = (if n < cur_element_count h then max_elements h else n)
        \<and> (\<forall>i<cur_element_count h. data_level0 h' ! i = data_level0 h ! i \<and> lvl h' i = lvl h i
             \<and> (\<forall>level\<le>lvl h i. at_level h' i level = at_level h i level)))"
proof -
  have links: "links_wf h" and del: "deleted_wf h" using wf by (simp_all add: hnsw_wf_def)
  let ?g = "empty_HierarchicalNSW uninit allow"
  have g: "label_lookup ?g = Map.empty" "num_deleted ?g = 0" "deleted_elements ?g = []" "allow_replace_deleted ?g = allow"
    by (simp_all add: empty_HierarchicalNSW_def)
  have run: "load_HierarchicalNSW env uninit s (Some (saveIndex h)) n allow = Inr (loaded env h n ?g)"
    unfolding load_HierarchicalNSW_def by (rule load_saved [OF wf lay fits mem s n(1)])
  have "num_deleted (loaded env h n ?g) = num_deleted h"
    using loaded_deleted(2) [OF links, of env n ?g] del g by (simp add: deleted_wf_def)
  then show ?thesis
    using indexFileSize_saved [OF links lay fits] run loaded_wf [OF wf g(1-3) n(2)] lay
    by (auto simp: loaded_fields loaded_elems [OF links] g(4))
qed

theorem saveIndex_loadIndex_witness:
  "\<exists>h'. load_HierarchicalNSW demo_env byte_dist \<lparr>get_data_size = 1, get_dist_func = byte_dist\<rparr>
      (Some (saveIndex hn_demo)) 9 False = Inr h' \<and> hnsw_wf h' \<and> max_elements h' = 9 \<and> label_lookup h' = label_lookup hn_demo
    \<and> indexFileSize hn_demo = 187"
proof -
  have "hn_fstdistfunc hn_demo = byte_dist" "hn_data_size hn_demo = 1" "9 * size_data_per_element hn_demo < 2 ^ 64"
    by (simp_all add: hn_demo_def)
  then show ?thesis
    using saveIndex_loadIndex [OF hn_demo_wf hn_demo_layout hn_demo_fits, of demo_env
        "\<lparr>get_data_size = 1, get_dist_func = byte_dist\<rparr>" 9 byte_dist False] hn_demo_saved
    by (auto simp: demo_env_def hn_demo_fields)
qed

text \<open>How far a run of reads gets depends only on how long the file is.\<close>

definition advance :: "nat \<Rightarrow> nat \<Rightarrow> stream_pos \<Rightarrow> stream_pos" where
  "advance len n st = (case st of None \<Rightarrow> None | Some p \<Rightarrow> if p + n \<le> len then Some (p + n) else None)"

lemma snd_read_pod: "snd (read_pod file n old st) = advance (length file) n st"
  by (simp add: read_pod_def advance_def split: option.splits)

lemma advance_advance: "advance len n (advance len m st) = advance len (m + n) st"
  by (auto simp: advance_def split: option.splits)

lemma load_header_pos: "snd (load_header file n h) = (if 96 \<le> length file then Some 96 else None)"
  by (simp add: load_header_def Let_def case_prod_beta snd_read_pod advance_advance) (simp add: advance_def)

lemma check_lists_failed: "check_lists file n None = (if n = 0 then Inr None else Inl corrupted)"
  by (cases n) (simp_all add: tellg_def)

text \<open>
  \<^bold>\<open>C8.\<close> A saved file that was cut off anywhere is refused: \<open>loadIndex\<close> throws the corruption error, into whatever
  object and with whatever capacity and space it is loaded.
\<close>

theorem loadIndex_truncated:
  fixes h g :: "'d hnsw"
  assumes wf: "hnsw_wf h" and lay: "layout_wf h" and fits: "file_fits h" and m: "m < length (saveIndex h)"
  shows "loadIndex env (Some (take m (saveIndex h))) s n g = Inl (Throw ''Index seems to be corrupted or unsupported'')"
proof (cases "m < 96")
  case True
  then have "snd (load_header (take m (saveIndex h)) n (clear g)) = None" using m by (simp add: load_header_pos)
  then obtain h1 where "load_header (take m (saveIndex h)) n (clear g) = (h1, None)" by (metis prod.collapse)
  then show ?thesis
    by (simp add: loadIndex_def Let_def seek_cur_def check_lists_failed tellg_def corrupted_def)
next
  case False
  let ?file = "saveIndex h" and ?cur = "cur_element_count h" and ?sd = "size_data_per_element h"
  have links: "links_wf h" using wf by (simp add: hnsw_wf_def)
  have small: "length ?file < 2 ^ 63" using fits by (simp add: file_fits_def)
  have file_eq: "?file = header_bytes h @ level0_bytes h @ lists_from h 0"
    using saveIndex_bytes [OF links lay] fits by (simp add: file_fits_def lists_from_def)
  have cs: "96 + ?cur * ?sd \<le> length ?file" by (simp add: file_eq length_level0_bytes [OF links lay])
  have d1: "drop (96 + ?cur * ?sd) ?file = lists_from h 0" by (simp add: file_eq length_level0_bytes [OF links lay])
  have cut: "take m ?file = header_bytes h @ take (m - 96) (level0_bytes h @ lists_from h 0)"
    using False by (simp add: file_eq)
  obtain h1 where head: "load_header (take m ?file) n (clear g) = (h1, Some 96)" and h1: "cur_element_count h1 = ?cur"
    "size_data_per_element h1 = ?sd"
    using load_header_saved [OF header_fits [OF wf lay fits], where n = n and g = "clear g"] by (simp add: cut)
  have "96 + ?cur * ?sd < 2 ^ 63" "?cur * ?sd < 2 ^ 63" using cs small by simp_all
  then have sk: "seek_cur (signed64 (?cur * ?sd)) (Some 96) = Some (96 + ?cur * ?sd)"
    by (simp only: signed64_small seek_forward)
  have "case check_lists (take m ?file) ?cur (Some (96 + ?cur * ?sd)) of Inl e \<Rightarrow> e = corrupted | Inr st' \<Rightarrow> tellg st' \<noteq> int m"
    using check_lists_truncated [OF links lay fits small m, of 0 "Some (96 + ?cur * ?sd)"] d1 cs by simp
  then show ?thesis
    using m by (cases "check_lists (take m ?file) ?cur (Some (96 + ?cur * ?sd))")
      (auto simp: loadIndex_def head h1 Let_def sk corrupted_def)
qed

theorem loadIndex_truncated_witness:
  "loadIndex demo_env (Some (take 100 (saveIndex hn_demo))) \<lparr>get_data_size = 1, get_dist_func = byte_dist\<rparr> 0 hn_demo
    = Inl (Throw ''Index seems to be corrupted or unsupported'')"
  using loadIndex_truncated [OF hn_demo_wf hn_demo_layout hn_demo_fits, of 100] hn_demo_saved by simp

text \<open>
  \<^bold>\<open>C9.\<close> Loading into an object that already holds an index leaves that index's labels and deletion count behind: a
  label that the file does not have still points to an internal id, so the label table is wrong, and the count of deleted
  elements is the sum of both. \<open>clear\<close>, which \<open>loadIndex\<close> calls, resets neither.
\<close>

theorem loadIndex_keeps_stale_labels:
  assumes wf: "hnsw_wf h" and lay: "layout_wf h" and fits: "file_fits h" and mem: "\<And>n. malloc_ok env n"
    and s: "get_data_size s = hn_data_size h" "get_dist_func s = hn_fstdistfunc h"
    and n: "n * size_data_per_element h < 2 ^ 64" and l: "label_lookup g l = Some i" "label_lookup h l = None"
  shows "\<exists>h'. loadIndex env (Some (saveIndex h)) s n g = Inr h' \<and> label_lookup h' l = Some i \<and> \<not> labels_wf h'
    \<and> num_deleted h' = num_deleted g + card (deleted_ids h')"
proof -
  let ?h = "loaded env h n g"
  have links: "links_wf h" and lab: "labels_wf h" using wf by (simp_all add: hnsw_wf_def)
  have none: "\<not> (\<exists>j<cur_element_count h. e_label (data_level0 h ! j) = l)"
  proof
    assume "\<exists>j<cur_element_count h. e_label (data_level0 h ! j) = l"
    then obtain j where "label_lookup h l = Some j" using lab by (auto simp: labels_wf_def)
    then show False using l(2) by simp
  qed
  then have look: "label_lookup ?h l = Some i"
    using l(1) by (simp only: loaded_fields load_labels_wf [OF lab order_refl] if_False)
  moreover have "\<not> labels_wf ?h"
  proof
    assume "labels_wf ?h"
    then have "i < cur_element_count h \<and> e_label (data_level0 ?h ! i) = l" using look by (auto simp: labels_wf_def loaded_fields)
    then show False using none loaded_elems(1) [OF links] by auto
  qed
  ultimately show ?thesis
    using load_saved [OF wf lay fits mem s n] loaded_deleted(1,2) [OF links, of env n g] by simp
qed

theorem loadIndex_keeps_stale_labels_witness:
  "\<exists>h'. loadIndex demo_env (Some (saveIndex hn_demo)) \<lparr>get_data_size = 1, get_dist_func = byte_dist\<rparr> 0
      (hn_demo\<lparr>label_lookup := [5 \<mapsto> 1]\<rparr>) = Inr h' \<and> label_lookup h' 5 = Some 1 \<and> \<not> labels_wf h'"
proof -
  have "hn_fstdistfunc hn_demo = byte_dist" "hn_data_size hn_demo = 1" "label_lookup hn_demo 5 = None"
    by (simp_all add: hn_demo_def)
  then show ?thesis
    using loadIndex_keeps_stale_labels [OF hn_demo_wf hn_demo_layout hn_demo_fits, of demo_env
        "\<lparr>get_data_size = 1, get_dist_func = byte_dist\<rparr>" 0 "hn_demo\<lparr>label_lookup := [5 \<mapsto> 1]\<rparr>" 5 1]
    by (auto simp: demo_env_def)
qed

text \<open>
  A file whose element count exceeds its capacity passes the corruption check, and reading its level-0 block then
  writes behind the block that was allocated for the capacity.
\<close>

definition overflow_header :: "int hnsw" where
  "overflow_header = (empty_HierarchicalNSW byte_dist False)\<lparr>cur_element_count := 1, size_data_per_element := 1\<rparr>"

theorem loadIndex_overflows:
  "loadIndex demo_env (Some (header_bytes overflow_header @ [0] @ le_bytes 4 0)) \<lparr>get_data_size = 1, get_dist_func = byte_dist\<rparr> 0 hn_demo
    = Inl Bad_access"
proof -
  define f where "f = header_bytes overflow_header @ [0] @ le_bytes 4 0"
  have len: "length f = 101" by (simp add: f_def)
  obtain h1 where head: "load_header f 0 (clear hn_demo) = (h1, Some 96)" and h1: "cur_element_count h1 = 1"
    "size_data_per_element h1 = 1" "max_elements h1 = 0"
    using load_header_saved [of overflow_header "[0] @ le_bytes 4 0" 0 "clear hn_demo"]
    by (simp add: f_def overflow_header_def empty_HierarchicalNSW_def)
  have "drop 97 f = le_bytes 4 0 @ []" by (simp add: f_def)
  then have "read_pod f 4 0 (Some 97) = (0, Some 101)" using read_pod_hit(1) [of 97 f 4 0 "[]" 0] by simp
  then have "check_lists f 1 (Some 97) = Inr (Some 101)" by (simp add: tellg_def len)
  moreover have "seek_cur 1 (Some 96) = Some 97" by (simp add: seek_cur_def)
  ultimately have "loadIndex demo_env (Some f) \<lparr>get_data_size = 1, get_dist_func = byte_dist\<rparr> 0 hn_demo = Inl Bad_access"
    by (simp add: loadIndex_def Let_def head h1 signed64_def tellg_def demo_env_def len del: check_lists.simps One_nat_def)
  then show ?thesis by (simp add: f_def)
qed

end
