(* ===== verification/Bruteforce.thy ===== *)
theory Bruteforce
  imports Algorithm_Interface "HOL-Library.AList"
begin

text \<open>
  \<open>hnswlib/bruteforce.h\<close>, the exact index. \<open>data_\<close> is the byte array the class allocates:
  element \<open>i\<close> is the vector's bytes at \<open>size_per_element_ * i\<close>, then its label in eight
  bytes. \<open>dict\<close> is \<open>dict_external_to_internal\<close>. \<open>malloc\<close> is an argument: it answers a
  block of bytes with unspecified contents, or \<open>None\<close>.

  \<open>int\<close> loop counters and indices are naturals, so the theorems speak of indexes with fewer than \<open>2 ^ 31\<close>
  elements. Products of sizes wrap at \<open>2 ^ 64\<close>.
\<close>

datatype bf_error = Not_enough_memory | Exceeds_limit | Assertion_failed | Out_of_bounds

record 'd bruteforce =
  bf_data :: "byte list"
  bf_maxelements :: nat
  bf_cur_element_count :: nat
  bf_size_per_element :: nat
  bf_data_size :: nat
  bf_fstdistfunc :: "byte list \<Rightarrow> byte list \<Rightarrow> 'd"
  bf_dict :: "labeltype \<rightharpoonup> nat"

text \<open>The constructor with a size: what it allocates is what it can address.\<close>

definition new_BruteforceSearch ::
    "(nat \<Rightarrow> byte list option) \<Rightarrow> 'd space_interface \<Rightarrow> nat \<Rightarrow> bf_error + 'd bruteforce" where
  "new_BruteforceSearch malloc s maxElements =
     (let size = get_data_size s + 8 in
      case malloc (maxElements * size mod 2 ^ 64) of
        None \<Rightarrow> Inl Not_enough_memory
      | Some mem \<Rightarrow> Inr \<lparr>bf_data = mem, bf_maxelements = maxElements, bf_cur_element_count = 0,
          bf_size_per_element = size, bf_data_size = get_data_size s,
          bf_fstdistfunc = get_dist_func s, bf_dict = Map.empty\<rparr>)"

text \<open>Reads and writes of the array, an access outside the block being an error.\<close>

definition bf_vec :: "'d bruteforce \<Rightarrow> nat \<Rightarrow> byte list" where
  "bf_vec b i = get_bytes (bf_data b) (bf_size_per_element b * i) (bf_data_size b)"

definition bf_label :: "'d bruteforce \<Rightarrow> nat \<Rightarrow> labeltype" where
  "bf_label b i = le_val (get_bytes (bf_data b) (bf_size_per_element b * i + bf_data_size b) 8)"

definition bf_in_block :: "'d bruteforce \<Rightarrow> nat \<Rightarrow> bool" where
  "bf_in_block b i \<longleftrightarrow> bf_size_per_element b * i + bf_data_size b + 8 \<le> length (bf_data b)"

definition bf_addPoint :: "'d bruteforce \<Rightarrow> byte list \<Rightarrow> labeltype \<Rightarrow> bf_error + 'd bruteforce" where
  "bf_addPoint b datapoint label =
     bindE (case bf_dict b label of
              Some idx \<Rightarrow> Inr (idx, b)
            | None \<Rightarrow>
                if bf_maxelements b \<le> bf_cur_element_count b then Inl Exceeds_limit
                else let idx = bf_cur_element_count b in
                  Inr (idx, b\<lparr>bf_dict := (bf_dict b)(label \<mapsto> idx), bf_cur_element_count := idx + 1\<rparr>))
       (\<lambda>(idx, b).
          bindE (guardE (bf_in_block b idx) Out_of_bounds) (\<lambda>_.
            let off = bf_size_per_element b * idx;
                d = put_bytes (bf_data b) (off + bf_data_size b) (le_bytes 8 label)
            in Inr (b\<lparr>bf_data := put_bytes d off (take (bf_data_size b) datapoint)\<rparr>)))"

text \<open>
  \<open>removePoint\<close> reads \<open>found->second\<close> after \<open>erase(found)\<close> has destroyed the node. What the read yields
  is up to the allocator: \<open>freed v\<close>, for a node that held \<open>v\<close>.
\<close>

definition bf_removePoint ::
    "(nat \<Rightarrow> nat) \<Rightarrow> 'd bruteforce \<Rightarrow> labeltype \<Rightarrow> bf_error + 'd bruteforce" where
  "bf_removePoint freed b cur_external =
     (case bf_dict b cur_external of
        None \<Rightarrow> Inr b
      | Some found \<Rightarrow>
          let dict = (bf_dict b)(cur_external := None);
              cur_c = freed found;
              last = bf_cur_element_count b - 1
          in bindE (guardE (bf_in_block b last \<and> bf_in_block b cur_c) Out_of_bounds) (\<lambda>_.
               let label = bf_label b last;
                   src = get_bytes (bf_data b) (bf_size_per_element b * last) (bf_data_size b + 8)
               in Inr (b\<lparr>bf_dict := dict(label \<mapsto> cur_c),
                         bf_data := put_bytes (bf_data b) (bf_size_per_element b * cur_c) src,
                         bf_cur_element_count := last\<rparr>)))"

text \<open>The two loops of \<open>searchKnn\<close>; \<open>dmax\<close> is \<open>numeric_limits<dist_t>::max()\<close>.\<close>

definition bf_dist :: "'d bruteforce \<Rightarrow> byte list \<Rightarrow> nat \<Rightarrow> bf_error + 'd" where
  "bf_dist b query_data i = bindE (guardE (bf_in_block b i) Out_of_bounds)
     (\<lambda>_. Inr (bf_fstdistfunc b query_data (bf_vec b i)))"

definition bf_first_loop ::
    "'d::linorder bruteforce \<Rightarrow> byte list \<Rightarrow> filter_functor \<Rightarrow> ('d \<times> labeltype) list \<Rightarrow> nat
      \<Rightarrow> bf_error + ('d \<times> labeltype) list" where
  "bf_first_loop b query_data isIdAllowed topResults i =
     bindE (bf_dist b query_data i) (\<lambda>dist.
       let label = bf_label b i in
       Inr (if allowed isIdAllowed label then pq_push pair_less (dist, label) topResults else topResults))"

definition bf_second_loop ::
    "'d::linorder bruteforce \<Rightarrow> byte list \<Rightarrow> nat \<Rightarrow> filter_functor \<Rightarrow> ('d \<times> labeltype) list \<times> 'd \<Rightarrow> nat
      \<Rightarrow> bf_error + ('d \<times> labeltype) list \<times> 'd" where
  "bf_second_loop b query_data k isIdAllowed st i =
     (case st of (topResults, lastdist) \<Rightarrow>
       bindE (bf_dist b query_data i) (\<lambda>dist.
         if dist \<le> lastdist then
           let label = bf_label b i;
               q = (if allowed isIdAllowed label then pq_push pair_less (dist, label) topResults else topResults);
               q = (if k < length q then pq_pop pair_less q else q)
           in Inr (q, if q \<noteq> [] then fst (pq_top q) else lastdist)
         else Inr (topResults, lastdist)))"

definition bf_searchKnn ::
    "bool \<Rightarrow> 'd \<Rightarrow> 'd::linorder bruteforce \<Rightarrow> byte list \<Rightarrow> nat \<Rightarrow> filter_functor
      \<Rightarrow> bf_error + ('d \<times> labeltype) list" where
  "bf_searchKnn ndebug dmax b query_data k isIdAllowed =
     bindE (guardE (ndebug \<or> k \<le> bf_cur_element_count b) Assertion_failed) (\<lambda>_.
       if bf_cur_element_count b = 0 then Inr []
       else bindE (foldE (bf_first_loop b query_data isIdAllowed) [] [0..<k]) (\<lambda>topResults.
              let lastdist = (if topResults = [] then dmax else fst (pq_top topResults)) in
              bindE (foldE (bf_second_loop b query_data k isIdAllowed) (topResults, lastdist)
                       [k..<bf_cur_element_count b])
                (\<lambda>(topResults, _). Inr topResults)))"

definition bf_saveIndex :: "'d bruteforce \<Rightarrow> byte list" where
  "bf_saveIndex b =
     (let out = writeBinaryPOD [] 8 (bf_maxelements b);
          out = writeBinaryPOD out 8 (bf_size_per_element b);
          out = writeBinaryPOD out 8 (bf_cur_element_count b)
      in out @ take (bf_maxelements b * bf_size_per_element b mod 2 ^ 64) (bf_data b))"

text \<open>
  \<open>loadIndex\<close> on an existing object; a file that cannot be opened reads as an empty stream. The size read
  from the file is overwritten with the space's.
\<close>

definition bf_loadIndex ::
    "(nat \<Rightarrow> byte list option) \<Rightarrow> 'd space_interface \<Rightarrow> byte list \<Rightarrow> 'd bruteforce \<Rightarrow> bf_error + 'd bruteforce" where
  "bf_loadIndex malloc s inp b =
     (let (maxel, inp) = readBinaryPOD inp 8 (bf_maxelements b);
          (_, inp) = readBinaryPOD inp 8 (bf_size_per_element b);
          (cur, inp) = readBinaryPOD inp 8 (bf_cur_element_count b);
          size = get_data_size s + 8;
          n = maxel * size mod 2 ^ 64
      in case malloc n of
           None \<Rightarrow> Inl Not_enough_memory
         | Some mem \<Rightarrow> Inr (b\<lparr>bf_data := fst (stream_read inp mem n), bf_maxelements := maxel,
             bf_cur_element_count := cur, bf_size_per_element := size, bf_data_size := get_data_size s,
             bf_fstdistfunc := get_dist_func s\<rparr>))"

text \<open>The constructors that leave the object empty, and that load a file.\<close>

definition empty_BruteforceSearch :: "(byte list \<Rightarrow> byte list \<Rightarrow> 'd) \<Rightarrow> 'd bruteforce" where
  "empty_BruteforceSearch uninit = \<lparr>bf_data = [], bf_maxelements = 0, bf_cur_element_count = 0,
     bf_size_per_element = 0, bf_data_size = 0, bf_fstdistfunc = uninit, bf_dict = Map.empty\<rparr>"

definition load_BruteforceSearch ::
    "(nat \<Rightarrow> byte list option) \<Rightarrow> (byte list \<Rightarrow> byte list \<Rightarrow> 'd) \<Rightarrow> 'd space_interface \<Rightarrow> byte list
      \<Rightarrow> bf_error + 'd bruteforce" where
  "load_BruteforceSearch malloc uninit s file = bf_loadIndex malloc s file (empty_BruteforceSearch uninit)"

subsection \<open>The index as a list of labelled vectors\<close>

text \<open>What the index stands for, and the representation invariant.\<close>

definition bf_elements :: "'d bruteforce \<Rightarrow> (labeltype \<times> byte list) list" where
  "bf_elements b = map (\<lambda>i. (bf_label b i, bf_vec b i)) [0..<bf_cur_element_count b]"

definition bf_shape :: "'d bruteforce \<Rightarrow> bool" where
  "bf_shape b \<longleftrightarrow> bf_size_per_element b = bf_data_size b + 8
     \<and> length (bf_data b) = bf_maxelements b * bf_size_per_element b
     \<and> length (bf_data b) < 2 ^ 64 \<and> bf_cur_element_count b \<le> bf_maxelements b"

definition bf_wf :: "'d bruteforce \<Rightarrow> bool" where
  "bf_wf b \<longleftrightarrow> bf_shape b
     \<and> (\<forall>l i. bf_dict b l = Some i \<longleftrightarrow> i < bf_cur_element_count b \<and> bf_label b i = l)"

subsection \<open>Blocks\<close>

definition bf_block :: "'d bruteforce \<Rightarrow> nat \<Rightarrow> byte list" where
  "bf_block b i = get_bytes (bf_data b) (bf_size_per_element b * i) (bf_size_per_element b)"

lemma bf_vec_block: "bf_shape b \<Longrightarrow> bf_vec b i = take (bf_data_size b) (bf_block b i)"
  by (simp add: bf_shape_def bf_vec_def bf_block_def get_bytes_prefix [symmetric])

lemma bf_label_block: "bf_shape b \<Longrightarrow> bf_label b i = le_val (drop (bf_data_size b) (bf_block b i))"
  by (simp add: bf_shape_def bf_label_def bf_block_def get_bytes_suffix)

lemma bf_in_block_iff: "bf_shape b \<Longrightarrow> i < bf_maxelements b \<Longrightarrow> bf_in_block b i"
  using block_bound [of i "bf_maxelements b" "bf_size_per_element b"]
  by (simp add: bf_shape_def bf_in_block_def ac_simps)

lemma length_bf_block: "bf_shape b \<Longrightarrow> i < bf_maxelements b \<Longrightarrow> length (bf_block b i) = bf_size_per_element b"
  using block_bound [of i "bf_maxelements b" "bf_size_per_element b"]
  by (simp add: bf_shape_def bf_block_def)

lemma bf_put_block:
  assumes "bf_shape b" and "i < bf_maxelements b" and "length blk = bf_size_per_element b"
    and b': "b' = b\<lparr>bf_data := put_bytes (bf_data b) (bf_size_per_element b * i) blk,
        bf_cur_element_count := c, bf_dict := m\<rparr>"
    and c: "c \<le> bf_maxelements b"
  shows "bf_shape b'" and "j < bf_maxelements b \<Longrightarrow> bf_block b' j = (if i = j then blk else bf_block b j)"
proof -
  show "bf_shape b'"
    using assms block_bound [of i "bf_maxelements b" "bf_size_per_element b"] by (auto simp: bf_shape_def)
  show "bf_block b' j = (if i = j then blk else bf_block b j)" if "j < bf_maxelements b"
    using assms that get_put_block [of "bf_data b" "bf_maxelements b" "bf_size_per_element b" blk i j]
    by (simp add: bf_shape_def bf_block_def)
qed

lemma bf_elements_cong:
  assumes "bf_shape b" and "bf_shape b'" and "bf_data_size b' = bf_data_size b"
    and "\<And>i. i < n \<Longrightarrow> bf_block b' i = bf_block b i"
  shows "map (\<lambda>i. (bf_label b' i, bf_vec b' i)) [0..<n] = map (\<lambda>i. (bf_label b i, bf_vec b i)) [0..<n]"
  using assms by (simp add: bf_vec_block bf_label_block)

lemma length_bf_elements [simp]: "length (bf_elements b) = bf_cur_element_count b"
  by (simp add: bf_elements_def)

lemma nth_bf_elements: "i < bf_cur_element_count b \<Longrightarrow> bf_elements b ! i = (bf_label b i, bf_vec b i)"
  by (simp add: bf_elements_def)

text \<open>In a well-formed index labels are distinct, and the dictionary is the inverse of \<open>bf_label\<close>.\<close>

lemma bf_wf_labels_distinct: "bf_wf b \<Longrightarrow> distinct (map fst (bf_elements b))"
  by (auto simp: bf_wf_def bf_elements_def distinct_conv_nth comp_def) (metis option.inject)

lemma bf_wf_dict_None:
  assumes "bf_wf b"
  shows "bf_dict b l = None \<longleftrightarrow> l \<notin> fst ` set (bf_elements b)"
proof -
  have "bf_dict b l = None \<longleftrightarrow> \<not> (\<exists>i. bf_dict b l = Some i)" by auto
  also have "\<dots> \<longleftrightarrow> l \<notin> bf_label b ` {0..<bf_cur_element_count b}"
    using assms by (auto simp: bf_wf_def)
  finally show ?thesis by (simp add: bf_elements_def image_image)
qed

lemma AList_update_nth:
  assumes "distinct (map fst xs)" and "i < length xs" and "fst (xs ! i) = k"
  shows "AList.update k v xs = xs[i := (k, v)]"
  using assms
proof (induction xs arbitrary: i)
  case (Cons x xs)
  show ?case
  proof (cases i)
    case (Suc n)
    then have "xs ! n \<in> set xs" "fst (xs ! n) = k" using Cons.prems by simp_all
    then have "fst x \<noteq> k" using Cons.prems(1) by (metis distinct.simps(2) image_eqI list.simps(9) list.set_map)
    then show ?thesis using Cons.IH [of n] Cons.prems Suc by (cases x) simp
  qed (use Cons.prems in \<open>cases x; simp\<close>)
qed simp

lemma AList_update_new: "k \<notin> fst ` set xs \<Longrightarrow> AList.update k v xs = xs @ [(k, v)]"
  by (induction xs) auto

lemma list_update_map_upt:
  "(map f [0..<n])[i := y] = map (\<lambda>j. if j = i then y else f j) [0..<n]"
  by (rule nth_equalityI) (auto simp: nth_list_update)

subsection \<open>Adding points\<close>

lemma bf_store:
  assumes "bf_shape b" and "i < bf_maxelements b" and "length v = bf_data_size b" and "l < 2 ^ 64"
    and b': "b' = b\<lparr>bf_data := put_bytes (put_bytes (bf_data b) (bf_size_per_element b * i + bf_data_size b) (le_bytes 8 l))
          (bf_size_per_element b * i) (take (bf_data_size b) v), bf_cur_element_count := c, bf_dict := m\<rparr>"
    and "c \<le> bf_maxelements b"
  shows "bf_shape b' \<and> bf_data_size b' = bf_data_size b
    \<and> (\<forall>j<bf_maxelements b. bf_label b' j = (if j = i then l else bf_label b j)
        \<and> bf_vec b' j = (if j = i then v else bf_vec b j))"
proof -
  let ?s = "bf_size_per_element b"
  have s: "?s = length v + 8" using assms by (simp add: bf_shape_def)
  have "put_bytes (put_bytes (bf_data b) (?s * i + length v) (le_bytes 8 l)) (?s * i) v
      = put_bytes (bf_data b) (?s * i) (v @ le_bytes 8 l)"
    using put_put_adjacent [of "?s * i" v "le_bytes 8 l" "bf_data b"] block_bound [OF assms(2), of ?s] assms(1) s
    by (simp add: bf_shape_def)
  then have eq: "b' = b\<lparr>bf_data := put_bytes (bf_data b) (?s * i) (v @ le_bytes 8 l),
      bf_cur_element_count := c, bf_dict := m\<rparr>"
    using b' assms(3) by simp
  note put = bf_put_block [OF assms(1,2) _ eq assms(6)]
  have shape: "bf_shape b'" using put(1) s by simp
  have "l < 256 ^ 8" using assms(4) by simp
  then have "bf_label b' j = (if j = i then l else bf_label b j) \<and> bf_vec b' j = (if j = i then v else bf_vec b j)"
    if "j < bf_maxelements b" for j
    using put(2) [of j] that s assms(1,3) shape by (auto simp: bf_label_block bf_vec_block eq)
  then show ?thesis using shape by (simp add: eq)
qed

lemma bf_addPoint_update:
  assumes wf: "bf_wf b" and v: "length v = bf_data_size b" and l: "l < 2 ^ 64" and i: "bf_dict b l = Some i"
  shows "\<exists>b'. bf_addPoint b v l = Inr b' \<and> bf_wf b' \<and> bf_data_size b' = bf_data_size b
    \<and> bf_elements b' = (bf_elements b)[i := (l, v)]"
proof -
  have shape: "bf_shape b" and i_lt: "i < bf_cur_element_count b" and i_l: "bf_label b i = l"
    and max: "bf_cur_element_count b \<le> bf_maxelements b"
    using wf i by (auto simp: bf_wf_def bf_shape_def)
  let ?b = "b\<lparr>bf_data := put_bytes (put_bytes (bf_data b) (bf_size_per_element b * i + bf_data_size b) (le_bytes 8 l))
          (bf_size_per_element b * i) (take (bf_data_size b) v), bf_cur_element_count := bf_cur_element_count b,
          bf_dict := bf_dict b\<rparr>"
  have st: "bf_shape ?b \<and> bf_data_size ?b = bf_data_size b
    \<and> (\<forall>j<bf_maxelements b. bf_label ?b j = (if j = i then l else bf_label b j)
        \<and> bf_vec ?b j = (if j = i then v else bf_vec b j))"
    by (rule bf_store [OF shape _ v l refl]) (use i_lt max in auto)
  have run: "bf_addPoint b v l = Inr ?b"
    using i i_lt max bf_in_block_iff [OF shape, of i] by (simp add: bf_addPoint_def Let_def)
  have lab: "bf_label ?b j = bf_label b j" if "j < bf_cur_element_count b" for j
    using st that max i_l by auto
  have "bf_wf ?b"
    unfolding bf_wf_def
  proof (intro conjI allI)
    show "bf_shape ?b" using st by blast
    show "bf_dict ?b l' = Some j \<longleftrightarrow> j < bf_cur_element_count ?b \<and> bf_label ?b j = l'" for l' j
      using wf lab [of j] by (auto simp: bf_wf_def)
  qed
  moreover have "bf_elements ?b = (bf_elements b)[i := (l, v)]"
    unfolding bf_elements_def list_update_map_upt using st max by auto
  ultimately show ?thesis using run st by blast
qed

lemma bf_addPoint_insert:
  assumes wf: "bf_wf b" and v: "length v = bf_data_size b" and l: "l < 2 ^ 64" and i: "bf_dict b l = None"
    and room: "bf_cur_element_count b < bf_maxelements b"
  shows "\<exists>b'. bf_addPoint b v l = Inr b' \<and> bf_wf b' \<and> bf_data_size b' = bf_data_size b
    \<and> bf_elements b' = bf_elements b @ [(l, v)]"
proof -
  have shape: "bf_shape b" using wf by (simp add: bf_wf_def)
  let ?i = "bf_cur_element_count b"
  let ?b = "b\<lparr>bf_data := put_bytes (put_bytes (bf_data b) (bf_size_per_element b * ?i + bf_data_size b) (le_bytes 8 l))
          (bf_size_per_element b * ?i) (take (bf_data_size b) v), bf_cur_element_count := ?i + 1,
          bf_dict := (bf_dict b)(l \<mapsto> ?i)\<rparr>"
  have st: "bf_shape ?b \<and> bf_data_size ?b = bf_data_size b
    \<and> (\<forall>j<bf_maxelements b. bf_label ?b j = (if j = ?i then l else bf_label b j)
        \<and> bf_vec ?b j = (if j = ?i then v else bf_vec b j))"
    by (rule bf_store [OF shape _ v l refl]) (use room in auto)
  have run: "bf_addPoint b v l = Inr ?b"
    using i room bf_in_block_iff [OF shape room] by (simp add: bf_addPoint_def Let_def bf_in_block_def)
  have fresh: "bf_label b j \<noteq> l" if "j < ?i" for j
    using bf_wf_dict_None [OF wf, of l] i that by (auto simp: bf_elements_def image_image)
  have lab: "bf_label ?b j = (if j = ?i then l else bf_label b j)" if "j \<le> ?i" for j
    using st that room by auto
  have "bf_wf ?b"
    unfolding bf_wf_def
  proof (intro conjI allI)
    show "bf_shape ?b" using st by blast
    show "bf_dict ?b l' = Some j \<longleftrightarrow> j < bf_cur_element_count ?b \<and> bf_label ?b j = l'" for l' j
      using wf lab [of j] fresh [of j] i by (auto simp: bf_wf_def less_Suc_eq)
  qed
  moreover have "bf_elements ?b = bf_elements b @ [(l, v)]"
    unfolding bf_elements_def using st room by auto
  ultimately show ?thesis using run st by blast
qed


text \<open>A small index for the examples: one-byte vectors, three elements, room for four.\<close>

definition bf_demo :: "int bruteforce" where
  "bf_demo = \<lparr>bf_data = [10, 7, 0, 0, 0, 0, 0, 0, 0] @ [20, 8, 0, 0, 0, 0, 0, 0, 0] @ [30, 9, 0, 0, 0, 0, 0, 0, 0]
       @ replicate 9 0,
     bf_maxelements = 4, bf_cur_element_count = 3, bf_size_per_element = 9, bf_data_size = 1,
     bf_fstdistfunc = byte_dist, bf_dict = [7 \<mapsto> 0, 8 \<mapsto> 1, 9 \<mapsto> 2]\<rparr>"

lemma bf_demo_elements: "bf_elements bf_demo = [(7, [10]), (8, [20]), (9, [30])]"
proof -
  have "[0..<3] = [0, 1, 2 :: nat]" by (simp add: upt_rec)
  then show ?thesis by (simp add: bf_elements_def bf_demo_def bf_label_def bf_vec_def get_bytes_def)
qed

lemma bf_demo_fields:
  "bf_data_size bf_demo = 1" "bf_maxelements bf_demo = 4" "bf_cur_element_count bf_demo = 3"
  "bf_dict bf_demo 7 = Some 0" "bf_dict bf_demo 9 = Some 2" "bf_vec bf_demo 0 = [10]"
  "bf_fstdistfunc bf_demo = byte_dist"
  by (simp_all add: bf_demo_def bf_vec_def get_bytes_def)

lemma bf_demo_wf: "bf_wf bf_demo"
proof -
  have "bf_shape bf_demo" by (simp add: bf_demo_def bf_shape_def)
  moreover have "bf_label bf_demo 0 = 7" "bf_label bf_demo 1 = 8" "bf_label bf_demo 2 = 9"
    by (simp_all add: bf_demo_def bf_label_def get_bytes_def)
  moreover have "i < bf_cur_element_count bf_demo \<longleftrightarrow> i = 0 \<or> i = 1 \<or> i = 2" for i
    by (auto simp: bf_demo_def)
  moreover have "bf_dict bf_demo l = (if l = 9 then Some 2 else if l = 8 then Some 1 else if l = 7 then Some 0 else None)" for l
    by (simp add: bf_demo_def)
  ultimately have "bf_dict bf_demo l = Some i \<longleftrightarrow> i < bf_cur_element_count bf_demo \<and> bf_label bf_demo i = l" for l i
    by (cases "i = 0 \<or> i = 1 \<or> i = 2") auto
  with \<open>bf_shape bf_demo\<close> show ?thesis unfolding bf_wf_def by blast
qed


subsection \<open>Removing points\<close>

lemma bf_removePoint_run:
  assumes shape: "bf_shape b" and i: "bf_dict b l = Some i" and i_lt: "i < bf_cur_element_count b"
  shows "\<exists>b'. bf_removePoint id b l = Inr b' \<and> bf_shape b' \<and> bf_data_size b' = bf_data_size b
    \<and> bf_maxelements b' = bf_maxelements b \<and> bf_cur_element_count b' = bf_cur_element_count b - 1
    \<and> bf_dict b' = ((bf_dict b)(l := None))(bf_label b (bf_cur_element_count b - 1) \<mapsto> i)
    \<and> (\<forall>j<bf_maxelements b. bf_label b' j = bf_label b (if j = i then bf_cur_element_count b - 1 else j)
        \<and> bf_vec b' j = bf_vec b (if j = i then bf_cur_element_count b - 1 else j))"
proof -
  let ?last = "bf_cur_element_count b - 1" and ?s = "bf_size_per_element b"
  have max: "?last < bf_maxelements b" "i < bf_maxelements b" "?last \<le> bf_maxelements b"
    using shape i_lt by (auto simp: bf_shape_def)
  let ?d = "((bf_dict b)(l := None))(bf_label b ?last \<mapsto> i)"
  let ?b = "b\<lparr>bf_data := put_bytes (bf_data b) (?s * i) (bf_block b ?last),
      bf_cur_element_count := ?last, bf_dict := ?d\<rparr>"
  have "get_bytes (bf_data b) (?s * ?last) (bf_data_size b + 8) = bf_block b ?last"
    using shape by (simp add: bf_block_def bf_shape_def)
  then have run: "bf_removePoint id b l = Inr ?b"
    using i bf_in_block_iff [OF shape max(1)] bf_in_block_iff [OF shape max(2)]
    by (simp add: bf_removePoint_def Let_def)
  note put = bf_put_block [OF shape max(2) length_bf_block [OF shape max(1)] refl max(3), where m = ?d]
  have "bf_label ?b j = bf_label b (if j = i then ?last else j) \<and> bf_vec ?b j = bf_vec b (if j = i then ?last else j)"
    if "j < bf_maxelements b" for j
    using put(2) [OF that] put(1) shape by (auto simp: bf_label_block bf_vec_block)
  then show ?thesis
    using put(1) by (intro exI [of _ ?b] conjI allI impI run) simp_all
qed

lemma bf_removePoint_elements:
  assumes shape: "bf_shape b" and i: "bf_dict b l = Some i" and i_lt: "i < bf_cur_element_count b"
    and b': "bf_removePoint id b l = Inr b'"
  shows "bf_elements b' = butlast ((bf_elements b)[i := last (bf_elements b)])"
proof (rule nth_equalityI)
  note st = bf_removePoint_run [OF shape i i_lt, unfolded b']
  have max: "bf_cur_element_count b \<le> bf_maxelements b" using shape by (simp add: bf_shape_def)
  show "length (bf_elements b') = length (butlast ((bf_elements b)[i := last (bf_elements b)]))"
    using st by auto
  have last: "last (bf_elements b) = bf_elements b ! (bf_cur_element_count b - 1)"
    using i_lt by (metis last_conv_nth length_bf_elements less_nat_zero_code list.size(3))
  show "bf_elements b' ! j = butlast ((bf_elements b)[i := last (bf_elements b)]) ! j"
    if "j < length (bf_elements b')" for j
    using that st i_lt max by (auto simp: nth_butlast nth_bf_elements nth_list_update last)
qed





subsection \<open>Searching\<close>

definition bf_pair :: "'d bruteforce \<Rightarrow> byte list \<Rightarrow> labeltype \<times> byte list \<Rightarrow> 'd \<times> labeltype" where
  "bf_pair b query e = (bf_fstdistfunc b query (snd e), fst e)"

definition bf_candidates :: "'d bruteforce \<Rightarrow> byte list \<Rightarrow> filter_functor \<Rightarrow> nat \<Rightarrow> ('d \<times> labeltype) multiset" where
  "bf_candidates b query f n = mset (map (bf_pair b query) (filter (\<lambda>e. allowed f (fst e)) (take n (bf_elements b))))"

lemma bf_candidates_Suc:
  "n < bf_cur_element_count b \<Longrightarrow> bf_candidates b query f (Suc n) =
     (if allowed f (bf_label b n)
      then add_mset (bf_fstdistfunc b query (bf_vec b n), bf_label b n) (bf_candidates b query f n)
      else bf_candidates b query f n)"
  by (simp add: bf_candidates_def take_Suc_conv_app_nth nth_bf_elements bf_pair_def)

lemma bf_candidates_all:
  "k \<le> bf_cur_element_count b \<Longrightarrow> \<forall>i<k. allowed f (bf_label b i) \<Longrightarrow> size (bf_candidates b query f k) = k"
  by (induction k) (auto simp: bf_candidates_Suc, simp add: bf_candidates_def)

lemma bf_dist_ok:
  assumes "bf_shape b" and "i < bf_cur_element_count b"
  shows "bf_dist b query i = Inr (bf_fstdistfunc b query (bf_vec b i))"
proof -
  have "i < bf_maxelements b" using assms by (simp add: bf_shape_def)
  then show ?thesis using bf_in_block_iff [OF assms(1)] by (simp add: bf_dist_def)
qed

lemma bf_first_loop_fold:
  assumes "bf_shape b" and "k \<le> bf_cur_element_count b"
  shows "\<exists>q. foldE (bf_first_loop b query f) [] [0..<k] = Inr q
    \<and> is_heap pair_less q \<and> mset q = bf_candidates b query f k"
proof (rule foldE_upt_total [where P = "\<lambda>n q. is_heap pair_less q \<and> mset q = bf_candidates b query f n"])
  fix i q
  assume "i < k" and "is_heap pair_less q \<and> mset q = bf_candidates b query f i"
  then show "\<exists>q'. bf_first_loop b query f q i = Inr q'
      \<and> is_heap pair_less q' \<and> mset q' = bf_candidates b query f (Suc i)"
    using assms by (simp add: bf_first_loop_def Let_def bf_dist_ok bf_candidates_Suc heap_simps by_pair.heap_pq_push)
qed (simp_all add: bf_candidates_def by_pair.std.invar_empty)

definition bf_loop_inv where
  "bf_loop_inv b query f k n st \<longleftrightarrow> (case st of (q, lastdist) \<Rightarrow> is_heap pair_less q \<and> length q = k
     \<and> k_best pair_less k (bf_candidates b query f n) (mset q) \<and> (q \<noteq> [] \<longrightarrow> lastdist = fst (pq_top q)))"

lemma bf_second_loop_step:
  assumes "bf_shape b" and "n < bf_cur_element_count b" and inv: "bf_loop_inv b query f k n st"
  shows "\<exists>st'. bf_second_loop b query k f st n = Inr st' \<and> bf_loop_inv b query f k (Suc n) st'"
proof -
  obtain q lastdist where st: "st = (q, lastdist)" by fastforce
  let ?d = "bf_fstdistfunc b query (bf_vec b n)" and ?l = "bf_label b n"
  let ?q = "pq_push pair_less (?d, ?l) q"
  have heap: "is_heap pair_less q" and len: "length q = k"
    and best: "k_best pair_less k (bf_candidates b query f n) (mset q)"
    and last: "q \<noteq> [] \<Longrightarrow> lastdist = fst (pq_top q)"
    using inv by (auto simp: bf_loop_inv_def st)
  note run = bf_second_loop_def st bf_dist_ok [OF assms(1,2)] bf_candidates_Suc [OF assms(2)]
  show ?thesis
  proof (cases "?d \<le> lastdist")
    case False
    then have "q \<noteq> [] \<Longrightarrow> \<not> pair_less (?d, ?l) (pq_top q)" using last by (auto simp: pair_less_def)
    then have "k_best pair_less k (bf_candidates b query f (Suc n)) (mset q)"
      using by_pair.std.k_best_skip [OF heap best len] best by (simp add: run)
    then show ?thesis using False heap len last by (simp add: run bf_loop_inv_def)
  next
    case True
    show ?thesis
    proof (cases "allowed f ?l")
      case False
      then show ?thesis using True heap len last best by (auto simp: run bf_loop_inv_def Let_def)
    next
      case al: True
      have "k_best pair_less k (bf_candidates b query f (Suc n)) (mset (pq_pop pair_less ?q))"
        using by_pair.std.k_best_push_full [OF heap best len] al by (simp add: run)
      moreover have "is_heap pair_less (pq_pop pair_less ?q)"
        by (intro by_pair.heap_pq_pop by_pair.heap_pq_push heap)
      moreover have "length ?q = Suc k" "length (pq_pop pair_less ?q) = k" using len by (simp_all add: heap_simps)
      ultimately show ?thesis using True al by (simp add: run bf_loop_inv_def Let_def)
    qed
  qed
qed

lemma bf_searchKnn_best:
  assumes shape: "bf_shape b" and k: "k \<le> bf_cur_element_count b" and al: "\<forall>i<k. allowed f (bf_label b i)"
  shows "\<exists>r. bf_searchKnn ndebug dmax b query k f = Inr r \<and> is_heap pair_less r
    \<and> k_best pair_less k (mset (map (bf_pair b query) (filter (\<lambda>e. allowed f (fst e)) (bf_elements b)))) (mset r)"
proof -
  let ?n = "bf_cur_element_count b"
  obtain q where q: "foldE (bf_first_loop b query f) [] [0..<k] = Inr q" "is_heap pair_less q"
      "mset q = bf_candidates b query f k"
    using bf_first_loop_fold [OF shape k] by blast
  define lastdist where "lastdist = (if q = [] then dmax else fst (pq_top q))"
  have "length q = k"
    using q(3) bf_candidates_all [OF k al, of query] by (metis size_mset)
  then have "bf_loop_inv b query f k k (q, lastdist)"
    using q by (simp add: bf_loop_inv_def k_best_self lastdist_def flip: q(3))
  then have "\<exists>st. foldE (bf_second_loop b query k f) (q, lastdist) [k..<?n] = Inr st \<and> bf_loop_inv b query f k ?n st"
    by (rule foldE_upt_total [OF k]) (rule bf_second_loop_step [OF shape])
  then obtain r d where r: "foldE (bf_second_loop b query k f) (q, lastdist) [k..<?n] = Inr (r, d)"
      "bf_loop_inv b query f k ?n (r, d)" by auto
  have "bf_searchKnn ndebug dmax b query k f = Inr r"
  proof (cases "?n = 0")
    case True
    then show ?thesis using r k q by (simp add: bf_searchKnn_def)
  next
    case False
    then show ?thesis using k q(1) r(1) by (simp add: bf_searchKnn_def Let_def flip: lastdist_def)
  qed
  then show ?thesis using r(2) by (simp add: bf_loop_inv_def bf_candidates_def)
qed

text \<open>For every index and filter: the result is a heap of at most \<open>k\<close> allowed pairs.\<close>

definition bf_sound where
  "bf_sound f q \<longleftrightarrow> is_heap pair_less q \<and> (\<forall>p\<in>set q. allowed f (snd p))"

lemma bf_sound_push: "bf_sound f q \<Longrightarrow> allowed f (snd p) \<Longrightarrow> bf_sound f (pq_push pair_less p q)"
  using mset_pq_push [of pair_less p q]
  by (auto simp: bf_sound_def by_pair.heap_pq_push dest!: arg_cong [of "mset _" _ set_mset])

lemma bf_sound_pop: "bf_sound f q \<Longrightarrow> bf_sound f (pq_pop pair_less q)"
proof (cases "q = []")
  case False
  assume "bf_sound f q"
  moreover have "set (pq_pop pair_less q) \<subseteq> set q"
    using mset_pq_pop [OF False, of pair_less] by (metis in_diffD set_mset_mset subsetI)
  ultimately show ?thesis by (auto simp: bf_sound_def by_pair.heap_pq_pop)
qed (simp add: pq_pop_def)

lemma bf_second_loop_sound:
  assumes run: "bf_second_loop b query k f (q, d) i = Inr st" and sound: "bf_sound f q" and len: "length q \<le> k"
  shows "bf_sound f (fst st) \<and> length (fst st) \<le> k"
proof -
  obtain dist where dist: "bf_dist b query i = Inr dist"
    using run by (auto simp: bf_second_loop_def bindE_Inr_iff)
  define q1 where "q1 = (if allowed f (bf_label b i) then pq_push pair_less (dist, bf_label b i) q else q)"
  define q2 where "q2 = (if k < length q1 then pq_pop pair_less q1 else q1)"
  have "bf_sound f q1 \<and> length q1 \<le> Suc k"
    using sound len by (simp add: q1_def bf_sound_push heap_simps)
  then have "bf_sound f q2 \<and> length q2 \<le> k" by (auto simp: q2_def bf_sound_pop heap_simps)
  moreover have "st = (if dist \<le> d then (q2, if q2 \<noteq> [] then fst (pq_top q2) else d) else (q, d))"
    using run dist by (cases "dist \<le> d") (auto simp: bf_second_loop_def Let_def q1_def q2_def)
  ultimately show ?thesis using sound len by simp
qed

lemma bf_searchKnn_sound:
  assumes "bf_searchKnn ndebug dmax b query k f = Inr r"
  shows "bf_sound f r \<and> length r \<le> k"
proof (cases "bf_cur_element_count b = 0")
  case True
  then show ?thesis
    using assms by (auto simp: bf_searchKnn_def bindE_Inr_iff bf_sound_def by_pair.std.invar_empty)
next
  case False
  with assms obtain q d0 d where
    first: "foldE (bf_first_loop b query f) [] [0..<k] = Inr q" and
    second: "foldE (bf_second_loop b query k f) (q, d0) [k..<bf_cur_element_count b] = Inr (r, d)"
    by (auto simp: bf_searchKnn_def bindE_Inr_iff Let_def)
  have "bf_sound f q \<and> length q \<le> k"
    by (rule foldE_upt_invariant [OF first, where P = "\<lambda>n q. bf_sound f q \<and> length q \<le> n"])
       (auto simp: bf_first_loop_def bindE_Inr_iff Let_def bf_sound_push heap_simps split: if_splits,
        simp add: bf_sound_def by_pair.std.invar_empty)
  then have "bf_sound f (fst (r, d)) \<and> length (fst (r, d)) \<le> k"
    by (intro foldE_invariant [OF second, where P = "\<lambda>st. bf_sound f (fst st) \<and> length (fst st) \<le> k"])
       (auto dest: bf_second_loop_sound)
  then show ?thesis by simp
qed

interpretation bf: algorithm_interface "bf_searchKnn ndebug dmax b"
  for ndebug and dmax :: "'d::{linorder,zero}" and b
  by unfold_locales (auto simp: bf_sound_def dest: bf_searchKnn_sound)



text \<open>
  With a filter that rejects one of the first \<open>k\<close> elements the search can return fewer
  than \<open>k\<close> neighbours although enough elements are admitted: once the queue is short, its top still bounds
  what is looked at. Here two elements are admitted, two are asked for, and one comes back.
\<close>

theorem bf_searchKnn_filter_short:
  "bf_searchKnn ndebug 1000 bf_demo [11] 2 (Some (\<lambda>l. l \<noteq> 8)) = Inr [(1, 7)]
    \<and> filter (\<lambda>e. fst e \<noteq> 8) (bf_elements bf_demo) = [(7, [10]), (9, [30])]"
proof -
  have upt: "[0..<2] = [0, 1 :: nat]" "[2..<3] = [2 :: nat]" by (simp_all add: upt_rec)
  show ?thesis
    by (simp add: bf_searchKnn_def bf_demo_elements)
       (simp add: bf_demo_def upt bf_first_loop_def bf_second_loop_def bf_dist_def bf_in_block_def bf_vec_def
         bf_label_def get_bytes_def byte_dist_def Let_def allowed_def pq_push_def sift_up.simps pq_top_def)
qed

subsection \<open>Saving and loading\<close>

lemma bf_load_saved:
  assumes shape: "bf_shape b" and s: "get_data_size s = bf_data_size b" "get_dist_func s = bf_fstdistfunc b"
    and malloc: "malloc (length (bf_data b)) = Some mem" "length mem = length (bf_data b)"
  shows "load_BruteforceSearch malloc uninit s (bf_saveIndex b) = Inr (b\<lparr>bf_dict := Map.empty\<rparr>)"
proof -
  have len: "length (bf_data b) = bf_maxelements b * bf_size_per_element b" "length (bf_data b) < 2 ^ 64"
    and sz: "bf_size_per_element b = bf_data_size b + 8" and cur: "bf_cur_element_count b \<le> bf_maxelements b"
    using shape by (auto simp: bf_shape_def)
  have "bf_maxelements b \<le> length (bf_data b)" by (simp add: len(1) sz)
  then have mx: "bf_maxelements b < 256 ^ 8" "bf_cur_element_count b < 256 ^ 8" using len(2) cur by simp_all
  have wrap: "bf_maxelements b * bf_size_per_element b mod 2 ^ 64 = length (bf_data b)"
    using len by simp
  show ?thesis
    using malloc mx wrap s
    by (simp add: load_BruteforceSearch_def bf_loadIndex_def bf_saveIndex_def writeBinaryPOD_def Let_def
        readBinaryPOD_def empty_BruteforceSearch_def stream_read_def put_bytes_def sz [symmetric])
qed

text \<open>
  \<^bold>\<open>C38.\<close> Loading a saved index into a fresh object restores everything but the dictionary, so all
  searches answer as before. The allocator is assumed to grant the block, and the space to be the one the
  index was built for.
\<close>

theorem bf_save_load:
  assumes "bf_shape b" and "get_data_size s = bf_data_size b" and "get_dist_func s = bf_fstdistfunc b"
    and "malloc (length (bf_data b)) = Some mem" and "length mem = length (bf_data b)"
  shows "\<exists>b'. load_BruteforceSearch malloc uninit s (bf_saveIndex b) = Inr b' \<and> bf_elements b' = bf_elements b
    \<and> bf_maxelements b' = bf_maxelements b \<and> bf_searchKnn ndebug dmax b' = bf_searchKnn ndebug dmax b"
proof -
  let ?b = "b\<lparr>bf_dict := Map.empty\<rparr>"
  have "bf_dist ?b = bf_dist b" "bf_label ?b = bf_label b"
    by (intro ext, simp add: bf_dist_def bf_in_block_def bf_vec_def bf_label_def)+
  then have "bf_first_loop ?b = bf_first_loop b" "bf_second_loop ?b = bf_second_loop b"
    by (intro ext, simp add: bf_first_loop_def bf_second_loop_def cong: if_cong)+
  then have "bf_searchKnn ndebug dmax ?b = bf_searchKnn ndebug dmax b"
    by (intro ext) (simp add: bf_searchKnn_def)
  moreover have "bf_elements ?b = bf_elements b" by (simp add: bf_elements_def bf_label_def bf_vec_def)
  ultimately show ?thesis using bf_load_saved [where malloc = malloc, OF assms] by simp
qed

theorem bf_save_load_witness:
  "\<exists>b'. load_BruteforceSearch (\<lambda>n. Some (replicate n 0)) (\<lambda>_ _. 0) \<lparr>get_data_size = 1, get_dist_func = byte_dist\<rparr>
     (bf_saveIndex bf_demo) = Inr b' \<and> bf_elements b' = [(7, [10]), (8, [20]), (9, [30])]"
  using bf_save_load [of bf_demo "\<lparr>get_data_size = 1, get_dist_func = byte_dist\<rparr>" "\<lambda>n. Some (replicate n 0)"
      "replicate (length (bf_data bf_demo)) 0" "\<lambda>_ _. 0" False 0] bf_demo_wf
  by (auto simp: bf_demo_elements bf_demo_fields bf_wf_def)

text \<open>
  Because the dictionary is not rebuilt, an index that was saved and loaded stores a label
  a second time instead of updating it.
\<close>

theorem bf_reload_duplicates:
  "\<exists>b b'. load_BruteforceSearch (\<lambda>n. Some (replicate n 0)) (\<lambda>_ _. 0) \<lparr>get_data_size = 1, get_dist_func = byte_dist\<rparr>
        (bf_saveIndex bf_demo) = Inr b
    \<and> bf_addPoint b [25] 8 = Inr b' \<and> bf_elements b' = [(7, [10]), (8, [20]), (9, [30]), (8, [25])]"
proof -
  let ?b = "bf_demo\<lparr>bf_dict := Map.empty\<rparr>"
  have load: "load_BruteforceSearch (\<lambda>n. Some (replicate n 0)) (\<lambda>_ _. 0)
      \<lparr>get_data_size = 1, get_dist_func = byte_dist\<rparr> (bf_saveIndex bf_demo) = Inr ?b"
    using bf_demo_wf
    by (intro bf_load_saved [where mem = "replicate (length (bf_data bf_demo)) 0"]) (simp_all add: bf_wf_def bf_demo_fields)
  have upt: "[0..<4] = [0, 1, 2, 3 :: nat]" by (simp add: upt_rec)
  have "\<exists>b'. bf_addPoint ?b [25] 8 = Inr b' \<and> bf_elements b' = [(7, [10]), (8, [20]), (9, [30]), (8, [25])]"
    by (simp add: bf_addPoint_def bf_demo_def bf_in_block_def Let_def bf_elements_def bf_label_def bf_vec_def
        get_bytes_def put_bytes_def upt)
  with load show ?thesis by blast
qed

end
