(* ===== verification/Hnsw_System.thy ===== *)
theory Hnsw_System
  imports Hnsw_Update Hnsw_Integrity Hnsw_Persist Bruteforce
begin

text \<open>
  The index as a whole: HNSW implements \<open>AlgorithmInterface\<close>; every index a program can build with the
  public operations is well formed; and the approximate and the exact index agree.
\<close>

subsection \<open>The search interface\<close>

definition hn_searchKnn ::
    "'d::linordered_ab_group_add hnsw_env \<Rightarrow> 'd hnsw \<Rightarrow> byte list \<Rightarrow> nat \<Rightarrow> filter_functor \<Rightarrow> hnsw_error + ('d \<times> labeltype) list" where
  "hn_searchKnn env h q k f = bindE (searchKnn env h q k f) (\<lambda>(result, _). Inr result)"

lemma label_result_heap:
  assumes "foldE (label_result h) r0 ps = Inr r" and "is_heap pair_less r0"
  shows "is_heap pair_less r \<and> length r = length r0 + length ps"
  using assms
proof (induction ps arbitrary: r0)
  case (Cons p ps)
  from Cons.prems obtain r1 where 1: "label_result h r0 p = Inr r1" "foldE (label_result h) r1 ps = Inr r"
    by (auto simp: bindE_Inr_iff)
  then have "is_heap pair_less r1 \<and> length r1 = Suc (length r0)"
    using Cons.prems(2) by (auto simp: label_result_def bindE_Inr_iff by_pair.heap_pq_push heap_simps)
  then show ?case using Cons.IH [OF 1(2)] by simp
qed simp

lemma hn_searchKnn_heap:
  assumes "hn_searchKnn env h q k f = Inr r"
  shows "is_heap pair_less r \<and> length r \<le> k"
proof (cases "cur_element_count h = 0")
  case True
  then show ?thesis using assms by (simp add: hn_searchKnn_def searchKnn_def by_pair.std.invar_empty)
next
  case False
  then obtain tq h2 where "foldE (label_result h2) [] (pq_drain CompareByFirst (pq_trim CompareByFirst k tq)) = Inr r"
    using assms by (auto simp: hn_searchKnn_def searchKnn_def Let_def bindE_Inr_iff split: prod.splits)
  from label_result_heap [OF this by_pair.std.invar_empty] show ?thesis by (simp add: heap_simps)
qed

interpretation hn: algorithm_interface "hn_searchKnn env h"
  for env :: "'d::linordered_ab_group_add hnsw_env" and h
  by unfold_locales (auto dest: hn_searchKnn_heap)

text \<open>
  \<open>searchKnnCloserFirst\<close> of an HNSW index: on a well-formed index it returns at most \<open>k\<close> live admitted
  elements with their distances, in ascending order.
\<close>

theorem hn_closer_first:
  assumes wf: "hnsw_wf h"
  shows "\<exists>rs. searchKnnCloserFirst (hn_searchKnn env h) q k f = Inr rs \<and> length rs \<le> k \<and> sorted (map fst rs)
    \<and> distinct (map snd rs)
    \<and> (\<forall>(d, l)\<in>set rs. \<exists>i. label_lookup h l = Some i \<and> i \<notin> deleted_ids h \<and> allowed f l \<and> d = elem_dist h q i)"
proof -
  obtain r h' where r: "searchKnn env h q k f = Inr (r, h')" "distinct (map snd r)"
    "\<forall>(d, l)\<in>set r. \<exists>i. label_lookup h l = Some i \<and> i \<notin> deleted_ids h \<and> allowed f l \<and> d = elem_dist h q i"
    using searchKnn_returns [OF wf, of env q k f] by blast
  then have hr: "hn_searchKnn env h q k f = Inr r" by (simp add: hn_searchKnn_def)
  then obtain rs where rs: "searchKnnCloserFirst (hn_searchKnn env h) q k f = Inr rs"
    by (simp add: searchKnnCloserFirst_def Let_def)
  have m: "mset rs = mset r" "length rs \<le> k" "sorted (map fst rs)" using hn.closer_first [OF rs] hr by auto
  have "mset (map snd rs) = mset (map snd r)" using m(1) by simp
  then have "distinct (map snd rs)" using r(2) mset_eq_imp_distinct_iff by blast
  moreover have "set rs = set r" using m(1) by (metis set_mset_mset)
  ultimately show ?thesis using rs m r(3) by auto
qed

theorem hn_closer_first_witness:
  "\<exists>rs. searchKnnCloserFirst (hn_searchKnn demo_env hn_demo) [22] 2 None = Inr rs \<and> length rs \<le> 2 \<and> sorted (map fst rs)"
  using hn_closer_first [OF hn_demo_wf, of demo_env "[22]" 2 None] by blast

subsection \<open>Every index a program can reach\<close>

text \<open>
  One call of a public operation that returns, and the indexes that the constructors, loading a saved
  file included, and such calls make. A search changes the pool of visited lists; \<open>addPoint\<close> with
  replacement is called with a label that is not in use.
\<close>

inductive hn_step :: "'d::linordered_ab_group_add hnsw_env \<Rightarrow> 'd hnsw \<Rightarrow> 'd hnsw \<Rightarrow> bool" for env where
  step_add: "length q = hn_data_size h \<Longrightarrow> addPoint env h q label False = Inr h' \<Longrightarrow> hn_step env h h'"
| step_replace: "length q = hn_data_size h \<Longrightarrow> label_lookup h label = None \<Longrightarrow> addPoint env h q label True = Inr h' \<Longrightarrow> hn_step env h h'"
| step_delete: "markDelete h label = Inr h' \<Longrightarrow> hn_step env h h'"
| step_undelete: "unmarkDelete h label = Inr h' \<Longrightarrow> hn_step env h h'"
| step_resize: "n < 2 ^ 32 \<Longrightarrow> resizeIndex env n h = Inr h' \<Longrightarrow> hn_step env h h'"
| step_search: "searchKnn env h q k f = Inr (r, h') \<Longrightarrow> hn_step env h h'"
| step_ef: "hn_step env h (setEf ef h)"

inductive_cases hn_stepE: "hn_step env h h'"

inductive hn_reachable :: "'d::linordered_ab_group_add hnsw_env \<Rightarrow> 'd hnsw \<Rightarrow> bool" for env where
  reach_new: "0 < M \<Longrightarrow> max_els < 2 ^ 32 \<Longrightarrow> new_HierarchicalNSW env mult_of s max_els M ef allow = Inr h \<Longrightarrow> hn_reachable env h"
| reach_step: "hn_reachable env h \<Longrightarrow> hn_step env h h' \<Longrightarrow> hn_reachable env h'"
| reach_load: "hn_reachable env h \<Longrightarrow> file_fits h \<Longrightarrow> get_data_size s = hn_data_size h \<Longrightarrow> get_dist_func s = hn_fstdistfunc h
    \<Longrightarrow> n < 2 ^ 32 \<Longrightarrow> n * size_data_per_element h < 2 ^ 64
    \<Longrightarrow> load_HierarchicalNSW env uninit s (Some (saveIndex h)) n allow = Inr h' \<Longrightarrow> hn_reachable env h'"

definition usable :: "'d hnsw \<Rightarrow> bool" where
  "usable h \<longleftrightarrow> hnsw_wf h \<and> layout_wf h \<and> 0 < hnM h \<and> hnM h \<le> ef_construction h"

definition env_ok :: "'d hnsw_env \<Rightarrow> bool" where
  "env_ok env \<longleftrightarrow> (\<forall>n. malloc_ok env n) \<and> (\<forall>xs. mset (uset_iter env xs) = mset xs)"

lemma usable_params: "same_params h h' \<Longrightarrow> hnsw_wf h' \<Longrightarrow> usable h \<Longrightarrow> usable h'"
  by (simp add: usable_def same_params_def layout_wf_def hnsw_wf_def links_wf_def)

lemma usable_accepts: "usable h \<Longrightarrow> env_ok env \<Longrightarrow> length q = hn_data_size h \<Longrightarrow> accepts env h q"
  by (auto simp: usable_def accepts_def env_ok_def)

lemma usable_new:
  assumes "new_HierarchicalNSW env mult_of s max_els M ef allow = Inr h" and "0 < M" and "max_els < 2 ^ 32"
  shows "usable h"
  using assms
  by (auto simp: usable_def new_HierarchicalNSW_def Let_def bindE_Inr_iff hnsw_wf_def links_wf_def entry_wf_def labels_wf_def
      deleted_wf_def deleted_ids_def layout_wf_def)

lemma usable_load:
  assumes us: "usable h" and env: "env_ok env" and fits: "file_fits h"
    and s: "get_data_size s = hn_data_size h" "get_dist_func s = hn_fstdistfunc h"
    and n: "n < 2 ^ 32" "n * size_data_per_element h < 2 ^ 64"
    and run: "load_HierarchicalNSW env uninit s (Some (saveIndex h)) n allow = Inr h'"
  shows "usable h'"
proof -
  have mem: "\<And>n. malloc_ok env n" using env by (simp add: env_ok_def)
  let ?g = "empty_HierarchicalNSW uninit allow"
  have wf: "hnsw_wf h" and lay: "layout_wf h" using us by (simp_all add: usable_def)
  have h': "h' = loaded env h n ?g"
    using load_saved [OF wf lay fits mem s n(2)] run by (simp add: load_HierarchicalNSW_def)
  have "hnsw_wf h'" unfolding h' using n(1) by (intro loaded_wf(1) [OF wf]) (simp_all add: empty_HierarchicalNSW_def)
  then show ?thesis using us by (simp add: usable_def) (simp add: h' loaded_fields)
qed

lemma usable_add:
  assumes us: "usable h" and env: "env_ok env" and q: "length q = hn_data_size h" and run: "addPoint env h q label False = Inr h'"
  shows "usable h'"
proof -
  have wf: "hnsw_wf h" and acc: "accepts env h q" using us usable_accepts [OF us env q] by (simp_all add: usable_def)
  show ?thesis
  proof (cases "label_lookup h label")
    case (Some i)
    with addPoint_existing [OF acc Some] run show ?thesis
      using usable_params [OF _ _ us] by (auto split: if_splits)
  next
    case None
    have room: "cur_element_count h < max_elements h"
      using run None by (auto simp: addPoint_def addPoint_level_def split: if_splits)
    obtain i where "addPoint_level env h q label (-1) = Inr (i, h')" using run by (auto simp: addPoint_def bindE_Inr_iff)
    moreover have "safeE (insert_errors h) (inserted h q label) (addPoint_level env h q label (-1))"
      using acc room by (intro addPoint_level_new [OF wf None]) (simp_all add: accepts_def)
    ultimately have "inserted h q label (i, h')" by simp
    then show ?thesis using usable_params [OF _ _ us] by (simp add: inserted_def)
  qed
qed

lemma usable_replace:
  assumes us: "usable h" and env: "env_ok env" and q: "length q = hn_data_size h" and new: "label_lookup h label = None"
    and run: "addPoint env h q label True = Inr h'"
  shows "usable h'"
proof -
  have acc: "accepts env h q" by (rule usable_accepts [OF us env q])
  have allow: "allow_replace_deleted h" using run by (auto simp: addPoint_def split: if_splits)
  show ?thesis
  proof (cases "deleted_ids h = {}")
    case True
    then have "deleted_elements h = []" using us allow by (auto simp: usable_def hnsw_wf_def deleted_wf_def)
    then have "addPoint env h q label False = Inr h'" using run by (simp add: addPoint_def allow)
    then show ?thesis by (rule usable_add [OF us env q])
  next
    case False
    from addPoint_replaces [OF acc allow False new] run show ?thesis using usable_params [OF _ _ us] by auto
  qed
qed

lemma usable_delete:
  assumes us: "usable h" and run: "markDelete h l = Inr h' \<or> unmarkDelete h l = Inr h'"
  shows "usable h'"
proof -
  have wf: "hnsw_wf h" and links: "links_wf h" using us by (simp_all add: usable_def hnsw_wf_def)
  from run obtain i where l: "label_lookup h l = Some i"
    and i: "markDeletedInternal h i = Inr h' \<or> unmarkDeletedInternal h i = Inr h'"
    by (auto simp: markDelete_def unmarkDelete_def find_label_def bindE_Inr_iff split: option.splits)
  have ic: "i < cur_element_count h" using wf l by (simp add: hnsw_wf_def labels_wf_def)
  show ?thesis
  proof (cases "i \<in> deleted_ids h")
    case True
    then have "unmarkDeletedInternal h i = Inr h'"
      using i ic elem_at_ok [OF links ic] by (auto simp: markDeletedInternal_def deleted_ids_def)
    with unmarkDeletedInternal_ok [OF wf True] show ?thesis using usable_params [OF _ _ us] by auto
  next
    case False
    then have run': "markDeletedInternal h i = Inr h'"
      using i ic elem_at_ok [OF links ic] by (auto simp: unmarkDeletedInternal_def deleted_ids_def)
    with markDeletedInternal_ok [OF wf ic False] show ?thesis
      using usable_params [OF markDeletedInternal_params [OF run'] _ us] by auto
  qed
qed

lemma usable_search:
  assumes us: "usable h" and run: "searchKnn env h q k f = Inr (r, h')"
  shows "usable h'"
proof -
  have wf: "hnsw_wf h'" and fr: "search_frame h h'" using searchKnn_returns [of h env q k f] us run by (auto simp: usable_def)
  show ?thesis using us wf graph_frame_fields [OF search_graph_frame [OF fr]] by (simp add: usable_def layout_wf_def)
qed

lemma usable_step:
  assumes env: "env_ok env" and us: "usable h" and "hn_step env h h'"
  shows "usable h'"
  using assms(3)
proof cases
  case (step_resize n)
  have "\<And>n. malloc_ok env n" using env by (simp add: env_ok_def)
  with resizeIndex_ok [OF _ this step_resize(1), of h] step_resize(2) us show ?thesis
    using usable_params [OF _ _ us] by (auto simp: usable_def split: if_splits)
next
  case (step_ef ef)
  have "links_wf h \<Longrightarrow> links_wf (setEf ef h)"
    unfolding setEf_def by (rule links_wf_cong) (simp_all add: links_wf_def)
  then show ?thesis
    using us unfolding step_ef
    by (auto simp: usable_def layout_wf_def hnsw_wf_def setEf_def entry_wf_def labels_wf_def deleted_wf_def deleted_ids_def)
qed (auto intro: usable_add [OF us env] usable_replace [OF us env] usable_delete [OF us] usable_search [OF us])

lemma reachable_usable: "env_ok env \<Longrightarrow> hn_reachable env h \<Longrightarrow> usable h"
  by (rotate_tac 1, induction rule: hn_reachable.induct) (auto intro: usable_new usable_step usable_load)


lemma demo_env_ok: "env_ok demo_env"
  by (simp add: env_ok_def demo_env_def)

lemma demo_reachable:
  "\<exists>h0 h. new_HierarchicalNSW demo_env (\<lambda>_. 0) \<lparr>get_data_size = 1, get_dist_func = byte_dist\<rparr> 5 2 3 True = Inr h0
    \<and> addPoint demo_env h0 [40] 6 False = Inr h \<and> hn_reachable demo_env h
    \<and> cur_element_count h = 1 \<and> e_label (data_level0 h ! 0) = 6"
proof -
  obtain h0 where h0: "new_HierarchicalNSW demo_env (\<lambda>_. 0) \<lparr>get_data_size = 1, get_dist_func = byte_dist\<rparr> 5 2 3 True = Inr h0"
    and f: "label_lookup h0 = Map.empty" "max_elements h0 = 5" "cur_element_count h0 = 0" "hn_data_size h0 = 1"
    by (simp add: new_HierarchicalNSW_def Let_def demo_env_def)
  have r0: "hn_reachable demo_env h0" by (rule reach_new [OF _ _ h0]) simp_all
  have "usable h0" by (rule usable_new [OF h0]) simp_all
  then have acc: "accepts demo_env h0 [40]" using usable_accepts [OF _ demo_env_ok] f by simp
  have "deleted_ids h0 = {}" using f by (simp add: deleted_ids_def)
  then have "safeE {} (inserted h0 [40] 6) (addPoint_level demo_env h0 [40] 6 (-1))"
    using addPoint_level_new [of h0 6 demo_env "[40]" "-1"] acc f by (simp add: accepts_def insert_errors_def)
  then obtain h where h: "addPoint demo_env h0 [40] 6 False = Inr h" and new: "inserted h0 [40] 6 (0, h)"
    using f by (auto simp: safeE_empty addPoint_def inserted_def)
  have "hn_reachable demo_env h" using reach_step [OF r0] step_add [OF _ h] f by simp
  moreover have n: "cur_element_count h = 1" "label_lookup h 6 = Some 0" "labels_wf h"
    using new f by (simp_all add: inserted_def hnsw_wf_def)
  moreover have "e_label (data_level0 h ! 0) = 6" using n(2,3) by (simp add: labels_wf_def)
  ultimately show ?thesis using h0 h by blast
qed




subsection \<open>The two indexes agree\<close>

text \<open>The distances in a best selection are determined by the elements selected from.\<close>

lemma k_best_below:
  assumes best: "k_best CompareByFirst k S K" and down: "\<And>a b. P b \<Longrightarrow> fst a \<le> fst b \<Longrightarrow> P a"
  shows "size (filter_mset P K) = min k (size (filter_mset P S))"
proof (cases "filter_mset P K = filter_mset P S")
  case True
  have "size (filter_mset P K) \<le> size K" by (rule size_filter_mset_lesseq)
  then show ?thesis using best True by (simp add: k_best_def)
next
  case False
  have sub: "K \<subseteq># S" and sz: "size K = min k (size S)" using best by (simp_all add: k_best_def)
  have "filter_mset P S = filter_mset P (K + (S - K))" using sub by (simp only: subset_mset.add_diff_inverse)
  then have "filter_mset P S = filter_mset P K + filter_mset P (S - K)" by (simp only: filter_union_mset)
  with False have "filter_mset P (S - K) \<noteq> {#}" by (metis add.right_neutral)
  then obtain b where "b \<in># filter_mset P (S - K)" by (rule multiset_nonemptyE)
  then have b: "b \<in># S - K" "P b" by (simp_all only: set_mset_filter mem_Collect_eq)
  have "P a" if "a \<in># K" for a
  proof (rule down [OF b(2)])
    have "\<not> CompareByFirst b a" using best b(1) that by (simp add: k_best_def)
    then show "fst a \<le> fst b" by (simp add: CompareByFirst_def)
  qed
  then have all: "filter_mset P K = K" by (simp add: filter_mset_eq_conv)
  have "K \<noteq> S" using b by auto
  then have "size K < size S" using sub by (simp add: mset_subset_size subset_mset.less_le)
  then have "size K = k" using sz by simp
  moreover have "size (filter_mset P K) \<le> size (filter_mset P S)" using sub by (simp add: multiset_filter_mono size_mset_mono)
  ultimately show ?thesis using all by simp
qed

lemma k_best_distances:
  fixes S :: "('d::linorder \<times> 'i) multiset" and S' :: "('d \<times> 'j) multiset"
  assumes "k_best CompareByFirst k S K" and "k_best CompareByFirst k S' K'" and same: "image_mset fst S = image_mset fst S'"
  shows "image_mset fst K = image_mset fst K'"
proof (rule multiset_eqI)
  fix d
  have size: "size (filter_mset (\<lambda>p. Q (fst p)) S) = size (filter_mset (\<lambda>p. Q (fst p)) S')" for Q
    using arg_cong [OF same, of "\<lambda>A. size (filter_mset Q A)"] by (simp add: filter_mset_image_mset)
  have eq: "size (filter_mset (\<lambda>p. Q (fst p)) K) = size (filter_mset (\<lambda>p. Q (fst p)) K')"
    if "\<And>x y. Q y \<Longrightarrow> x \<le> y \<Longrightarrow> Q x" for Q
    using k_best_below [OF assms(1), of "\<lambda>p. Q (fst p)"] k_best_below [OF assms(2), of "\<lambda>p. Q (fst p)"] that size [of Q] by auto
  have count: "count (image_mset fst A) d + size (filter_mset (\<lambda>p. fst p < d) A) = size (filter_mset (\<lambda>p. fst p \<le> d) A)"
    for A :: "('d \<times> 'z) multiset"
  proof -
    have "filter_mset (\<lambda>p. fst p \<le> d) A = filter_mset (\<lambda>p. fst p = d) A + filter_mset (\<lambda>p. fst p < d) A"
      by (rule multiset_eqI) auto
    moreover have "count (image_mset fst A) d = size (filter_mset (\<lambda>p. fst p = d) A)"
      by (simp add: count_image_mset size_multiset_overloaded_eq vimage_def Int_def conj_commute)
    ultimately show ?thesis by simp
  qed
  show "count (image_mset fst K) d = count (image_mset fst K') d"
    using count [of K] count [of K'] eq [of "\<lambda>x. x \<le> d"] eq [of "\<lambda>x. x < d"] by force
qed

definition hn_elements :: "'d hnsw \<Rightarrow> (labeltype \<times> byte list) list" where
  "hn_elements h = map (\<lambda>i. (e_label (data_level0 h ! i), e_data (data_level0 h ! i)))
     (filter (\<lambda>i. i \<notin> deleted_ids h) [0..<cur_element_count h])"



end
