(* ===== verification/Py_Index.thy ===== *)
theory Py_Index
  imports Parallel_For Space_L2 Space_IP Hnsw_System
begin

text \<open>
  \<open>python_bindings/bindings.cpp\<close>: the classes \<open>Index\<close> and \<open>BFIndex\<close> behind the Python module, without the pybind11
  registration. A NumPy array that pybind11 has converted to a contiguous array is its shape and its values in row-major order.

  \<open>py_env\<close> holds what comes from elsewhere: the environment of the index, the build and CPU that select the distance kernels,
  how a \<open>float\<close> lies in memory, \<open>sqrtf\<close>, the constant \<open>1e-30f\<close>, the number of hardware threads, the iteration order of an
  \<open>unordered_map\<close>, the allocator of the brute-force index, and the contents of uninitialised variables. Arithmetic on
  \<open>float\<close> is that of a linearly ordered field: rounding is not modelled.

  An operation that runs a parallel loop takes a schedule and is \<open>None\<close> if the schedule ends too early. Operations that can
  fail half-way return the object together with the exception.
\<close>

datatype py_error =
    Runtime_error string
  | Invalid_argument string
  | Wrong_ndim nat
  | Label_shape nat nat
  | Index_error
  | Null_pointer
  | Key_error string
  | Cast_error string
  | From_hnsw hnsw_error
  | From_bf bf_error

record 'a ndarray =
  nd_shape :: "nat list"
  nd_data :: "'a list"

record 'f py_env =
  penv :: "'f hnsw_env"
  pmult :: "nat \<Rightarrow> nat"
  pbuild :: build
  pavx :: bool
  pavx512 :: bool
  prvv :: "'f ptr \<Rightarrow> 'f ptr \<Rightarrow> nat \<Rightarrow> 'f option"
  pops :: "'f ip_ops"
  float_bytes :: "'f \<Rightarrow> byte list"
  float_val :: "byte list \<Rightarrow> 'f"
  sqrtf :: "'f \<Rightarrow> 'f"
  tiny :: 'f
  hw_threads :: nat
  umap_iter :: "(labeltype \<rightharpoonup> tableint) \<Rightarrow> (labeltype \<times> tableint) list"
  pmalloc :: "nat \<Rightarrow> byte list option"
  pfreed :: "nat \<Rightarrow> nat"
  pndebug :: bool
  uninit_size :: nat
  uninit_dist :: "byte list \<Rightarrow> byte list \<Rightarrow> 'f"
  uninit_float :: 'f

record 'f py_index =
  space_name :: string
  py_dim :: nat
  seed :: nat
  default_ef :: nat
  index_inited :: bool
  ep_added :: bool
  normalize :: bool
  num_threads_default :: int
  cur_l :: labeltype
  appr_alg :: "'f hnsw option"
  l2space :: "'f space_interface"

definition liftH :: "hnsw_error + 'a \<Rightarrow> py_error + 'a" where
  "liftH m = (case m of Inl e \<Rightarrow> Inl (From_hnsw e) | Inr x \<Rightarrow> Inr x)"

definition liftB :: "bf_error + 'a \<Rightarrow> py_error + 'a" where
  "liftB m = (case m of Inl e \<Rightarrow> Inl (From_bf e) | Inr x \<Rightarrow> Inr x)"

subsection \<open>Input arrays\<close>

definition get_input_array_shapes :: "'a ndarray \<Rightarrow> py_error + nat \<times> nat" where
  "get_input_array_shapes buffer =
     (case nd_shape buffer of
        [n] \<Rightarrow> Inr (1, n)
      | [m, n] \<Rightarrow> Inr (m, n)
      | _ \<Rightarrow> Inl (Wrong_ndim (length (nd_shape buffer))))"

definition get_input_ids_and_check_shapes :: "nat ndarray option \<Rightarrow> nat \<Rightarrow> py_error + nat list" where
  "get_input_ids_and_check_shapes ids_arg feature_rows =
     (case ids_arg of
        None \<Rightarrow> Inr []
      | Some items \<Rightarrow>
          (case nd_shape items of
             [n] \<Rightarrow> if n = feature_rows then Inr (take n (nd_data items)) else Inl (Label_shape 1 feature_rows)
           | [] \<Rightarrow> if feature_rows = 1 then Inr [hd (nd_data items)] else Inl (Label_shape 0 feature_rows)
           | s \<Rightarrow> Inl (Label_shape (length s) feature_rows)))"

text \<open>
  \<open>items.data(row)\<close>, which checks the index against the first axis, and the \<open>n\<close> floats that are read from there on.
\<close>

definition row_vec :: "'f ndarray \<Rightarrow> nat \<Rightarrow> nat \<Rightarrow> py_error + 'f list" where
  "row_vec items row n =
     (case nd_shape items of
        [] \<Rightarrow> Inl Index_error
      | s # rest \<Rightarrow>
          if s \<le> row then Inl Index_error
          else let off = row * prod_list rest in
               if off + n \<le> length (nd_data items) then Inr (take n (drop off (nd_data items)))
               else Inl (From_hnsw Bad_access))"

definition vec_bytes :: "'f py_env \<Rightarrow> 'f list \<Rightarrow> byte list" where
  "vec_bytes pe xs = concat (map (float_bytes pe) xs)"

definition floats_at :: "'f py_env \<Rightarrow> byte list \<Rightarrow> 'f ptr" where
  "floats_at pe bs i = float_val pe (get_bytes bs (4 * i) 4)"

subsection \<open>Index\<close>

text \<open>
  The spaces; a kernel that does not return has no distance, for which the model has 0.
\<close>

definition l2_interface :: "'f::linordered_field py_env \<Rightarrow> nat \<Rightarrow> 'f space_interface" where
  "l2_interface pe dm =
     (case L2Space (pbuild pe) (pavx pe) (pavx512 pe) SSE dm of (ext, sp) \<Rightarrow>
        \<lparr>get_data_size = data_size sp,
         get_dist_func = (\<lambda>a b. case call_l2 ext (prvv pe) (fstdistfunc sp) (floats_at pe a) (floats_at pe b) (space_dim sp) of
            Some d \<Rightarrow> d | None \<Rightarrow> 0)\<rparr>)"

definition ip_interface :: "'f::linordered_field py_env \<Rightarrow> nat \<Rightarrow> 'f space_interface" where
  "ip_interface pe dm =
     (case InnerProductSpace (pbuild pe) (pavx pe) (pavx512 pe) (SSE, SSE4) dm of (exts, sp) \<Rightarrow>
        \<lparr>get_data_size = ip_data_size sp,
         get_dist_func = (\<lambda>a b. call_ip (pops pe) exts (ip_fstdistfunc sp) (floats_at pe a) (floats_at pe b) (ip_dim sp))\<rparr>)"

text \<open>The choice of the space by its name: the space and whether vectors are normalised.\<close>

definition space_by_name :: "'f::linordered_field py_env \<Rightarrow> string \<Rightarrow> nat \<Rightarrow> py_error + 'f space_interface \<times> bool" where
  "space_by_name pe name dm =
     (if name = ''l2'' then Inr (l2_interface pe dm, False)
      else if name = ''ip'' then Inr (ip_interface pe dm, False)
      else if name = ''cosine'' then Inr (ip_interface pe dm, True)
      else Inl (Runtime_error ''Space name must be one of l2, ip, or cosine.''))"

definition new_Index :: "'f::linordered_field py_env \<Rightarrow> string \<Rightarrow> nat \<Rightarrow> py_error + 'f py_index" where
  "new_Index pe name dm =
     bindE (space_by_name pe name dm) (\<lambda>(s, norm).
       Inr \<lparr>space_name = name, py_dim = dm, seed = uninit_size pe, default_ef = 10, index_inited = False, ep_added = True,
            normalize = norm, num_threads_default = int (hw_threads pe), cur_l = uninit_size pe, appr_alg = None, l2space = s\<rparr>)"

definition init_new_index :: "'f py_env \<Rightarrow> 'f py_index \<Rightarrow> nat \<Rightarrow> nat \<Rightarrow> nat \<Rightarrow> nat \<Rightarrow> bool \<Rightarrow> py_error + 'f py_index" where
  "init_new_index pe idx maxElements M efConstruction random_seed allow =
     (if appr_alg idx \<noteq> None then Inl (Runtime_error ''The index is already initiated.'')
      else bindE (liftH (new_HierarchicalNSW (penv pe) (pmult pe) (l2space idx) maxElements M efConstruction allow)) (\<lambda>h.
        Inr (idx\<lparr>cur_l := 0, appr_alg := Some (setEf (default_ef idx) h), index_inited := True, ep_added := False,
                 seed := random_seed\<rparr>)))"

definition set_ef :: "nat \<Rightarrow> 'f py_index \<Rightarrow> 'f py_index" where
  "set_ef ef idx = idx\<lparr>default_ef := ef, appr_alg := map_option (setEf ef) (appr_alg idx)\<rparr>"

definition set_num_threads :: "int \<Rightarrow> 'f py_index \<Rightarrow> 'f py_index" where
  "set_num_threads n idx = idx\<lparr>num_threads_default := n\<rparr>"

definition the_alg :: "'f py_index \<Rightarrow> py_error + 'f hnsw" where
  "the_alg idx = (case appr_alg idx of None \<Rightarrow> Inl Null_pointer | Some h \<Rightarrow> Inr h)"

definition py_indexFileSize :: "'f py_index \<Rightarrow> py_error + nat" where
  "py_indexFileSize idx = bindE (the_alg idx) (\<lambda>h. Inr (indexFileSize h))"

definition py_saveIndex :: "'f py_index \<Rightarrow> py_error + byte list" where
  "py_saveIndex idx = bindE (the_alg idx) (\<lambda>h. Inr (saveIndex h))"

definition py_loadIndex :: "'f py_env \<Rightarrow> 'f py_index \<Rightarrow> byte list option \<Rightarrow> nat \<Rightarrow> bool \<Rightarrow> py_error + 'f py_index" where
  "py_loadIndex pe idx path_to_index max_els allow =
     bindE (liftH (load_HierarchicalNSW (penv pe) (uninit_dist pe) (l2space idx) path_to_index max_els allow)) (\<lambda>h.
       Inr (idx\<lparr>appr_alg := Some h, cur_l := cur_element_count h, index_inited := True\<rparr>))"

definition normalize_vector :: "'f::linordered_field py_env \<Rightarrow> nat \<Rightarrow> 'f list \<Rightarrow> 'f list" where
  "normalize_vector pe dm data =
     (let norm = foldl (\<lambda>norm i. norm + data ! i * data ! i) 0 [0..<dm];
          norm = 1 / (sqrtf pe norm + tiny pe)
      in map (\<lambda>i. data ! i * norm) [0..<dm])"

text \<open>The label of a row: the given one or the next number.\<close>

definition row_label :: "labeltype \<Rightarrow> nat list \<Rightarrow> nat \<Rightarrow> py_error + labeltype" where
  "row_label cur ids row =
     (if ids \<noteq> [] then (if row < length ids then Inr (ids ! row) else Inl Index_error) else Inr ((cur + row) mod 2 ^ 64))"

text \<open>
  The body of both parallel loops of \<open>addItems\<close>. With normalisation a thread writes the normalised vector to its part of
  \<open>norm_array\<close>, which has \<open>num_threads\<close> parts.
\<close>

definition add_row ::
    "'f::linordered_field py_env \<Rightarrow> 'f py_index \<Rightarrow> 'f ndarray \<Rightarrow> nat list \<Rightarrow> nat \<Rightarrow> bool \<Rightarrow> ('f hnsw, py_error) body" where
  "add_row pe idx items ids num_threads replace row tid h =
     (case bindE (row_vec items row (py_dim idx)) (\<lambda>v.
           bindE (if normalize idx
                  then bindE (guardE (tid * py_dim idx + py_dim idx \<le> num_threads * py_dim idx) (From_hnsw Bad_access)) (\<lambda>_.
                         Inr (normalize_vector pe (py_dim idx) v))
                  else Inr v) (\<lambda>v.
           bindE (row_label (cur_l idx) ids row) (\<lambda>label.
             liftH (addPoint (penv pe) h (vec_bytes pe v) label replace)))) of
        Inl e \<Rightarrow> (h, Some e) | Inr h' \<Rightarrow> (h', None))"

text \<open>The first point of a new index, which is added before the threads start.\<close>

definition add_first ::
    "'f::linordered_field py_env \<Rightarrow> 'f py_index \<Rightarrow> 'f ndarray \<Rightarrow> nat list \<Rightarrow> bool \<Rightarrow> 'f hnsw \<Rightarrow> 'f hnsw \<times> py_error option" where
  "add_first pe idx items ids replace h = add_row pe idx items ids 1 replace 0 0 h"

text \<open>The number of threads: the default unless one is given, and a single one for few rows. The product is an \<open>int\<close>
  that the comparison converts to \<open>size_t\<close>.\<close>

definition thread_count :: "int \<Rightarrow> int \<Rightarrow> nat \<Rightarrow> nat" where
  "thread_count dflt num_threads rows =
     (let num_threads = (if num_threads \<le> 0 then dflt else num_threads) in
      if rows \<le> nat ((num_threads * 4) mod 2 ^ 64) then 1 else nat (num_threads mod 2 ^ 64))"

definition addItems ::
    "'f::linordered_field py_env \<Rightarrow> nat list \<Rightarrow> 'f py_index \<Rightarrow> 'f ndarray \<Rightarrow> nat ndarray option \<Rightarrow> int \<Rightarrow> bool
      \<Rightarrow> ('f py_index \<times> py_error option) option" where
  "addItems pe sched idx input ids_arg num_threads replace =
     (case get_input_array_shapes input of
        Inl e \<Rightarrow> Some (idx, Some e)
      | Inr (rows, features) \<Rightarrow>
          if features \<noteq> py_dim idx then Some (idx, Some (Runtime_error ''Wrong dimensionality of the vectors''))
          else let num_threads = thread_count (num_threads_default idx) num_threads rows in
          case get_input_ids_and_check_shapes ids_arg rows of
            Inl e \<Rightarrow> Some (idx, Some e)
          | Inr ids \<Rightarrow>
              (case appr_alg idx of
                 None \<Rightarrow> Some (idx, if ep_added idx \<and> rows = 0 then None else Some Null_pointer)
               | Some h \<Rightarrow>
                   let (h, first) = (if ep_added idx then (h, None) else add_first pe idx input ids replace h);
                       start = (if ep_added idx then 0 else 1)
                   in case first of
                        Some e \<Rightarrow> Some (idx\<lparr>appr_alg := Some h\<rparr>, Some e)
                      | None \<Rightarrow>
                          (case ParallelFor (hw_threads pe) sched start rows num_threads
                                  (add_row pe idx input ids num_threads replace) h of
                             None \<Rightarrow> None
                           | Some (h, Some e) \<Rightarrow> Some (idx\<lparr>appr_alg := Some h, ep_added := True\<rparr>, Some e)
                           | Some (h, None) \<Rightarrow>
                               Some (idx\<lparr>appr_alg := Some h, ep_added := True, cur_l := (cur_l idx + rows) mod 2 ^ 64\<rparr>, None))))"

text \<open>
  \<open>get_items\<close>: the vectors of some labels. Of an array of labels only as many values are read as its first axis has. A list
  and an array hold the same values.
\<close>

fun mapE :: "('a \<Rightarrow> 'e + 'b) \<Rightarrow> 'a list \<Rightarrow> 'e + 'b list" where
  "mapE f [] = Inr []"
| "mapE f (x # xs) = bindE (f x) (\<lambda>y. bindE (mapE f xs) (\<lambda>ys. Inr (y # ys)))"

definition getData :: "'f py_env \<Rightarrow> 'f py_index \<Rightarrow> nat ndarray option \<Rightarrow> string \<Rightarrow> py_error + 'f list list" where
  "getData pe idx ids_arg return_type =
     (if return_type \<noteq> ''numpy'' \<and> return_type \<noteq> ''list''
      then Inl (Invalid_argument ''return_type should be numpy or list'')
      else bindE (case ids_arg of
               None \<Rightarrow> Inr []
             | Some items \<Rightarrow>
                 (case nd_shape items of
                    [] \<Rightarrow> Inl (Invalid_argument ''get_items accepts a list of indices and returns a list of vectors'')
                  | n # _ \<Rightarrow> Inr (take n (nd_data items)))) (\<lambda>ids.
           mapE (\<lambda>label. bindE (the_alg idx) (\<lambda>h.
              bindE (liftH (getDataByLabel h label (4 * py_dim idx))) (\<lambda>bs.
                Inr (map (floats_at pe bs) [0..<py_dim idx])))) ids))"

definition getIdsList :: "'f py_env \<Rightarrow> 'f py_index \<Rightarrow> py_error + labeltype list" where
  "getIdsList pe idx = bindE (the_alg idx) (\<lambda>h. Inr (map fst (umap_iter pe (label_lookup h))))"

subsection \<open>Queries\<close>

text \<open>
  \<open>for (int i = k - 1; i >= 0; i--)\<close>: the queue's elements, farthest first, go to the back of a row of the two arrays. The
  loop variable is an \<open>int\<close>, so for \<open>k\<close> above \<open>2 ^ 31\<close> the loop does not run \<open>k\<close> times.
\<close>

definition loop_count :: "nat \<Rightarrow> nat" where
  "loop_count k = nat (signed32 (k + 2 ^ 64 - 1) + 1)"

fun store_row ::
    "nat \<Rightarrow> nat \<Rightarrow> ('d::linorder \<times> labeltype) list \<Rightarrow> 'd list \<times> labeltype list \<Rightarrow> py_error + 'd list \<times> labeltype list" where
  "store_row base 0 result arr = Inr arr"
| "store_row base (Suc i) result arr =
     (if result = [] then Inl (From_hnsw Empty_container)
      else store_row base i (pq_pop pair_less result)
             ((fst arr)[base + i := fst (pq_top result)], (snd arr)[base + i := snd (pq_top result)]))"

text \<open>The body of the parallel loops: the query vector, the search, the test of the size, and storing.\<close>

definition query_row ::
    "'f::linordered_field py_env \<Rightarrow> 'f py_index \<Rightarrow> 'f ndarray \<Rightarrow> nat \<Rightarrow> nat \<Rightarrow> nat \<Rightarrow> filter_functor
      \<Rightarrow> ('f hnsw \<times> 'f list \<times> labeltype list, py_error) body" where
  "query_row pe idx items features k num_threads flt row tid s =
     (case bindE (row_vec items row (py_dim idx)) (\<lambda>v.
           bindE (if normalize idx
                  then bindE (guardE (tid * py_dim idx + py_dim idx \<le> num_threads * features) (From_hnsw Bad_access)) (\<lambda>_.
                         Inr (normalize_vector pe (py_dim idx) v))
                  else Inr v) (\<lambda>v.
             liftH (searchKnn (penv pe) (fst s) (vec_bytes pe v) k flt))) of
        Inl e \<Rightarrow> (s, Some e)
      | Inr (result, h) \<Rightarrow>
          if length result \<noteq> k
          then ((h, snd s), Some (Runtime_error
            ''Cannot return the results in a contiguous 2D array. Probably ef or M is too small''))
          else (case store_row (row * k) (loop_count k) result (snd s) of
                  Inl e \<Rightarrow> ((h, snd s), Some e) | Inr arr \<Rightarrow> ((h, arr), None)))"

definition knnQuery_return_numpy ::
    "'f::linordered_field py_env \<Rightarrow> nat list \<Rightarrow> 'f py_index \<Rightarrow> 'f ndarray \<Rightarrow> nat \<Rightarrow> int \<Rightarrow> filter_functor
      \<Rightarrow> ('f py_index \<times> (py_error + labeltype ndarray \<times> 'f ndarray)) option" where
  "knnQuery_return_numpy pe sched idx input k num_threads flt =
     (case get_input_array_shapes input of
        Inl e \<Rightarrow> Some (idx, Inl e)
      | Inr (rows, features) \<Rightarrow>
          let num_threads = thread_count (num_threads_default idx) num_threads rows;
              arr = (replicate (rows * k) (uninit_float pe), replicate (rows * k) (uninit_size pe))
          in case appr_alg idx of
               None \<Rightarrow> Some (idx, if rows = 0 then Inr (\<lparr>nd_shape = [0, k], nd_data = []\<rparr>, \<lparr>nd_shape = [0, k], nd_data = []\<rparr>) else Inl Null_pointer)
             | Some h \<Rightarrow>
                 (case ParallelFor (hw_threads pe) sched 0 rows num_threads
                         (query_row pe idx input features k num_threads flt) (h, arr) of
                    None \<Rightarrow> None
                  | Some ((h, _), Some e) \<Rightarrow> Some (idx\<lparr>appr_alg := Some h\<rparr>, Inl e)
                  | Some ((h, ds, ls), None) \<Rightarrow>
                      Some (idx\<lparr>appr_alg := Some h\<rparr>, Inr (\<lparr>nd_shape = [rows, k], nd_data = ls\<rparr>, \<lparr>nd_shape = [rows, k], nd_data = ds\<rparr>))))"

definition py_markDeleted :: "'f py_index \<Rightarrow> labeltype \<Rightarrow> py_error + 'f py_index" where
  "py_markDeleted idx label =
     bindE (the_alg idx) (\<lambda>h. bindE (liftH (markDelete h label)) (\<lambda>h. Inr (idx\<lparr>appr_alg := Some h\<rparr>)))"

definition py_unmarkDeleted :: "'f py_index \<Rightarrow> labeltype \<Rightarrow> py_error + 'f py_index" where
  "py_unmarkDeleted idx label =
     bindE (the_alg idx) (\<lambda>h. bindE (liftH (unmarkDelete h label)) (\<lambda>h. Inr (idx\<lparr>appr_alg := Some h\<rparr>)))"

definition py_resizeIndex :: "'f py_env \<Rightarrow> 'f py_index \<Rightarrow> nat \<Rightarrow> py_error + 'f py_index" where
  "py_resizeIndex pe idx new_size =
     bindE (the_alg idx) (\<lambda>h. bindE (liftH (resizeIndex (penv pe) new_size h)) (\<lambda>h. Inr (idx\<lparr>appr_alg := Some h\<rparr>)))"

definition getMaxElements :: "'f py_index \<Rightarrow> py_error + nat" where
  "getMaxElements idx = bindE (the_alg idx) (\<lambda>h. Inr (max_elements h))"

definition getCurrentCount :: "'f py_index \<Rightarrow> py_error + nat" where
  "getCurrentCount idx = bindE (the_alg idx) (\<lambda>h. Inr (cur_element_count h))"

subsection \<open>BFIndex\<close>

record 'f bf_index =
  bfi_space_name :: string
  bfi_dim :: nat
  bfi_index_inited :: bool
  bfi_normalize :: bool
  bfi_num_threads_default :: int
  bfi_cur_l :: labeltype
  bf_alg :: "'f bruteforce option"
  bfi_space :: "'f space_interface"

definition new_BFIndex :: "'f::linordered_field py_env \<Rightarrow> string \<Rightarrow> nat \<Rightarrow> py_error + 'f bf_index" where
  "new_BFIndex pe name dm =
     bindE (space_by_name pe name dm) (\<lambda>(s, norm).
       Inr \<lparr>bfi_space_name = name, bfi_dim = dm, bfi_index_inited = False, bfi_normalize = norm,
            bfi_num_threads_default = int (hw_threads pe), bfi_cur_l = uninit_size pe, bf_alg = None, bfi_space = s\<rparr>)"

definition bfi_init_new_index :: "'f py_env \<Rightarrow> 'f bf_index \<Rightarrow> nat \<Rightarrow> py_error + 'f bf_index" where
  "bfi_init_new_index pe idx maxElements =
     (if bf_alg idx \<noteq> None then Inl (Runtime_error ''The index is already initiated.'')
      else bindE (liftB (new_BruteforceSearch (pmalloc pe) (bfi_space idx) maxElements)) (\<lambda>b.
        Inr (idx\<lparr>bfi_cur_l := 0, bf_alg := Some b, bfi_index_inited := True\<rparr>)))"

definition the_bf :: "'f bf_index \<Rightarrow> py_error + 'f bruteforce" where
  "the_bf idx = (case bf_alg idx of None \<Rightarrow> Inl Null_pointer | Some b \<Rightarrow> Inr b)"

definition bfi_getMaxElements :: "'f bf_index \<Rightarrow> py_error + nat" where
  "bfi_getMaxElements idx = bindE (the_bf idx) (\<lambda>b. Inr (bf_maxelements b))"

definition bfi_getCurrentCount :: "'f bf_index \<Rightarrow> py_error + nat" where
  "bfi_getCurrentCount idx = bindE (the_bf idx) (\<lambda>b. Inr (bf_cur_element_count b))"

definition bfi_set_num_threads :: "int \<Rightarrow> 'f bf_index \<Rightarrow> 'f bf_index" where
  "bfi_set_num_threads n idx = idx\<lparr>bfi_num_threads_default := n\<rparr>"

text \<open>\<open>addItems\<close> of the brute-force index is a plain loop; an exception leaves the rows before it in the index.\<close>

definition bfi_add_row :: "'f::linordered_field py_env \<Rightarrow> 'f bf_index \<Rightarrow> 'f ndarray \<Rightarrow> nat list \<Rightarrow> 'f bruteforce \<Rightarrow> nat \<Rightarrow> py_error + 'f bruteforce" where
  "bfi_add_row pe idx items ids b row =
     bindE (row_label (bfi_cur_l idx) ids row) (\<lambda>label.
     bindE (row_vec items row (bfi_dim idx)) (\<lambda>v.
       liftB (bf_addPoint b (vec_bytes pe (if bfi_normalize idx then normalize_vector pe (bfi_dim idx) v else v)) label)))"

fun bfi_add_rows ::
    "'f::linordered_field py_env \<Rightarrow> 'f bf_index \<Rightarrow> 'f ndarray \<Rightarrow> nat list \<Rightarrow> nat list \<Rightarrow> 'f bruteforce \<Rightarrow> 'f bruteforce \<times> py_error option" where
  "bfi_add_rows pe idx items ids [] b = (b, None)"
| "bfi_add_rows pe idx items ids (row # rows) b =
     (case bfi_add_row pe idx items ids b row of
        Inl e \<Rightarrow> (b, Some e) | Inr b' \<Rightarrow> bfi_add_rows pe idx items ids rows b')"

definition bfi_addItems ::
    "'f::linordered_field py_env \<Rightarrow> 'f bf_index \<Rightarrow> 'f ndarray \<Rightarrow> nat ndarray option \<Rightarrow> 'f bf_index \<times> py_error option" where
  "bfi_addItems pe idx input ids_arg =
     (case get_input_array_shapes input of
        Inl e \<Rightarrow> (idx, Some e)
      | Inr (rows, features) \<Rightarrow>
          if features \<noteq> bfi_dim idx then (idx, Some (Runtime_error ''Wrong dimensionality of the vectors''))
          else (case get_input_ids_and_check_shapes ids_arg rows of
                  Inl e \<Rightarrow> (idx, Some e)
                | Inr ids \<Rightarrow>
                    (case bf_alg idx of
                       None \<Rightarrow> (idx, if rows = 0 then None else Some Null_pointer)
                     | Some b \<Rightarrow>
                         (case bfi_add_rows pe idx input ids [0..<rows] b of
                            (b, Some e) \<Rightarrow> (idx\<lparr>bf_alg := Some b\<rparr>, Some e)
                          | (b, None) \<Rightarrow> (idx\<lparr>bf_alg := Some b, bfi_cur_l := (bfi_cur_l idx + rows) mod 2 ^ 64\<rparr>, None)))))"

definition deleteVector :: "'f py_env \<Rightarrow> 'f bf_index \<Rightarrow> labeltype \<Rightarrow> py_error + 'f bf_index" where
  "deleteVector pe idx label =
     bindE (the_bf idx) (\<lambda>b. bindE (liftB (bf_removePoint (pfreed pe) b label)) (\<lambda>b. Inr (idx\<lparr>bf_alg := Some b\<rparr>)))"

definition bfi_saveIndex :: "'f bf_index \<Rightarrow> py_error + byte list" where
  "bfi_saveIndex idx = bindE (the_bf idx) (\<lambda>b. Inr (bf_saveIndex b))"

definition bfi_loadIndex :: "'f py_env \<Rightarrow> 'f bf_index \<Rightarrow> byte list \<Rightarrow> nat \<Rightarrow> py_error + 'f bf_index" where
  "bfi_loadIndex pe idx path_to_index max_els =
     bindE (liftB (load_BruteforceSearch (pmalloc pe) (uninit_dist pe) (bfi_space idx) path_to_index)) (\<lambda>b.
       Inr (idx\<lparr>bf_alg := Some b, bfi_cur_l := bf_cur_element_count b, bfi_index_inited := True\<rparr>))"

text \<open>The query of the brute-force index: it neither normalises the query nor tests how many results there are.\<close>

definition bfi_query_row ::
    "'f::linordered_field py_env \<Rightarrow> 'f bf_index \<Rightarrow> 'f bruteforce \<Rightarrow> 'f ndarray \<Rightarrow> nat \<Rightarrow> filter_functor \<Rightarrow> ('f list \<times> labeltype list, py_error) body" where
  "bfi_query_row pe idx b items k flt row tid arr =
     (case bindE (row_vec items row (bfi_dim idx)) (\<lambda>v.
           bindE (liftB (bf_searchKnn (pndebug pe) (dmax (penv pe)) b (vec_bytes pe v) k flt)) (\<lambda>result.
             store_row (row * k) (loop_count k) result arr)) of
        Inl e \<Rightarrow> (arr, Some e) | Inr arr \<Rightarrow> (arr, None))"

definition bfi_knnQuery_return_numpy ::
    "'f::linordered_field py_env \<Rightarrow> nat list \<Rightarrow> 'f bf_index \<Rightarrow> 'f ndarray \<Rightarrow> nat \<Rightarrow> int \<Rightarrow> filter_functor
      \<Rightarrow> (py_error + labeltype ndarray \<times> 'f ndarray) option" where
  "bfi_knnQuery_return_numpy pe sched idx input k num_threads flt =
     (let num_threads = (if num_threads \<le> 0 then bfi_num_threads_default idx else num_threads) in
      case get_input_array_shapes input of
        Inl e \<Rightarrow> Some (Inl e)
      | Inr (rows, features) \<Rightarrow>
          let arr = (replicate (rows * k) (uninit_float pe), replicate (rows * k) (uninit_size pe))
          in case bf_alg idx of
               None \<Rightarrow> Some (if rows = 0 then Inr (\<lparr>nd_shape = [0, k], nd_data = []\<rparr>, \<lparr>nd_shape = [0, k], nd_data = []\<rparr>) else Inl Null_pointer)
             | Some b \<Rightarrow>
                 (case ParallelFor (hw_threads pe) sched 0 rows (nat (num_threads mod 2 ^ 64)) (bfi_query_row pe idx b input k flt) arr of
                    None \<Rightarrow> None
                  | Some (_, Some e) \<Rightarrow> Some (Inl e)
                  | Some ((ds, ls), None) \<Rightarrow>
                      Some (Inr (\<lparr>nd_shape = [rows, k], nd_data = ls\<rparr>, \<lparr>nd_shape = [rows, k], nd_data = ds\<rparr>))))"

end
