(* ===== verification/Py_Add.thy ===== *)
theory Py_Add
  imports Py_Index
begin

text \<open>
  \<open>addItems\<close> of the Python module: whatever the interleaving of its threads, all rows end up in the index. The proof runs
  over the sequence of calls that \<open>ParallelFor\<close> makes, with the facts about \<open>addPoint\<close>.
\<close>

subsection \<open>Parallel loops by their calls\<close>

text \<open>A property that every call keeps, whatever the order, holds after the loop; and if no call throws, neither does the loop.\<close>

lemma calls_invariant:
  assumes "P s []" and "distinct (map fst cs)" and "set cs \<subseteq> C"
    and step: "\<And>s rs i t. P s rs \<Longrightarrow> (i, t) \<in> C \<Longrightarrow> i \<notin> set rs \<Longrightarrow> \<exists>s'. fn i t s = (s', None) \<and> P s' (rs @ [i])"
  shows "\<exists>s'. calls fn s cs = (s', None) \<and> P s' (map fst cs)"
  using assms(2,3)
proof (induction cs rule: rev_induct)
  case Nil
  then show ?case using assms(1) by (simp add: calls_def)
next
  case (snoc c cs)
  obtain i t where c: "c = (i, t)" by (cases c)
  from snoc obtain s1 where s1: "calls fn s cs = (s1, None)" "P s1 (map fst cs)" by auto
  from step [OF s1(2), of i t] snoc.prems c obtain s2 where "fn i t s1 = (s2, None)" "P s2 (map fst cs @ [i])" by auto
  then show ?case using s1(1) c by (simp add: calls_snoc call_def)
qed

lemma ParallelFor_invariant:
  assumes run: "ParallelFor hw sched start end_id numThreads fn s = Some (s', exc)"
    and n: "n = (if numThreads = 0 then hw else numThreads)" "0 < n" and lim: "max start end_id + n < 2 ^ 64"
    and init: "P s []"
    and step: "\<And>s rs i t. P s rs \<Longrightarrow> start \<le> i \<Longrightarrow> i < end_id \<Longrightarrow> t < n \<Longrightarrow> i \<notin> set rs
      \<Longrightarrow> \<exists>s'. fn i t s = (s', None) \<and> P s' (rs @ [i])"
  shows "exc = None \<and> (\<exists>rs. distinct rs \<and> set rs = {start..<end_id} \<and> P s' rs)"
proof -
  obtain cs where cs: "calls fn s cs = (s', exc)" "distinct (map fst cs)" "fst ` set cs \<subseteq> {start..<end_id}" "\<forall>c\<in>set cs. snd c < n"
    "exc = None \<longrightarrow> fst ` set cs = {start..<end_id}"
    using ParallelFor_calls [OF run n lim] by blast
  have sub: "set cs \<subseteq> {start..<end_id} \<times> {..<n}"
  proof
    fix c assume c: "c \<in> set cs"
    then have "fst c \<in> {start..<end_id}" "snd c < n" using cs(3,4) by blast+
    then show "c \<in> {start..<end_id} \<times> {..<n}" by (simp add: mem_Times_iff)
  qed
  have "\<exists>s'. calls fn s cs = (s', None) \<and> P s' (map fst cs)"
    by (rule calls_invariant [where P = P, OF init cs(2) sub]) (use step in auto)
  then have "exc = None" "P s' (map fst cs)" using cs(1) by auto
  then show ?thesis using cs(2,5) by (intro conjI exI [of _ "map fst cs"]) simp_all
qed

subsection \<open>Adding rows\<close>

definition row_at :: "'f ndarray \<Rightarrow> nat \<Rightarrow> nat \<Rightarrow> 'f list" where
  "row_at input d r = take d (drop (r * d) (nd_data input))"

definition label_of :: "'f py_index \<Rightarrow> nat list \<Rightarrow> nat \<Rightarrow> labeltype" where
  "label_of idx ids r = (if ids \<noteq> [] then ids ! r else (cur_l idx + r) mod 2 ^ 64)"

definition stored_row :: "'f::linordered_field py_env \<Rightarrow> 'f py_index \<Rightarrow> 'f ndarray \<Rightarrow> nat \<Rightarrow> byte list" where
  "stored_row pe idx input r =
     vec_bytes pe (if normalize idx then normalize_vector pe (py_dim idx) (row_at input (py_dim idx) r) else row_at input (py_dim idx) r)"

lemma length_vec_bytes: "\<forall>x. length (float_bytes pe x) = 4 \<Longrightarrow> length (vec_bytes pe xs) = 4 * length xs"
  by (induction xs) (simp_all add: vec_bytes_def)

lemma length_normalize_vector [simp]: "length (normalize_vector pe d v) = d"
  by (simp add: normalize_vector_def Let_def)

lemma row_vec_ok:
  assumes "nd_shape input = [rows, d]" and "length (nd_data input) = rows * d" and "r < rows"
  shows "row_vec input r d = Inr (row_at input d r)" "length (row_at input d r) = d"
proof -
  have "r * d + d \<le> rows * d" using mult_le_mono1 [of "Suc r" rows d] assms(3) by simp
  then show "row_vec input r d = Inr (row_at input d r)" "length (row_at input d r) = d"
    using assms by (simp_all add: row_vec_def row_at_def Let_def)
qed

text \<open>The index \<open>h\<close> is \<open>h0\<close> with the rows \<open>rs\<close> added.\<close>

definition added ::
    "'f::linordered_field hnsw \<Rightarrow> (nat \<Rightarrow> labeltype) \<Rightarrow> (nat \<Rightarrow> byte list) \<Rightarrow> 'f hnsw \<Rightarrow> nat list \<Rightarrow> bool" where
  "added h0 lab vec h rs \<longleftrightarrow> usable h \<and> deleted_ids h = {} \<and> cur_element_count h = cur_element_count h0 + length rs
     \<and> max_elements h = max_elements h0 \<and> hn_data_size h = hn_data_size h0 \<and> distinct rs
     \<and> (\<forall>l. l \<notin> lab ` set rs \<longrightarrow> label_lookup h l = label_lookup h0 l)
     \<and> (\<forall>r\<in>set rs. \<exists>i<cur_element_count h. label_lookup h (lab r) = Some i \<and> e_data (data_level0 h ! i) = vec r)
     \<and> (\<forall>j<cur_element_count h0. e_data (data_level0 h ! j) = e_data (data_level0 h0 ! j))"

lemma added_step:
  assumes ad: "added h0 lab vec h rs" and env: "env_ok env" and r: "r \<notin> set rs" "length (vec r) = hn_data_size h0"
    and inj: "inj_on lab (insert r (set rs))" and new: "label_lookup h0 (lab r) = None"
    and room: "cur_element_count h0 + length rs < max_elements h0"
  shows "\<exists>h'. addPoint env h (vec r) (lab r) False = Inr h' \<and> added h0 lab vec h' (rs @ [r])"
proof -
  have us: "usable h" and del: "deleted_ids h = {}" and cnt: "cur_element_count h = cur_element_count h0 + length rs"
    and mx: "max_elements h = max_elements h0" and ds: "hn_data_size h = hn_data_size h0" and dis: "distinct rs"
    and old: "\<forall>l. l \<notin> lab ` set rs \<longrightarrow> label_lookup h l = label_lookup h0 l"
    and have_rows: "\<forall>r\<in>set rs. \<exists>i<cur_element_count h. label_lookup h (lab r) = Some i \<and> e_data (data_level0 h ! i) = vec r"
    and keep: "\<forall>j<cur_element_count h0. e_data (data_level0 h ! j) = e_data (data_level0 h0 ! j)"
    using ad unfolding added_def by blast+
  have fresh: "lab r \<notin> lab ` set rs" using inj r(1) by auto
  then have none: "label_lookup h (lab r) = None" using old new by simp
  have acc: "accepts env h (vec r)" by (rule usable_accepts [OF us env]) (simp add: r(2) ds)
  have "safeE (insert_errors h) (inserted h (vec r) (lab r)) (addPoint_level env h (vec r) (lab r) (-1))"
    using acc room cnt mx by (intro addPoint_level_new [OF _ none]) (simp_all add: accepts_def)
  then obtain h' where run: "addPoint env h (vec r) (lab r) False = Inr h'" and ins: "inserted h (vec r) (lab r) (cur_element_count h, h')"
    by (auto simp: insert_errors_def del safeE_empty addPoint_def inserted_def)
  have i: "cur_element_count h' = cur_element_count h + 1" "max_elements h' = max_elements h" "same_params h h'"
    "label_lookup h' = (label_lookup h)(lab r \<mapsto> cur_element_count h)" "deleted_ids h' = {}"
    "e_data (data_level0 h' ! cur_element_count h) = vec r"
    "\<forall>j<cur_element_count h. e_data (data_level0 h' ! j) = e_data (data_level0 h ! j)"
    using ins del by (simp_all add: inserted_def)
  have "usable h'" using usable_params [OF i(3) _ us] ins by (simp add: inserted_def)
  moreover have "\<exists>i<cur_element_count h'. label_lookup h' (lab x) = Some i \<and> e_data (data_level0 h' ! i) = vec x"
    if x: "x \<in> set (rs @ [r])" for x
  proof (cases "x = r")
    case True
    then show ?thesis using i by auto
  next
    case False
    then have "x \<in> set rs" using x by simp
    then have "lab x \<in> lab ` set rs" by (rule imageI)
    then have "lab x \<noteq> lab r" using fresh by metis
    note \<open>x \<in> set rs\<close> this
    then show ?thesis using have_rows i(1,4,7) by force
  qed
  ultimately have "added h0 lab vec h' (rs @ [r])"
    using i dis r(1) cnt mx ds old keep unfolding added_def by (simp add: same_params_def)
  then show ?thesis using run by blast
qed

text \<open>What \<open>addItems\<close> needs: an index without deleted elements, rows that fit, new and different labels, enough room.\<close>

definition addable ::
    "'f::linordered_field py_env \<Rightarrow> 'f py_index \<Rightarrow> 'f hnsw \<Rightarrow> 'f ndarray \<Rightarrow> nat list \<Rightarrow> nat \<Rightarrow> bool" where
  "addable pe idx h input ids rows \<longleftrightarrow> usable h \<and> env_ok (penv pe) \<and> deleted_ids h = {} \<and> hn_data_size h = 4 * py_dim idx
     \<and> (\<forall>x. length (float_bytes pe x) = 4) \<and> nd_shape input = [rows, py_dim idx] \<and> length (nd_data input) = rows * py_dim idx
     \<and> (ids = [] \<or> length ids = rows) \<and> inj_on (label_of idx ids) {..<rows}
     \<and> (\<forall>r<rows. label_lookup h (label_of idx ids r) = None) \<and> cur_element_count h + rows \<le> max_elements h"

lemma add_row_step:
  assumes ok: "addable pe idx h0 input ids rows" and ad: "added h0 (label_of idx ids) (stored_row pe idx input) h rs"
    and r: "r < rows" "r \<notin> set rs" "set rs \<subseteq> {..<rows}" and t: "t < n"
  shows "\<exists>h'. add_row pe idx input ids n False r t h = (h', None)
    \<and> added h0 (label_of idx ids) (stored_row pe idx input) h' (rs @ [r])"
proof -
  have shape: "nd_shape input = [rows, py_dim idx]" "length (nd_data input) = rows * py_dim idx"
    and fb: "\<forall>x. length (float_bytes pe x) = 4" and env: "env_ok (penv pe)" and ids: "ids = [] \<or> length ids = rows"
    and inj: "inj_on (label_of idx ids) {..<rows}" and new: "label_lookup h0 (label_of idx ids r) = None"
    and room: "cur_element_count h0 + rows \<le> max_elements h0" and ds: "hn_data_size h0 = 4 * py_dim idx"
    using ok r(1) by (simp_all add: addable_def)
  note row = row_vec_ok [OF shape r(1)]
  have "distinct (r # rs)" using ad r(2) by (simp add: added_def)
  then have "Suc (length rs) \<le> rows"
    using card_mono [of "{..<rows}" "set (r # rs)"] r distinct_card [of "r # rs"] by simp
  then have "cur_element_count h0 + length rs < max_elements h0" using room by simp
  moreover have "inj_on (label_of idx ids) (insert r (set rs))" 
    using r by (intro inj_on_subset [OF inj]) auto
  moreover have "length (stored_row pe idx input r) = hn_data_size h0"
    using length_vec_bytes [OF fb] row(2) by (simp add: stored_row_def ds)
  ultimately obtain h' where h': "addPoint (penv pe) h (stored_row pe idx input r) (label_of idx ids r) False = Inr h'"
    "added h0 (label_of idx ids) (stored_row pe idx input) h' (rs @ [r])"
    using added_step [OF ad env r(2) _ _ new] by blast
  have "Suc t * py_dim idx \<le> n * py_dim idx" using t by (intro mult_le_mono1) simp
  then have "t * py_dim idx + py_dim idx \<le> n * py_dim idx" by simp
  moreover have "row_label (cur_l idx) ids r = Inr (label_of idx ids r)" using ids r(1) by (auto simp: row_label_def label_of_def)
  ultimately have "add_row pe idx input ids n False r t h = (h', None)"
    using h'(1) row(1) by (cases "normalize idx") (simp_all add: add_row_def stored_row_def liftH_def)
  then show ?thesis using h'(2) by blast
qed

lemma thread_count_bounds:
  assumes "0 < num_threads" and "num_threads < 2 ^ 29"
  shows "0 < thread_count dflt num_threads rows" "thread_count dflt num_threads rows < 2 ^ 29"
  using assms by (auto simp: thread_count_def Let_def)

lemma addItems_all:
  assumes run: "addItems pe sched idx input ids_arg num_threads False = Some (idx', exc)" and alg: "appr_alg idx = Some h"
    and ids: "get_input_ids_and_check_shapes ids_arg rows = Inr ids" and ok: "addable pe idx h input ids rows"
    and small: "0 < num_threads" "num_threads < 2 ^ 29" "0 < rows" "rows < 2 ^ 32"
  shows "exc = None \<and> ep_added idx' \<and> cur_l idx' = (cur_l idx + rows) mod 2 ^ 64
    \<and> (\<exists>h'. appr_alg idx' = Some h' \<and> hnsw_wf h' \<and> cur_element_count h' = cur_element_count h + rows
        \<and> (\<forall>r<rows. \<exists>i. label_lookup h' (label_of idx ids r) = Some i \<and> e_data (data_level0 h' ! i) = stored_row pe idx input r)
        \<and> (\<forall>l. l \<notin> label_of idx ids ` {..<rows} \<longrightarrow> label_lookup h' l = label_lookup h l)
        \<and> (\<forall>j<cur_element_count h. e_data (data_level0 h' ! j) = e_data (data_level0 h ! j)))"
proof -
  define n where "n = thread_count (num_threads_default idx) num_threads rows"
  have n: "0 < n" "n < 2 ^ 29" using thread_count_bounds [OF small(1,2)] by (simp_all add: n_def)
  let ?A = "added h (label_of idx ids) (stored_row pe idx input)"
  have shape: "get_input_array_shapes input = Inr (rows, py_dim idx)" using ok by (simp add: addable_def get_input_array_shapes_def)
  have start: "?A h []" using ok by (simp add: added_def addable_def)
  have all: "\<exists>h'. appr_alg idx' = Some h' \<and> hnsw_wf h' \<and> cur_element_count h' = cur_element_count h + rows
        \<and> (\<forall>r<rows. \<exists>i. label_lookup h' (label_of idx ids r) = Some i \<and> e_data (data_level0 h' ! i) = stored_row pe idx input r)
        \<and> (\<forall>l. l \<notin> label_of idx ids ` {..<rows} \<longrightarrow> label_lookup h' l = label_lookup h l)
        \<and> (\<forall>j<cur_element_count h. e_data (data_level0 h' ! j) = e_data (data_level0 h ! j))"
    if "appr_alg idx' = Some h'" "?A h' rs" "set rs = {..<rows}" for h' rs
  proof -
    have "length rs = rows" using that(2,3) distinct_card [of rs] by (simp add: added_def)
    then show ?thesis using that by (fastforce simp: added_def usable_def)
  qed
  obtain h1 rs1 where h1: "(if ep_added idx then (h, None) else add_first pe idx input ids False h) = (h1, None)" "?A h1 rs1"
    "rs1 = (if ep_added idx then [] else [0])"
  proof (cases "ep_added idx")
    case True
    then show ?thesis using start by (intro that [of h "[]"]) simp_all
  next
    case False
    obtain h' where "add_row pe idx input ids 1 False 0 0 h = (h', None)" "?A h' [0]"
      using add_row_step [OF ok start small(3), of 0 1] by auto
    then show ?thesis using False by (intro that [of h' "[0]"]) (simp_all add: add_first_def)
  qed
  let ?st = "if ep_added idx then 0 else 1" and ?fn = "add_row pe idx input ids n False"
  obtain r where loop: "ParallelFor (hw_threads pe) sched ?st rows n ?fn h1 = Some r"
    using run alg ids shape h1(1) by (auto simp: addItems_def Let_def n_def [symmetric] split: option.splits prod.splits)
  obtain h2 e where r: "r = (h2, e)" by (cases r)
  have "e = None \<and> (\<exists>rs. distinct rs \<and> set rs = {?st..<rows} \<and> (?A h2 (rs1 @ rs) \<and> set rs \<subseteq> {?st..<rows}))"
  proof (rule ParallelFor_invariant [where P = "\<lambda>h rs. ?A h (rs1 @ rs) \<and> set rs \<subseteq> {?st..<rows}"])
    show "ParallelFor (hw_threads pe) sched ?st rows n ?fn h1 = Some (h2, e)" using loop r by simp
    show "n = (if n = 0 then hw_threads pe else n)" "0 < n" using n by simp_all
    show "max ?st rows + n < 2 ^ 64" using n small(3,4) by (auto simp: max_def)
    show "?A h1 (rs1 @ []) \<and> set [] \<subseteq> {?st..<rows}" using h1(2) by simp
  next
    fix g rs i t
    assume "?A g (rs1 @ rs) \<and> set rs \<subseteq> {?st..<rows}" and i: "?st \<le> i" "i < rows" "t < n" "i \<notin> set rs"
    then have g: "?A g (rs1 @ rs)" "i \<notin> set (rs1 @ rs)" "set (rs1 @ rs) \<subseteq> {..<rows}" "set (rs @ [i]) \<subseteq> {?st..<rows}"
      using h1(3) small(3) by (auto split: if_splits)
    obtain g' where "?fn i t g = (g', None)" "?A g' ((rs1 @ rs) @ [i])"
      using add_row_step [OF ok g(1) i(2) g(2,3) i(3)] by blast
    then show "\<exists>g'. ?fn i t g = (g', None) \<and> (?A g' (rs1 @ rs @ [i]) \<and> set (rs @ [i]) \<subseteq> {?st..<rows})"
      using g(4) by (intro exI [of _ g']) simp
  qed
  then obtain rs where e: "e = None" and rs: "?A h2 (rs1 @ rs)" "set rs = {?st..<rows}" by blast
  have "set rs1 = {..<?st}" by (auto simp: h1(3))
  then have "set (rs1 @ rs) = {..<?st} \<union> {?st..<rows}" using rs(2) by simp
  also have "\<dots> = {..<rows}" using small(3) by (intro ivl_disj_un_one) simp
  finally have set: "set (rs1 @ rs) = {..<rows}" .
  have res: "idx' = idx\<lparr>appr_alg := Some h2, ep_added := True, cur_l := (cur_l idx + rows) mod 2 ^ 64\<rparr>" "exc = None"
    using run alg ids shape h1(1) loop r e
    by (auto simp: addItems_def Let_def n_def [symmetric] split: option.splits prod.splits)
  then show ?thesis using all [OF _ rs(1) set] by simp
qed

lemma addItems_inited: "addItems pe sched idx input ids_arg num_threads replace = Some (idx', exc) \<Longrightarrow> index_inited idx' = index_inited idx"
  by (auto simp: addItems_def Let_def split: sum.splits option.splits prod.splits if_splits)


subsection \<open>An example\<close>

text \<open>Vectors of two rationals; a value lies in memory as its floor modulo 256, in the first of four bytes.\<close>

definition demo_py :: "rat py_env" where
  "demo_py = \<lparr>penv = \<lparr>dmax = 1000, random_level = (\<lambda>_ _. 0), update_draw = (\<lambda>_. 0), uset_iter = (\<lambda>xs. xs),
       malloc_ok = (\<lambda>_. True), vl_junk = (\<lambda>_. 0),
       mem_junk = (\<lambda>_. \<lparr>e_links = \<lparr>ll_count = 0, ll_mark = 0, ll_pad = 0, ll_slots = []\<rparr>, e_data = [], e_label = 0\<rparr>)\<rparr>,
     pmult = (\<lambda>_. 0), pbuild = build_macros False False False False False, pavx = False, pavx512 = False,
     prvv = (\<lambda>_ _ _. None), pops = \<lparr>fma_op = (\<lambda>x y z. x * y + z), reduce_op = sum_list\<rparr>,
     float_bytes = (\<lambda>x. [of_int \<lfloor>x\<rfloor>, 0, 0, 0]), float_val = (\<lambda>bs. of_nat (le_val bs)), sqrtf = (\<lambda>x. x), tiny = 1,
     hw_threads = 4, umap_iter = (\<lambda>m. map (\<lambda>k. (k, the (m k))) (sorted_list_of_set (dom m))), pmalloc = (\<lambda>n. Some (replicate n 0)), pfreed = (\<lambda>n. n), pndebug = True,
     uninit_size = 0, uninit_dist = (\<lambda>_ _. 0), uninit_float = 0\<rparr>"

definition demo_input :: "rat ndarray" where
  "demo_input = \<lparr>nd_shape = [2, 2], nd_data = [1, 2, 30, 40]\<rparr>"

lemma demo_py_new:
  "\<exists>idx idx1 h. new_Index demo_py ''l2'' 2 = Inr idx \<and> init_new_index demo_py idx 5 2 10 100 False = Inr idx1
    \<and> appr_alg idx1 = Some h \<and> usable h \<and> py_dim idx1 = 2 \<and> cur_l idx1 = 0 \<and> cur_element_count h = 0 \<and> max_elements h = 5
    \<and> hn_data_size h = 8 \<and> label_lookup h = Map.empty \<and> \<not> ep_added idx1 \<and> \<not> normalize idx1"
proof -
  let ?s = "l2_interface demo_py 2"
  have size: "get_data_size ?s = 8" by (simp add: l2_interface_def L2Space_def Let_def)
  obtain h where h: "new_HierarchicalNSW (penv demo_py) (pmult demo_py) ?s 5 2 10 False = Inr h"
    by (simp add: new_HierarchicalNSW_def Let_def demo_py_def)
  have "usable h" by (rule usable_new [OF h]) simp_all
  then have "usable (setEf 10 h)"
    using usable_step [of "penv demo_py" h] step_ef [of "penv demo_py" h 10] by (simp add: env_ok_def demo_py_def)
  moreover have "cur_element_count h = 0 \<and> max_elements h = 5 \<and> hn_data_size h = 8 \<and> label_lookup h = Map.empty"
    using h size by (auto simp: new_HierarchicalNSW_def Let_def bindE_Inr_iff)
  ultimately show ?thesis
    using h by (auto simp: new_Index_def space_by_name_def init_new_index_def liftH_def setEf_def)
qed


end
