(* ===== verification/Py_Query.thy ===== *)
theory Py_Query
  imports Py_Add
begin

text \<open>
  \<open>knnQuery_return_numpy\<close>: what the two result arrays hold after the parallel loop, and the cases the code misses: a query of the wrong
  dimension, and the brute-force index with too few results.
\<close>

subsection \<open>Loops whose body may throw\<close>

lemma calls_rule:
  assumes "P s []" and "distinct (map fst cs)" and "set cs \<subseteq> C"
    and step: "\<And>s rs i t. P s rs \<Longrightarrow> (i, t) \<in> C \<Longrightarrow> i \<notin> set rs
      \<Longrightarrow> case fn i t s of (s', None) \<Rightarrow> P s' (rs @ [i]) | (s', Some e) \<Rightarrow> P s' rs \<and> E i e"
  shows "\<exists>oks. set oks \<subseteq> fst ` set cs \<and> P (fst (calls fn s cs)) oks
    \<and> (case snd (calls fn s cs) of None \<Rightarrow> oks = map fst cs | Some e \<Rightarrow> \<exists>i\<in>fst ` set cs. E i e)"
  using assms(2,3)
proof (induction cs rule: rev_induct)
  case Nil
  then show ?case using assms(1) by (simp add: calls_def)
next
  case (snoc c cs)
  obtain i t where c: "c = (i, t)" by (cases c)
  obtain s1 x where s1: "calls fn s cs = (s1, x)" by (cases "calls fn s cs")
  obtain s2 y where s2: "fn i t s1 = (s2, y)" by (cases "fn i t s1")
  from snoc s1 obtain oks where oks: "set oks \<subseteq> fst ` set cs" "P s1 oks"
    "case x of None \<Rightarrow> oks = map fst cs | Some e \<Rightarrow> \<exists>i\<in>fst ` set cs. E i e" by auto
  have i: "i \<notin> set oks" "(i, t) \<in> C" using oks(1) snoc.prems c by auto
  have st: "case y of None \<Rightarrow> P s2 (oks @ [i]) | Some e \<Rightarrow> P s2 oks \<and> E i e"
    using step [OF oks(2) i(2,1)] by (simp add: s2 split: option.splits)
  have run: "calls fn s (cs @ [c]) = (s2, case y of None \<Rightarrow> x | Some e \<Rightarrow> Some e)"
    using s1 s2 c by (simp add: calls_snoc call_def split: option.splits)
  show ?case
  proof (cases y)
    case None
    then show ?thesis using oks st run c by (intro exI [of _ "oks @ [i]"]) (auto split: option.splits)
  next
    case (Some e)
    then show ?thesis using oks st run c by (intro exI [of _ oks]) auto
  qed
qed

lemma ParallelFor_rule:
  assumes run: "ParallelFor hw sched start end_id numThreads fn s = Some (s', exc)"
    and n: "n = (if numThreads = 0 then hw else numThreads)" "0 < n" and lim: "max start end_id + n < 2 ^ 64"
    and init: "P s []"
    and step: "\<And>s rs i t. P s rs \<Longrightarrow> start \<le> i \<Longrightarrow> i < end_id \<Longrightarrow> t < n \<Longrightarrow> i \<notin> set rs
      \<Longrightarrow> case fn i t s of (s', None) \<Rightarrow> P s' (rs @ [i]) | (s', Some e) \<Rightarrow> P s' rs \<and> E i e"
  shows "\<exists>oks. P s' oks \<and> (case exc of None \<Rightarrow> set oks = {start..<end_id} | Some e \<Rightarrow> \<exists>i. start \<le> i \<and> i < end_id \<and> E i e)"
proof -
  obtain cs where cs: "calls fn s cs = (s', exc)" "distinct (map fst cs)" "fst ` set cs \<subseteq> {start..<end_id}" "\<forall>c\<in>set cs. snd c < n"
    "exc = None \<longrightarrow> fst ` set cs = {start..<end_id}"
    using ParallelFor_calls [OF run n lim] by blast
  have sub: "set cs \<subseteq> {start..<end_id} \<times> {..<n}"
  proof
    fix c assume c: "c \<in> set cs"
    then have "fst c \<in> {start..<end_id}" "snd c < n" using cs(3,4) by blast+
    then show "c \<in> {start..<end_id} \<times> {..<n}" by (simp add: mem_Times_iff)
  qed
  have "\<exists>oks. set oks \<subseteq> fst ` set cs \<and> P (fst (calls fn s cs)) oks
      \<and> (case snd (calls fn s cs) of None \<Rightarrow> oks = map fst cs | Some e \<Rightarrow> \<exists>i\<in>fst ` set cs. E i e)"
    by (rule calls_rule [where P = P, OF init cs(2) sub]) (use step in auto)
  then obtain oks where oks: "P s' oks" "case exc of None \<Rightarrow> oks = map fst cs | Some e \<Rightarrow> \<exists>i\<in>fst ` set cs. E i e"
    by (auto simp: cs(1))
  show ?thesis
  proof (cases exc)
    case None
    then show ?thesis using oks cs(5) by auto
  next
    case (Some e)
    then obtain i where "i \<in> fst ` set cs" "E i e" using oks(2) by auto
    moreover have "i \<in> {start..<end_id}" using \<open>i \<in> fst ` set cs\<close> cs(3) by blast
    ultimately show ?thesis using oks(1) Some by auto
  qed
qed

subsection \<open>Storing a row\<close>

lemma update_back:
  assumes "base + Suc i \<le> length xs"
  shows "take base (xs[base + i := v]) = take base xs" "drop (base + i) (xs[base + i := v]) = v # drop (base + Suc i) xs"
  using assms by (simp_all add: drop_update_swap [symmetric] Cons_nth_drop_Suc [symmetric])

lemma store_row_drain:
  assumes "length result = k" and "base + k \<le> length ds" and "base + k \<le> length ls"
  shows "store_row base k result (ds, ls) =
    Inr (take base ds @ rev (map fst (pq_drain pair_less result)) @ drop (base + k) ds,
         take base ls @ rev (map snd (pq_drain pair_less result)) @ drop (base + k) ls)"
  using assms
proof (induction k arbitrary: result ds ls)
  case 0
  then show ?case by (simp add: pq_drain.simps)
next
  case (Suc i)
  have ne: "result \<noteq> []" and len: "length (pq_pop pair_less result) = i" using Suc.prems(1) by (auto simp: heap_simps)
  show ?case
    using Suc.IH [OF len, of "ds[base + i := fst (pq_top result)]" "ls[base + i := snd (pq_top result)]"] Suc.prems ne
    by (simp add: update_back pq_drain.simps [of _ result])
qed

definition slice :: "'a list \<Rightarrow> nat \<Rightarrow> nat \<Rightarrow> 'a list" where
  "slice xs k r = take k (drop (r * k) xs)"

lemma slice_store:
  assumes "length v = k" and "r * k + k \<le> length xs"
  shows "slice (take (r * k) xs @ v @ drop (r * k + k) xs) k r = v"
    and "q \<noteq> r \<Longrightarrow> slice (take (r * k) xs @ v @ drop (r * k + k) xs) k q = slice xs k q"
    and "length (take (r * k) xs @ v @ drop (r * k + k) xs) = length xs"
proof -
  show "slice (take (r * k) xs @ v @ drop (r * k + k) xs) k r = v" "length (take (r * k) xs @ v @ drop (r * k + k) xs) = length xs"
    using assms by (simp_all add: slice_def)
  assume "q \<noteq> r"
  then consider "q * k + k \<le> r * k" | "r * k + k \<le> q * k"
    using block_disjoint [of q r k] by (auto simp: mult.commute)
  then show "slice (take (r * k) xs @ v @ drop (r * k + k) xs) k q = slice xs k q"
  proof cases
    case 1
    then have "r * k - q * k \<ge> k" by simp
    then show ?thesis using assms(2) 1 by (simp add: slice_def drop_take)
  next
    case 2
    then have "r * k - q * k = 0" "r * k \<le> q * k" by linarith+
    then show ?thesis using assms 2 by (simp add: slice_def)
  qed
qed


lemma loop_count: "k < 2 ^ 31 \<Longrightarrow> loop_count k = k"
proof (cases k)
  case (Suc j)
  assume k: "k < 2 ^ 31"
  have "(Suc j + 2 ^ 64 - 1) mod 2 ^ 32 = (j + 2 ^ 32 * 2 ^ 32) mod 2 ^ 32" by (simp add: add.commute)
  also have "\<dots> = j" using k Suc by (subst mod_mult_self2) simp
  finally show ?thesis using k Suc by (simp add: loop_count_def signed32_def Let_def)
qed (simp add: loop_count_def signed32_def)

subsection \<open>The answer to one row\<close>

text \<open>
  A row of the result: as many neighbours as asked for, nearest first, all different, each a stored element that is
  neither deleted nor filtered out, with its distance; and the nearest ones if the search is exhaustive.
\<close>

definition row_answer ::
    "'f::linordered_idom hnsw \<Rightarrow> byte list \<Rightarrow> filter_functor \<Rightarrow> nat \<Rightarrow> 'f list \<Rightarrow> labeltype list \<Rightarrow> bool" where
  "row_answer h q flt k ds ls \<longleftrightarrow> length ds = k \<and> length ls = k \<and> sorted ds \<and> distinct ls
     \<and> (\<forall>(d, l)\<in>set (zip ds ls). \<exists>j. label_lookup h l = Some j \<and> j \<notin> deleted_ids h \<and> allowed flt l \<and> d = elem_dist h q j)
     \<and> (base_connected h \<and> cur_element_count h \<le> max (hnEf h) k \<longrightarrow>
          k_best CompareByFirst k
            (mset (map (\<lambda>i. (elem_dist h q i, e_label (data_level0 h ! i)))
               (filter (\<lambda>i. i \<notin> deleted_ids h \<and> allowed flt (e_label (data_level0 h ! i))) [0..<cur_element_count h])))
            (mset (zip ds ls)))"

lemma search_frame_refl: "hnsw_wf h \<Longrightarrow> search_frame h h"
  unfolding search_frame_def
  by (intro exI [of _ "vl_pool h"] exI [of _ "metric_hops h"] exI [of _ "metric_distance_computations h"])
     (simp add: hnsw_wf_def links_wf_def)

lemma search_frame_observe:
  assumes "search_frame h h'"
  shows "deleted_ids h' = deleted_ids h" "base_connected h' = base_connected h"
  using search_frame_fields [OF assms] by (simp_all add: deleted_ids_def base_connected_def)

lemma row_answer_frame: "search_frame h h' \<Longrightarrow> row_answer h' q flt k ds ls = row_answer h q flt k ds ls"
  unfolding row_answer_def by (simp add: search_frame_fields search_frame_observe)

lemma sorted_map_fst_drain:
  assumes "is_heap pair_less r"
  shows "sorted (rev (map fst (pq_drain pair_less r)))"
proof -
  have "sorted_wrt (\<lambda>a b. fst b \<le> fst a) (pq_drain pair_less r)"
    using by_pair.sorted_pq_drain [OF assms] by (rule sorted_wrt_mono_rel [rotated]) (auto simp: pair_less_def)
  then show ?thesis by (simp add: sorted_wrt_rev sorted_wrt_map rev_map)
qed

lemma searchKnn_row_answer:
  assumes wf: "hnsw_wf h" and run: "searchKnn env h q k flt = Inr (r, h')" and len: "length r = k"
  shows "row_answer h q flt k (rev (map fst (pq_drain pair_less r))) (rev (map snd (pq_drain pair_less r)))"
proof -
  let ?d = "pq_drain pair_less r"
  have r: "is_heap pair_less r" "distinct (map snd r)"
    "\<forall>(d, l)\<in>set r. \<exists>i. label_lookup h l = Some i \<and> i \<notin> deleted_ids h \<and> allowed flt l \<and> d = elem_dist h q i"
    using searchKnn_returns [OF wf, of env q k flt] run by auto
  have zip: "zip (rev (map fst ?d)) (rev (map snd ?d)) = rev ?d" by (simp add: zip_rev zip_map_fst_snd)
  have "mset (map snd ?d) = mset (map snd r)" by (simp add: mset_pq_drain)
  then have "distinct (map snd ?d)" using r(2) by (metis mset_eq_imp_distinct_iff)
  moreover have "k_best CompareByFirst k
      (mset (map (\<lambda>i. (elem_dist h q i, e_label (data_level0 h ! i)))
        (filter (\<lambda>i. i \<notin> deleted_ids h \<and> allowed flt (e_label (data_level0 h ! i))) [0..<cur_element_count h]))) (mset (rev ?d))"
    if "base_connected h" "cur_element_count h \<le> max (hnEf h) k"
    using searchKnn_nearest [OF wf that, of env q flt] run by (simp add: mset_pq_drain)
  ultimately show ?thesis
    using r sorted_map_fst_drain [OF r(1)] len unfolding row_answer_def zip by (simp add: heap_simps)
qed

subsection \<open>The parallel loop\<close>

text \<open>What a query needs: a well-formed index and rows of the index's dimension.\<close>

definition queryable :: "'f::linordered_field py_index \<Rightarrow> 'f hnsw \<Rightarrow> 'f ndarray \<Rightarrow> nat \<Rightarrow> nat \<Rightarrow> bool" where
  "queryable idx h input rows k \<longleftrightarrow> hnsw_wf h \<and> nd_shape input = [rows, py_dim idx]
     \<and> length (nd_data input) = rows * py_dim idx \<and> k < 2 ^ 31"

text \<open>The state of the loop after the rows \<open>rs\<close> were answered.\<close>

definition answered ::
    "'f::linordered_field py_env \<Rightarrow> 'f py_index \<Rightarrow> 'f hnsw \<Rightarrow> 'f ndarray \<Rightarrow> nat \<Rightarrow> nat \<Rightarrow> filter_functor
      \<Rightarrow> 'f hnsw \<times> 'f list \<times> labeltype list \<Rightarrow> nat list \<Rightarrow> bool" where
  "answered pe idx h input rows k flt s rs \<longleftrightarrow> search_frame h (fst s)
     \<and> length (fst (snd s)) = rows * k \<and> length (snd (snd s)) = rows * k
     \<and> (\<forall>r\<in>set rs. row_answer h (stored_row pe idx input r) flt k (slice (fst (snd s)) k r) (slice (snd (snd s)) k r))"

text \<open>Why a row fails: the search finds fewer than \<open>k\<close> elements.\<close>

definition too_few :: "'f::linordered_field py_env \<Rightarrow> 'f py_index \<Rightarrow> 'f hnsw \<Rightarrow> 'f ndarray \<Rightarrow> nat \<Rightarrow> filter_functor \<Rightarrow> nat \<Rightarrow> py_error \<Rightarrow> bool" where
  "too_few pe idx h input k flt r e \<longleftrightarrow>
     e = Runtime_error ''Cannot return the results in a contiguous 2D array. Probably ef or M is too small''
     \<and> (\<exists>h1 q h2. search_frame h h1 \<and> searchKnn (penv pe) h1 (stored_row pe idx input r) k flt = Inr (q, h2) \<and> length q < k)"

lemma query_row_step:
  assumes ok: "queryable idx h input rows k" and inv: "answered pe idx h input rows k flt s rs"
    and r: "r < rows" "r \<notin> set rs" and t: "t < n"
  shows "case query_row pe idx input (py_dim idx) k n flt r t s of
      (s', None) \<Rightarrow> answered pe idx h input rows k flt s' (rs @ [r])
    | (s', Some e) \<Rightarrow> answered pe idx h input rows k flt s' rs \<and> too_few pe idx h input k flt r e"
proof -
  obtain h1 ds ls where s: "s = (h1, ds, ls)" by (cases s)
  let ?q = "stored_row pe idx input r"
  have fr: "search_frame h h1" and len: "length ds = rows * k" "length ls = rows * k"
    and old: "\<forall>r\<in>set rs. row_answer h (stored_row pe idx input r) flt k (slice ds k r) (slice ls k r)"
    using inv by (simp_all add: answered_def s)
  have k: "k < 2 ^ 31" and row: "row_vec input r (py_dim idx) = Inr (row_at input (py_dim idx) r)"
    using ok row_vec_ok(1) [where input = input and d = "py_dim idx", OF _ _ r(1)] by (simp_all add: queryable_def)
  have wf1: "hnsw_wf h1" using search_frame_hnsw_wf [OF fr] ok by (simp add: queryable_def)
  then obtain q h2 where run: "searchKnn (penv pe) h1 ?q k flt = Inr (q, h2)" "search_frame h1 h2" "length q \<le> k"
    using searchKnn_returns [of h1 "penv pe" ?q k flt] by blast
  have "Suc t * py_dim idx \<le> n * py_dim idx" using t by (intro mult_le_mono1) simp
  then have body: "query_row pe idx input (py_dim idx) k n flt r t s =
      (if length q \<noteq> k
       then ((h2, ds, ls), Some (Runtime_error ''Cannot return the results in a contiguous 2D array. Probably ef or M is too small''))
       else (case store_row (r * k) k q (ds, ls) of Inl e \<Rightarrow> ((h2, ds, ls), Some e) | Inr arr \<Rightarrow> ((h2, arr), None)))"
    using run(1) row by (cases "normalize idx") (simp_all add: query_row_def s stored_row_def liftH_def loop_count [OF k] split: sum.split)
  have fr2: "search_frame h h2" by (rule search_frame_trans [OF fr run(2)])
  show ?thesis
  proof (cases "length q = k")
    case False
    then have "too_few pe idx h input k flt r (Runtime_error ''Cannot return the results in a contiguous 2D array. Probably ef or M is too small'')"
      using run fr unfolding too_few_def by (intro conjI refl exI [of _ h1] exI [of _ q] exI [of _ h2]) simp_all
    then show ?thesis using False fr2 len old by (simp add: body answered_def)
  next
    case True
    let ?ds = "rev (map fst (pq_drain pair_less q))" and ?ls = "rev (map snd (pq_drain pair_less q))"
    have bound: "r * k + k \<le> rows * k" using mult_le_mono1 [of "Suc r" rows k] r(1) by simp
    have lens: "length ?ds = k" "length ?ls = k" using True by (simp_all add: heap_simps)
    have "row_answer h ?q flt k ?ds ?ls"
      using searchKnn_row_answer [OF wf1 run(1) True] row_answer_frame [OF fr] by blast
    moreover define ds' ls' where "ds' = take (r * k) ds @ ?ds @ drop (r * k + k) ds" and "ls' = take (r * k) ls @ ?ls @ drop (r * k + k) ls"
    moreover have "length ds' = rows * k" "length ls' = rows * k" "slice ds' k r = ?ds" "slice ls' k r = ?ls"
      using slice_store(1,3) [OF lens(1), of r ds] slice_store(1,3) [OF lens(2), of r ls] bound len by (simp_all add: ds'_def ls'_def)
    moreover have "slice ds' k x = slice ds k x \<and> slice ls' k x = slice ls k x" if "x \<in> set rs" for x
      using slice_store(2) [OF lens(1), of r ds x] slice_store(2) [OF lens(2), of r ls x] that r(2) bound len
      by (auto simp: ds'_def ls'_def)
    moreover have "store_row (r * k) k q (ds, ls) = Inr (ds', ls')"
      using store_row_drain [OF True] bound len by (simp add: ds'_def ls'_def)
    ultimately show ?thesis using True fr2 old by (simp add: body answered_def)
  qed
qed


subsection \<open>An example\<close>

text \<open>The index of the module after the first point, and a query.\<close>

lemma demo_py_one:
  "\<exists>idx h. appr_alg idx = Some h \<and> usable h \<and> py_dim idx = 2 \<and> \<not> normalize idx \<and> cur_element_count h = 1
    \<and> deleted_ids h = {} \<and> label_lookup h = [0 \<mapsto> 0] \<and> space_name (idx :: rat py_index) = ''l2''"
proof -
  obtain idx idx1 and h :: "rat hnsw" where new: "new_Index demo_py ''l2'' 2 = Inr idx" "init_new_index demo_py idx 5 2 10 100 False = Inr idx1"
    and us: "usable h" and f: "py_dim idx1 = 2" "cur_l idx1 = 0" "cur_element_count h = 0" "max_elements h = 5" "hn_data_size h = 8"
      "label_lookup h = Map.empty" "\<not> normalize idx1"
    using demo_py_new by blast
  have env: "env_ok (penv demo_py)" by (simp add: env_ok_def demo_py_def)
  have fb: "\<forall>x. length (float_bytes demo_py x) = 4" by (simp add: demo_py_def)
  let ?in = "\<lparr>nd_shape = [1, 2], nd_data = [1, 2]\<rparr> :: rat ndarray"
  have ok: "addable demo_py idx1 h ?in [] 1"
    using us f env fb by (simp add: addable_def deleted_ids_def inj_on_def)
  have "added h (label_of idx1 []) (stored_row demo_py idx1 ?in) h []"
    using us f by (simp add: added_def deleted_ids_def)
  from add_row_step [OF ok this, of 0 0 1] obtain h' where h': "added h (label_of idx1 []) (stored_row demo_py idx1 ?in) h' [0]" by auto
  have l0: "label_of idx1 [] 0 = 0" using f by (simp add: label_of_def)
  obtain i where i: "i < cur_element_count h'" "label_lookup h' 0 = Some i" using h' unfolding added_def by (auto simp: l0)
  have cnt: "cur_element_count h' = 1" "usable h'" "deleted_ids h' = {}" "\<forall>l. l \<noteq> 0 \<longrightarrow> label_lookup h' l = None"
    using h' f by (simp_all add: added_def l0)
  have "label_lookup h' = [0 \<mapsto> 0]" using i cnt by (intro ext) auto
  moreover have "space_name idx1 = ''l2''"
    using new by (auto simp: new_Index_def space_by_name_def init_new_index_def bindE_Inr_iff)
  ultimately show ?thesis using cnt f by (intro exI [of _ "idx1\<lparr>appr_alg := Some h'\<rparr>"] exI [of _ h']) simp
qed


subsection \<open>Cases the code does not test\<close>

text \<open>\<open>addItems\<close> compares the number of features with the dimension; \<open>knn_query\<close> does not, and a shorter query is read
  past its end.\<close>

lemma addItems_wrong_dimension:
  "nd_shape input = [rows, n] \<Longrightarrow> n \<noteq> py_dim idx
    \<Longrightarrow> addItems pe sched idx input ids_arg num_threads replace = Some (idx, Some (Runtime_error ''Wrong dimensionality of the vectors''))"
  by (simp add: addItems_def get_input_array_shapes_def)

lemma ParallelFor_one:
  "ParallelFor hw sched 0 1 1 fn s = Some (case fn 0 0 s of (s', None) \<Rightarrow> (s', None) | (s', Some e) \<Rightarrow> (s', Some e))"
  by (simp add: ParallelFor_def)

lemma knnQuery_wrong_dimension:
  assumes "nd_shape input = [1, n]" "length (nd_data input) = n" and "n < py_dim idx" and "appr_alg idx = Some h"
  shows "\<exists>idx'. knnQuery_return_numpy pe sched idx input k 1 flt = Some (idx', Inl (From_hnsw Bad_access))"
proof -
  have "thread_count d 1 1 = 1" for d by (simp add: thread_count_def)
  moreover have "query_row pe idx input n k 1 flt 0 0 s = (s, Some (From_hnsw Bad_access))" for s
    using assms(1-3) by (simp add: query_row_def row_vec_def)
  ultimately show ?thesis
    using assms by (simp add: knnQuery_return_numpy_def get_input_array_shapes_def ParallelFor_one Let_def del: One_nat_def)
qed

text \<open>The brute-force class does not test the number of results: with fewer than \<open>k\<close> it calls \<open>top\<close> on an empty queue.\<close>

lemma store_row_short: "length result < k \<Longrightarrow> store_row base k result arr = Inl (From_hnsw Empty_container)"
proof (induction base k result arr rule: store_row.induct)
  case (2 base i result arr)
  then show ?case by (cases result) (auto simp: heap_simps)
qed simp

lemma bfi_query_short:
  assumes "row_vec items row (bfi_dim idx) = Inr v" and "k < 2 ^ 31"
    and "bf_searchKnn (pndebug pe) (dmax (penv pe)) b (vec_bytes pe v) k flt = Inr result" and "length result < k"
  shows "bfi_query_row pe idx b items k flt row tid arr = (arr, Some (From_hnsw Empty_container))"
  using assms by (simp add: bfi_query_row_def liftB_def loop_count store_row_short)

end
