(* ===== verification/Py_Pickle.thy ===== *)
theory Py_Pickle
  imports Py_Query
begin

text \<open>
  \<open>python_bindings/bindings.cpp\<close>: the state of an \<open>Index\<close> as a Python dictionary (\<open>getAnnData\<close>, \<open>getIndexParams\<close>) and back
  (\<open>setAnnData\<close>, \<open>createFromParams\<close>), which pickling and copying use, and the properties of the class.

  A dictionary maps keys to values; \<open>d[key].cast<T>()\<close> fails for a missing key and for a value that is not a \<open>T\<close>. Arrays of
  numbers are lists of their values, arrays of \<open>char\<close> lists of bytes; \<open>mult_\<close> is the bit pattern of the \<open>double\<close>.
  Reads and writes outside an array are errors of the model.
\<close>

datatype pyval = PyInt int | PyDouble nat | PyBool bool | PyStr string | PyInts "nat list" | PyBytes "byte list"

type_synonym pydict = "string \<rightharpoonup> pyval"

definition cast_with :: "(pyval \<Rightarrow> 'a option) \<Rightarrow> pydict \<Rightarrow> string \<Rightarrow> py_error + 'a" where
  "cast_with f d key =
     (case d key of None \<Rightarrow> Inl (Key_error key)
      | Some v \<Rightarrow> (case f v of None \<Rightarrow> Inl (Cast_error key) | Some x \<Rightarrow> Inr x))"

definition cast_size :: "pydict \<Rightarrow> string \<Rightarrow> py_error + nat" where
  "cast_size = cast_with (\<lambda>v. case v of PyInt n \<Rightarrow> if 0 \<le> n \<and> n < 2 ^ 64 then Some (nat n) else None | _ \<Rightarrow> None)"

definition cast_int :: "pydict \<Rightarrow> string \<Rightarrow> py_error + int" where
  "cast_int = cast_with (\<lambda>v. case v of PyInt n \<Rightarrow> if - (2 ^ 31) \<le> n \<and> n < 2 ^ 31 then Some n else None | _ \<Rightarrow> None)"

definition cast_tableint :: "pydict \<Rightarrow> string \<Rightarrow> py_error + tableint" where
  "cast_tableint = cast_with (\<lambda>v. case v of PyInt n \<Rightarrow> if 0 \<le> n \<and> n < 2 ^ 32 then Some (nat n) else None | _ \<Rightarrow> None)"

definition cast_double :: "pydict \<Rightarrow> string \<Rightarrow> py_error + nat" where
  "cast_double = cast_with (\<lambda>v. case v of PyDouble n \<Rightarrow> Some n | _ \<Rightarrow> None)"

definition cast_bool :: "pydict \<Rightarrow> string \<Rightarrow> py_error + bool" where
  "cast_bool = cast_with (\<lambda>v. case v of PyBool b \<Rightarrow> Some b | _ \<Rightarrow> None)"

definition cast_str :: "pydict \<Rightarrow> string \<Rightarrow> py_error + string" where
  "cast_str = cast_with (\<lambda>v. case v of PyStr s \<Rightarrow> Some s | _ \<Rightarrow> None)"

definition cast_ints :: "pydict \<Rightarrow> string \<Rightarrow> py_error + nat list" where
  "cast_ints = cast_with (\<lambda>v. case v of PyInts xs \<Rightarrow> Some xs | _ \<Rightarrow> None)"

definition cast_chars :: "pydict \<Rightarrow> string \<Rightarrow> py_error + byte list" where
  "cast_chars = cast_with (\<lambda>v. case v of PyBytes bs \<Rightarrow> Some bs | _ \<Rightarrow> None)"

lemmas cast_defs = cast_with_def cast_size_def cast_int_def cast_tableint_def cast_double_def cast_bool_def cast_str_def
  cast_ints_def cast_chars_def

subsection \<open>The index as a dictionary\<close>

definition npy_list_size :: "'f hnsw \<Rightarrow> nat \<Rightarrow> nat" where
  "npy_list_size h i = (if 0 < lvl h i then size_links_per_element h * lvl h i else 0) mod 2 ^ 64"

text \<open>The loop over the sizes of the link lists: the offset of each list and the total.\<close>

definition npy_offsets :: "(nat \<Rightarrow> nat) \<Rightarrow> nat \<Rightarrow> nat list \<times> nat" where
  "npy_offsets sz n =
     foldl (\<lambda>(offs, total) i. (offs @ [total], if sz i \<noteq> 0 then (total + sz i) mod 2 ^ 64 else total)) ([], 0) [0..<n]"

text \<open>The loop that copies the lists into the zeroed array.\<close>

definition npy_lists :: "'f hnsw \<Rightarrow> byte list" where
  "npy_lists h =
     (let (offs, total) = npy_offsets (npy_list_size h) (cur_element_count h) in
      foldl (\<lambda>mem i. if npy_list_size h i \<noteq> 0
                     then put_bytes mem (offs ! i) (take (npy_list_size h i) (concat (map links_bytes (linkLists h ! i)))) else mem)
        (replicate total 0) [0..<cur_element_count h])"

definition getAnnData :: "'f py_env \<Rightarrow> 'f hnsw \<Rightarrow> pydict" where
  "getAnnData pe h =
     (let level0_npy_size = cur_element_count h * size_data_per_element h mod 2 ^ 64;
          lookup = umap_iter pe (label_lookup h)
      in [''offset_level0'' \<mapsto> PyInt (int (offsetLevel0 h)),
          ''max_elements'' \<mapsto> PyInt (int (max_elements h)),
          ''cur_element_count'' \<mapsto> PyInt (int (cur_element_count h)),
          ''size_data_per_element'' \<mapsto> PyInt (int (size_data_per_element h)),
          ''label_offset'' \<mapsto> PyInt (int (label_offset h)),
          ''offset_data'' \<mapsto> PyInt (int (offsetData h)),
          ''max_level'' \<mapsto> PyInt (maxlevel h),
          ''enterpoint_node'' \<mapsto> PyInt (int (enterpoint_node h)),
          ''max_M'' \<mapsto> PyInt (int (maxM h)),
          ''max_M0'' \<mapsto> PyInt (int (maxM0 h)),
          ''M'' \<mapsto> PyInt (int (hnM h)),
          ''mult'' \<mapsto> PyDouble (hnMult h),
          ''ef_construction'' \<mapsto> PyInt (int (ef_construction h)),
          ''ef'' \<mapsto> PyInt (int (hnEf h)),
          ''has_deletions'' \<mapsto> PyBool (num_deleted h \<noteq> 0),
          ''size_links_per_element'' \<mapsto> PyInt (int (size_links_per_element h)),
          ''allow_replace_deleted'' \<mapsto> PyBool (allow_replace_deleted h),
          ''label_lookup_external'' \<mapsto> PyInts (map fst lookup),
          ''label_lookup_internal'' \<mapsto> PyInts (map snd lookup),
          ''element_levels'' \<mapsto> PyInts (element_levels h),
          ''data_level0'' \<mapsto> PyBytes (take level0_npy_size (concat (map elem_bytes (data_level0 h)))),
          ''link_lists'' \<mapsto> PyBytes (npy_lists h)])"

definition getIndexParams :: "'f py_env \<Rightarrow> 'f py_index \<Rightarrow> py_error + pydict" where
  "getIndexParams pe idx =
     (let params =
        [''ser_version'' \<mapsto> PyInt 1,
         ''space'' \<mapsto> PyStr (space_name idx),
         ''dim'' \<mapsto> PyInt (int (py_dim idx)),
         ''index_inited'' \<mapsto> PyBool (index_inited idx),
         ''ep_added'' \<mapsto> PyBool (ep_added idx),
         ''normalize'' \<mapsto> PyBool (normalize idx),
         ''num_threads'' \<mapsto> PyInt (num_threads_default idx),
         ''seed'' \<mapsto> PyInt (int (seed idx))]
      in if \<not> index_inited idx then Inr (params(''ef'' \<mapsto> PyInt (int (default_ef idx))))
         else bindE (the_alg idx) (\<lambda>h. Inr (params ++ getAnnData pe h)))"

subsection \<open>The index from a dictionary\<close>

definition assert_true :: "bool \<Rightarrow> string \<Rightarrow> py_error + unit" where
  "assert_true expr msg = guardE expr (Runtime_error (''Unpickle Error: '' @ msg))"

definition assert_size :: "nat \<Rightarrow> pydict \<Rightarrow> string \<Rightarrow> string \<Rightarrow> py_error + unit" where
  "assert_size v d key msg = bindE (cast_size d key) (\<lambda>n. assert_true (v = n) msg)"

text \<open>
  \<open>label_lookup_.insert\<close> keeps a label that is there. The test that an internal id is not negative is never true, since the
  ids are unsigned.
\<close>

definition restore_label :: "nat list \<Rightarrow> nat list \<Rightarrow> (labeltype \<rightharpoonup> tableint) \<Rightarrow> nat \<Rightarrow> py_error + (labeltype \<rightharpoonup> tableint)" where
  "restore_label keys vals m i =
     (if length keys \<le> i \<or> length vals \<le> i then Inl (From_hnsw Bad_access)
      else Inr (if m (keys ! i) = None then m(keys ! i \<mapsto> vals ! i) else m))"

text \<open>The loop that allocates and fills the link lists of all elements up to \<open>max_elements_\<close>.\<close>

definition restore_list :: "'f py_env \<Rightarrow> nat list \<Rightarrow> byte list \<Rightarrow> 'f hnsw \<Rightarrow> nat \<Rightarrow> py_error + 'f hnsw" where
  "restore_list pe offs bytes h i =
     (let sz = npy_list_size h i in
      if sz = 0 then Inr (h\<lparr>linkLists := (linkLists h)[i := []]\<rparr>)
      else bindE (guardE (malloc_ok (penv pe) sz) (Runtime_error ''Not enough memory: loadIndex failed to allocate linklist'')) (\<lambda>_.
           bindE (guardE (i < length offs \<and> offs ! i + sz \<le> length bytes) (From_hnsw Bad_access)) (\<lambda>_.
           Inr (h\<lparr>linkLists := (linkLists h)[i := map (\<lambda>k. read_links (get_bytes bytes (offs ! i) sz) (k * size_links_per_element h) (maxM h))
                    [0..<lvl h i]]\<rparr>))))"

text \<open>
  \<open>memcpy\<close> of the level-0 block: the elements it reaches are read from the new bytes, the others stay.
\<close>

definition restore_level0 :: "'f hnsw \<Rightarrow> byte list \<Rightarrow> elem list" where
  "restore_level0 h level0 =
     (let mem = concat (map elem_bytes (data_level0 h));
          mem = level0 @ drop (length level0) mem
      in map (\<lambda>i. if i * size_data_per_element h < length level0 then read_elem h mem i else data_level0 h ! i) [0..<max_elements h])"

definition setAnnData :: "'f py_env \<Rightarrow> pydict \<Rightarrow> 'f hnsw \<Rightarrow> py_error + 'f hnsw" where
  "setAnnData pe d h =
     bindE (assert_size (offsetLevel0 h) d ''offset_level0'' ''Invalid value of offsetLevel0_ '') (\<lambda>_.
     bindE (assert_size (max_elements h) d ''max_elements'' ''Invalid value of max_elements_ '') (\<lambda>_.
     bindE (cast_size d ''cur_element_count'') (\<lambda>cur.
     let h = h\<lparr>cur_element_count := cur\<rparr> in
     bindE (assert_size (size_data_per_element h) d ''size_data_per_element'' ''Invalid value of size_data_per_element_ '') (\<lambda>_.
     bindE (assert_size (label_offset h) d ''label_offset'' ''Invalid value of label_offset_ '') (\<lambda>_.
     bindE (assert_size (offsetData h) d ''offset_data'' ''Invalid value of offsetData_ '') (\<lambda>_.
     bindE (cast_int d ''max_level'') (\<lambda>lev.
     bindE (cast_tableint d ''enterpoint_node'') (\<lambda>ep.
     let h = h\<lparr>maxlevel := lev, enterpoint_node := ep\<rparr> in
     bindE (assert_size (maxM h) d ''max_M'' ''Invalid value of maxM_ '') (\<lambda>_.
     bindE (assert_size (maxM0 h) d ''max_M0'' ''Invalid value of maxM0_ '') (\<lambda>_.
     bindE (assert_size (hnM h) d ''M'' ''Invalid value of M_ '') (\<lambda>_.
     bindE (cast_double d ''mult'') (\<lambda>mult.
     bindE (assert_true (hnMult h = mult) ''Invalid value of mult_ '') (\<lambda>_.
     bindE (assert_size (ef_construction h) d ''ef_construction'' ''Invalid value of ef_construction_ '') (\<lambda>_.
     bindE (cast_size d ''ef'') (\<lambda>ef.
     let h = h\<lparr>hnEf := ef\<rparr> in
     bindE (assert_size (size_links_per_element h) d ''size_links_per_element'' ''Invalid value of size_links_per_element_ '') (\<lambda>_.
     bindE (cast_ints d ''label_lookup_external'') (\<lambda>keys.
     bindE (cast_ints d ''label_lookup_internal'') (\<lambda>vals.
     bindE (cast_ints d ''element_levels'') (\<lambda>levels.
     bindE (cast_chars d ''data_level0'') (\<lambda>level0.
     bindE (cast_chars d ''link_lists'') (\<lambda>links.
     bindE (foldE (restore_label keys vals) (label_lookup h) [0..<cur]) (\<lambda>lookup.
     let h = h\<lparr>label_lookup := lookup\<rparr> in
     bindE (guardE (length levels \<le> length (element_levels h)) (From_hnsw Bad_access)) (\<lambda>_.
     let h = h\<lparr>element_levels := levels @ drop (length levels) (element_levels h)\<rparr> in
     bindE (guardE (cur \<le> length (element_levels h)) (From_hnsw Bad_access)) (\<lambda>_.
     let (offs, total) = npy_offsets (npy_list_size h) cur in
     bindE (guardE (length level0 \<le> max_elements h * size_data_per_element h) (From_hnsw Bad_access)) (\<lambda>_.
     let h = h\<lparr>data_level0 := restore_level0 h level0\<rparr> in
     bindE (foldE (restore_list pe offs links) h [0..<max_elements h]) (\<lambda>h.
     bindE (if ''allow_replace_deleted'' \<in> dom d then cast_bool d ''allow_replace_deleted'' else Inr False) (\<lambda>allow.
     let h = h\<lparr>allow_replace_deleted := allow, num_deleted := 0\<rparr> in
     bindE (cast_bool d ''has_deletions'') (\<lambda>has_deletions.
       if has_deletions then liftH (foldE count_deleted h [0..<cur]) else Inr h))))))))))))))))))))))))))))"

definition createFromParams :: "'f::linordered_field py_env \<Rightarrow> pydict \<Rightarrow> py_error + 'f py_index" where
  "createFromParams pe d =
     bindE (cast_int d ''ser_version'') (\<lambda>version.
     bindE (assert_true (1 \<ge> version) ''Invalid serialization version!'') (\<lambda>_.
     bindE (cast_str d ''space'') (\<lambda>name.
     bindE (cast_int d ''dim'') (\<lambda>dm.
     bindE (cast_bool d ''index_inited'') (\<lambda>inited.
     bindE (new_Index pe name (nat (dm mod 2 ^ 64))) (\<lambda>idx.
     bindE (cast_size d ''seed'') (\<lambda>sd.
     let idx = idx\<lparr>seed := sd\<rparr> in
     bindE (if inited then
              bindE (cast_size d ''max_elements'') (\<lambda>max_els.
              bindE (cast_size d ''M'') (\<lambda>M.
              bindE (cast_size d ''ef_construction'') (\<lambda>efc.
              bindE (liftH (new_HierarchicalNSW (penv pe) (pmult pe) (l2space idx) max_els M efc False)) (\<lambda>h.
              bindE (cast_size d ''cur_element_count'') (\<lambda>cur.
                Inr (idx\<lparr>appr_alg := Some h, cur_l := cur\<rparr>))))))
            else Inr idx) (\<lambda>idx.
     bindE (cast_bool d ''ep_added'') (\<lambda>ep.
     bindE (cast_int d ''num_threads'') (\<lambda>nt.
     bindE (cast_size d ''ef'') (\<lambda>ef.
     let idx = idx\<lparr>index_inited := inited, ep_added := ep, num_threads_default := nt, default_ef := ef\<rparr> in
     if inited then bindE (the_alg idx) (\<lambda>h. bindE (setAnnData pe d h) (\<lambda>h. Inr (idx\<lparr>appr_alg := Some h\<rparr>)))
     else Inr idx)))))))))))"

definition createFromIndex :: "'f::linordered_field py_env \<Rightarrow> 'f py_index \<Rightarrow> py_error + 'f py_index" where
  "createFromIndex pe idx = bindE (getIndexParams pe idx) (createFromParams pe)"

text \<open>\<open>__setstate__\<close> takes a tuple with one dictionary.\<close>

definition setstate :: "'f::linordered_field py_env \<Rightarrow> pydict list \<Rightarrow> py_error + 'f py_index" where
  "setstate pe t = (case t of [d] \<Rightarrow> createFromParams pe d | _ \<Rightarrow> Inl (Runtime_error ''Invalid state!''))"

definition getstate :: "'f py_env \<Rightarrow> 'f py_index \<Rightarrow> py_error + pydict list" where
  "getstate pe idx = bindE (getIndexParams pe idx) (\<lambda>d. Inr [d])"

subsection \<open>Properties of the class\<close>

definition prop_of :: "('f hnsw \<Rightarrow> nat) \<Rightarrow> nat \<Rightarrow> 'f py_index \<Rightarrow> py_error + nat" where
  "prop_of f v idx = (if index_inited idx then bindE (the_alg idx) (\<lambda>h. Inr (f h)) else Inr v)"

definition prop_ef :: "'f py_index \<Rightarrow> py_error + nat" where
  "prop_ef idx = prop_of hnEf (default_ef idx) idx"

definition prop_set_ef :: "nat \<Rightarrow> 'f py_index \<Rightarrow> 'f py_index" where
  "prop_set_ef ef idx = idx\<lparr>default_ef := ef, appr_alg := map_option (\<lambda>h. h\<lparr>hnEf := ef\<rparr>) (appr_alg idx)\<rparr>"

definition prop_max_elements :: "'f py_index \<Rightarrow> py_error + nat" where
  "prop_max_elements = prop_of max_elements 0"

definition prop_element_count :: "'f py_index \<Rightarrow> py_error + nat" where
  "prop_element_count = prop_of cur_element_count 0"

definition prop_ef_construction :: "'f py_index \<Rightarrow> py_error + nat" where
  "prop_ef_construction = prop_of ef_construction 0"

definition prop_M :: "'f py_index \<Rightarrow> py_error + nat" where
  "prop_M = prop_of hnM 0"

subsection \<open>Blocks of different sizes in one array\<close>

definition offset_of :: "(nat \<Rightarrow> nat) \<Rightarrow> nat \<Rightarrow> nat" where
  "offset_of sz i = sum_list (map sz [0..<i])"

lemma offset_of_simps [simp]: "offset_of sz 0 = 0" "offset_of sz (Suc i) = offset_of sz i + sz i"
  by (simp_all add: offset_of_def)

lemma offset_of_mono: "i \<le> n \<Longrightarrow> offset_of sz i \<le> offset_of sz n"
  by (induction rule: dec_induct) simp_all

lemma npy_offsets_sum:
  assumes "offset_of sz n < 2 ^ 64"
  shows "npy_offsets sz n = (map (offset_of sz) [0..<n], offset_of sz n)"
  using assms by (induction n) (simp_all add: npy_offsets_def)

lemma length_blocks: "\<forall>i<n. length (blk i) = sz i \<Longrightarrow> length (concat (map blk [0..<n])) = offset_of sz n"
  by (induction n) simp_all

lemma get_blocks:
  assumes "\<forall>j<n. length (blk j) = sz j" and "i < n"
  shows "get_bytes (concat (map blk [0..<n])) (offset_of sz i) (sz i) = blk i"
    "offset_of sz i + sz i \<le> length (concat (map blk [0..<n]))"
proof -
  have upt: "[0..<n] = [0..<i] @ i # [Suc i..<n]" 
    using assms(2) by (metis less_imp_le_nat upt_add_eq_append upt_conv_Cons le_add_diff_inverse zero_le)
  have "length (concat (map blk [0..<i])) = offset_of sz i" using length_blocks [of i blk sz] assms by simp
  then show "get_bytes (concat (map blk [0..<n])) (offset_of sz i) (sz i) = blk i"
    unfolding upt get_bytes_def using assms by simp
  show "offset_of sz i + sz i \<le> length (concat (map blk [0..<n]))"
    using offset_of_mono [of "Suc i" n sz] assms length_blocks [OF assms(1)] by simp
qed

lemma put_blocks:
  assumes len: "\<forall>i<n. length (blk i) = sz i" and "m \<le> n"
  shows "foldl (\<lambda>mem i. if sz i \<noteq> 0 then put_bytes mem (map (offset_of sz) [0..<n] ! i) (blk i) else mem)
      (replicate (offset_of sz n) 0) [0..<m]
    = concat (map blk [0..<m]) @ replicate (offset_of sz n - offset_of sz m) 0"
  using assms(2)
proof (induction m)
  case (Suc m)
  have l: "length (concat (map blk [0..<m])) = offset_of sz m" using length_blocks [of m blk sz] len Suc.prems by simp
  have le: "offset_of sz m + sz m \<le> offset_of sz n" using offset_of_mono [of "Suc m" n sz] Suc.prems by simp
  have b: "length (blk m) = sz m" using len Suc.prems by simp
  show ?case
    using Suc l le b by (cases "sz m = 0") (simp_all add: put_bytes_def)
qed simp

subsection \<open>The dictionary of a well-formed index\<close>

text \<open>The bytes of the link lists of an element.\<close>

definition upper_bytes :: "'f hnsw \<Rightarrow> nat \<Rightarrow> byte list" where
  "upper_bytes h i = (if lvl h i = 0 then [] else concat (map links_bytes (linkLists h ! i)))"

lemma npy_list_size_fits:
  assumes "file_fits h" and "i < cur_element_count h"
  shows "npy_list_size h i = size_links_per_element h * lvl h i"
proof -
  have "size_links_per_element h * lvl h i < 2 ^ 32" using assms by (simp add: file_fits_def)
  then have "size_links_per_element h * lvl h i < 2 ^ 64" by (rule less_trans) simp
  then show ?thesis by (simp add: npy_list_size_def)
qed

lemma length_upper_bytes:
  assumes "links_wf h" and "layout_wf h" and "file_fits h"
  shows "\<forall>i<cur_element_count h. length (upper_bytes h i) = npy_list_size h i"
  using length_lists(2) [OF assms(1,2)] npy_list_size_fits [OF assms(3)] by (simp add: upper_bytes_def)

lemma upper_bytes_total:
  assumes wf: "links_wf h" and lay: "layout_wf h" and fits: "file_fits h"
  shows "offset_of (npy_list_size h) (cur_element_count h) < 2 ^ 64"
proof -
  have "offset_of (npy_list_size h) n \<le> length (concat (map (list_bytes h) [0..<n]))" if "n \<le> cur_element_count h" for n
    using that
  proof (induction n)
    case (Suc n)
    then show ?case
      using length_list_bytes [OF wf lay fits, of n] npy_list_size_fits [OF fits, of n] linkListSize_fits(1) [OF fits, of n] by simp
  qed simp
  from this [OF order_refl] have "offset_of (npy_list_size h) (cur_element_count h) \<le> length (saveIndex h)"
    using saveIndex_bytes [OF wf lay] fits by (simp add: file_fits_def)
  also have "\<dots> < 2 ^ 64" using fits by (simp add: file_fits_def)
  finally show ?thesis .
qed

lemma npy_lists_bytes:
  assumes wf: "links_wf h" and lay: "layout_wf h" and fits: "file_fits h"
  shows "npy_lists h = concat (map (upper_bytes h) [0..<cur_element_count h])"
proof -
  let ?sz = "npy_list_size h" and ?n = "cur_element_count h"
  have step: "(if ?sz i \<noteq> 0 then put_bytes mem (offs ! i) (take (?sz i) (concat (map links_bytes (linkLists h ! i)))) else mem)
      = (if ?sz i \<noteq> 0 then put_bytes mem (offs ! i) (upper_bytes h i) else mem)" if "i < ?n" for mem offs i
    using length_upper_bytes [OF assms] npy_list_size_fits [OF fits that] that by (auto simp: upper_bytes_def)
  have "npy_lists h = foldl (\<lambda>mem i. if ?sz i \<noteq> 0 then put_bytes mem (map (offset_of ?sz) [0..<?n] ! i) (upper_bytes h i) else mem)
      (replicate (offset_of ?sz ?n) 0) [0..<?n]"
    unfolding npy_lists_def npy_offsets_sum [OF upper_bytes_total [OF assms]] Let_def split
    by (rule foldl_cong) (use step in auto)
  then show ?thesis using put_blocks [OF length_upper_bytes [OF assms] order_refl] by simp
qed

lemma npy_level0_bytes:
  assumes wf: "links_wf h" and lay: "layout_wf h" and fits: "file_fits h"
  shows "take (cur_element_count h * size_data_per_element h mod 2 ^ 64) (concat (map elem_bytes (data_level0 h))) = level0_bytes h"
proof -
  have "cur_element_count h * size_data_per_element h \<le> max_elements h * size_data_per_element h" using wf by (simp add: links_wf_def)
  also have "\<dots> < 2 ^ 64" using fits by (simp add: file_fits_def)
  finally show ?thesis
    using take_concat_blocks [of "cur_element_count h" "map elem_bytes (data_level0 h)" "size_data_per_element h"]
      saved_blocks [OF wf lay] by (simp add: level0_bytes_def take_map)
qed

text \<open>
  Iterating over a hash map yields each of its entries once, in some order.
\<close>

definition iter_ok :: "'f py_env \<Rightarrow> bool" where
  "iter_ok pe \<longleftrightarrow> (\<forall>m. finite (dom m) \<longrightarrow> distinct (map fst (umap_iter pe m)) \<and> set (umap_iter pe m) = {(k, v). m k = Some v})"

lemma iter_ok_map:
  assumes "iter_ok pe" and "finite (dom m)"
  shows "map_of (umap_iter pe m) = m" "distinct (map fst (umap_iter pe m))" "length (umap_iter pe m) = card (dom m)"
proof -
  have it: "distinct (map fst (umap_iter pe m))" "set (umap_iter pe m) = {(k, v). m k = Some v}" using assms by (auto simp: iter_ok_def)
  show "distinct (map fst (umap_iter pe m))" by (rule it(1))
  show "map_of (umap_iter pe m) = m"
  proof
    fix k
    show "map_of (umap_iter pe m) k = m k"
      using it by (cases "m k") (auto simp: map_of_eq_None_iff map_of_eq_Some_iff)
  qed
  have "set (map fst (umap_iter pe m)) = dom m" using it(2) by force
  then show "length (umap_iter pe m) = card (dom m)" using distinct_card [OF it(1)] by simp
qed

lemma labels_dom:
  assumes "labels_wf h"
  shows "finite (dom (label_lookup h))" "card (dom (label_lookup h)) = cur_element_count h"
proof -
  let ?l = "\<lambda>i. e_label (data_level0 h ! i)"
  have dom: "dom (label_lookup h) = ?l ` {..<cur_element_count h}"
    using assms unfolding labels_wf_def dom_def by (auto simp: image_iff)
  then show "finite (dom (label_lookup h))" by simp
  have "inj_on ?l {..<cur_element_count h}" using label_inj [OF assms] by (auto simp: inj_on_def)
  then show "card (dom (label_lookup h)) = cur_element_count h" by (simp add: dom card_image)
qed

lemma restore_labels:
  assumes "distinct (map fst ps)" and "n \<le> length ps"
  shows "foldE (restore_label (map fst ps) (map snd ps)) Map.empty [0..<n] = Inr (map_of (take n ps))"
  using assms(2)
proof (induction n)
  case (Suc n)
  have "fst (ps ! n) \<notin> set (map fst (take n ps))"
    using assms(1) Suc.prems by (metis Suc_le_lessD distinct_take drop_map id_take_nth_drop disjoint_iff distinct_append length_map list.set_intros(1) nth_map take_map)
  then have "map_of (take n ps) (fst (ps ! n)) = None" by (simp add: map_of_eq_None_iff)
  then have "map_of (take (Suc n) ps) = (map_of (take n ps))(fst (ps ! n) \<mapsto> snd (ps ! n))"
    using Suc.prems by (auto simp: take_Suc_conv_app_nth map_of_append fun_eq_iff map_add_def split: option.splits)
  then show ?case
    using Suc \<open>map_of (take n ps) (fst (ps ! n)) = None\<close> by (simp add: foldE_append restore_label_def fun_upd_def)
qed simp

subsection \<open>Restoring\<close>

text \<open>The numbers of the dictionary fit their types.\<close>

definition dict_fits :: "'f hnsw \<Rightarrow> bool" where
  "dict_fits h \<longleftrightarrow> file_fits h \<and> hnEf h < 2 ^ 64 \<and> (\<forall>i<max_elements h. cur_element_count h \<le> i \<longrightarrow> lvl h i = 0)"

lemma ann_casts:
  assumes d: "getAnnData pe h \<subseteq>\<^sub>m d" and wf: "hnsw_wf h" and lay: "layout_wf h" and fits: "dict_fits h"
  shows "cast_size d ''offset_level0'' = Inr (offsetLevel0 h)" "cast_size d ''max_elements'' = Inr (max_elements h)"
    "cast_size d ''cur_element_count'' = Inr (cur_element_count h)" "cast_size d ''size_data_per_element'' = Inr (size_data_per_element h)"
    "cast_size d ''label_offset'' = Inr (label_offset h)" "cast_size d ''offset_data'' = Inr (offsetData h)"
    "cast_int d ''max_level'' = Inr (maxlevel h)" "cast_tableint d ''enterpoint_node'' = Inr (enterpoint_node h)"
    "cast_size d ''max_M'' = Inr (maxM h)" "cast_size d ''max_M0'' = Inr (maxM0 h)" "cast_size d ''M'' = Inr (hnM h)"
    "cast_double d ''mult'' = Inr (hnMult h)" "cast_size d ''ef_construction'' = Inr (ef_construction h)"
    "cast_size d ''ef'' = Inr (hnEf h)" "cast_bool d ''has_deletions'' = Inr (num_deleted h \<noteq> 0)"
    "cast_size d ''size_links_per_element'' = Inr (size_links_per_element h)"
    "cast_bool d ''allow_replace_deleted'' = Inr (allow_replace_deleted h)" "''allow_replace_deleted'' \<in> dom d"
    "cast_ints d ''label_lookup_external'' = Inr (map fst (umap_iter pe (label_lookup h)))"
    "cast_ints d ''label_lookup_internal'' = Inr (map snd (umap_iter pe (label_lookup h)))"
    "cast_ints d ''element_levels'' = Inr (element_levels h)" "cast_chars d ''data_level0'' = Inr (level0_bytes h)"
    "cast_chars d ''link_lists'' = Inr (concat (map (upper_bytes h) [0..<cur_element_count h]))"
proof -
  have links: "links_wf h" and ff: "file_fits h" using wf fits by (simp_all add: hnsw_wf_def dict_fits_def)
  have le: "d k = Some v" if "getAnnData pe h k = Some v" for k v using d that by (auto simp: map_le_def dom_def) 
  have e: "d ''offset_level0'' = Some (PyInt (int (offsetLevel0 h)))" "d ''max_elements'' = Some (PyInt (int (max_elements h)))"
    "d ''cur_element_count'' = Some (PyInt (int (cur_element_count h)))"
    "d ''size_data_per_element'' = Some (PyInt (int (size_data_per_element h)))"
    "d ''label_offset'' = Some (PyInt (int (label_offset h)))" "d ''offset_data'' = Some (PyInt (int (offsetData h)))"
    "d ''max_level'' = Some (PyInt (maxlevel h))" "d ''enterpoint_node'' = Some (PyInt (int (enterpoint_node h)))"
    "d ''max_M'' = Some (PyInt (int (maxM h)))" "d ''max_M0'' = Some (PyInt (int (maxM0 h)))" "d ''M'' = Some (PyInt (int (hnM h)))"
    "d ''mult'' = Some (PyDouble (hnMult h))" "d ''ef_construction'' = Some (PyInt (int (ef_construction h)))"
    "d ''ef'' = Some (PyInt (int (hnEf h)))" "d ''has_deletions'' = Some (PyBool (num_deleted h \<noteq> 0))"
    "d ''size_links_per_element'' = Some (PyInt (int (size_links_per_element h)))"
    "d ''allow_replace_deleted'' = Some (PyBool (allow_replace_deleted h))"
    "d ''label_lookup_external'' = Some (PyInts (map fst (umap_iter pe (label_lookup h))))"
    "d ''label_lookup_internal'' = Some (PyInts (map snd (umap_iter pe (label_lookup h))))"
    "d ''element_levels'' = Some (PyInts (element_levels h))" "d ''data_level0'' = Some (PyBytes (level0_bytes h))"
    "d ''link_lists'' = Some (PyBytes (concat (map (upper_bytes h) [0..<cur_element_count h])))"
    unfolding npy_level0_bytes [OF links lay ff, symmetric] npy_lists_bytes [OF links lay ff, symmetric]
    by (rule le, simp add: getAnnData_def Let_def)+
  note f = header_fits [OF wf lay ff]
  have "size_links_per_element h < 2 ^ 64" "hnEf h < 2 ^ 64"
    using links lay fits by (simp_all add: links_wf_def layout_wf_def dict_fits_def)
  then show "cast_size d ''offset_level0'' = Inr (offsetLevel0 h)" "cast_size d ''max_elements'' = Inr (max_elements h)"
    "cast_size d ''cur_element_count'' = Inr (cur_element_count h)" "cast_size d ''size_data_per_element'' = Inr (size_data_per_element h)"
    "cast_size d ''label_offset'' = Inr (label_offset h)" "cast_size d ''offset_data'' = Inr (offsetData h)"
    "cast_int d ''max_level'' = Inr (maxlevel h)" "cast_tableint d ''enterpoint_node'' = Inr (enterpoint_node h)"
    "cast_size d ''max_M'' = Inr (maxM h)" "cast_size d ''max_M0'' = Inr (maxM0 h)" "cast_size d ''M'' = Inr (hnM h)"
    "cast_double d ''mult'' = Inr (hnMult h)" "cast_size d ''ef_construction'' = Inr (ef_construction h)"
    "cast_size d ''ef'' = Inr (hnEf h)" "cast_bool d ''has_deletions'' = Inr (num_deleted h \<noteq> 0)"
    "cast_size d ''size_links_per_element'' = Inr (size_links_per_element h)"
    "cast_bool d ''allow_replace_deleted'' = Inr (allow_replace_deleted h)" "''allow_replace_deleted'' \<in> dom d"
    "cast_ints d ''label_lookup_external'' = Inr (map fst (umap_iter pe (label_lookup h)))"
    "cast_ints d ''label_lookup_internal'' = Inr (map snd (umap_iter pe (label_lookup h)))"
    "cast_ints d ''element_levels'' = Inr (element_levels h)" "cast_chars d ''data_level0'' = Inr (level0_bytes h)"
    "cast_chars d ''link_lists'' = Inr (concat (map (upper_bytes h) [0..<cur_element_count h]))"
    using f by (simp_all add: cast_defs e dom_def)
qed

lemma restore_lists:
  assumes wf: "links_wf h" and lay: "layout_wf h" and fits: "dict_fits h" and mem: "\<And>n. malloc_ok (penv pe) n"
    and g: "max_elements g = max_elements h" "element_levels g = element_levels h" "maxM g = maxM h"
      "size_links_per_element g = size_links_per_element h" "linkLists g = replicate (max_elements h) []"
  shows "foldE (restore_list pe (map (offset_of (npy_list_size h)) [0..<cur_element_count h])
      (concat (map (upper_bytes h) [0..<cur_element_count h]))) g [0..<max_elements h]
    = Inr (g\<lparr>linkLists := map (\<lambda>j. if j < cur_element_count h \<and> lvl h j \<noteq> 0 then linkLists h ! j else []) [0..<max_elements h]\<rparr>)"
proof -
  let ?n = "cur_element_count h" and ?mx = "max_elements h" and ?sz = "npy_list_size h"
  let ?fn = "restore_list pe (map (offset_of ?sz) [0..<?n]) (concat (map (upper_bytes h) [0..<?n]))"
  have ff: "file_fits h" using fits by (simp add: dict_fits_def)
  define G where "G i = g\<lparr>linkLists := map (\<lambda>j. if j < i \<and> j < ?n \<and> lvl h j \<noteq> 0 then linkLists h ! j else []) [0..<?mx]\<rparr>" for i
  have sz: "npy_list_size (G i) j = ?sz j" for i j by (simp add: npy_list_size_def G_def g)
  have step: "?fn (G i) i = Inr (G (Suc i))" if i: "i < ?mx" for i
  proof (cases "i < ?n \<and> lvl h i \<noteq> 0")
    case False
    then have "lvl h i = 0" using fits i by (auto simp: dict_fits_def)
    then show ?thesis
      unfolding restore_list_def Let_def sz using i by (auto simp: npy_list_size_def G_def map_upt_update less_Suc_eq)
  next
    case True
    then have n: "i < ?n" and lv: "lvl h i \<noteq> 0" by simp_all
    have s0: "?sz i \<noteq> 0" using npy_list_size_fits [OF ff n] lv lay by (simp add: layout_wf_def)
    have blk: "get_bytes (concat (map (upper_bytes h) [0..<?n])) (offset_of ?sz i) (?sz i) = upper_bytes h i"
      "offset_of ?sz i + ?sz i \<le> length (concat (map (upper_bytes h) [0..<?n]))"
      by (rule get_blocks [OF length_upper_bytes [OF wf lay ff] n])+
    have "map (\<lambda>k. read_links (upper_bytes h i) (k * size_links_per_element h) (maxM h)) [0..<lvl h i] = linkLists h ! i"
      using read_lists_saved [OF wf lay n lv] lv by (simp add: upper_bytes_def)
    then show ?thesis
      unfolding restore_list_def Let_def sz using i n lv s0 mem blk
      by (auto simp: G_def g map_upt_update less_Suc_eq guardE_def)
  qed
  have "\<exists>s'. foldE ?fn g [0..<?mx] = Inr s' \<and> s' = G ?mx"
  proof (rule foldE_upt_total)
    have "linkLists g = map (\<lambda>j. []) [0..<?mx]" by (simp add: g(5) map_replicate_const)
    then show "g = G 0" by (simp add: G_def)
  qed (auto simp: step)
  moreover have "G ?mx = g\<lparr>linkLists := map (\<lambda>j. if j < ?n \<and> lvl h j \<noteq> 0 then linkLists h ! j else []) [0..<?mx]\<rparr>"
    unfolding G_def by (rule hnsw.equality) simp_all
  ultimately show ?thesis by simp
qed

text \<open>The restored object: what loading a file of \<open>h\<close> would make, with the \<open>ef\<close> of \<open>h\<close>.\<close>

definition restored :: "'f hnsw_env \<Rightarrow> 'f hnsw \<Rightarrow> 'f hnsw \<Rightarrow> 'f hnsw" where
  "restored env h g = (loaded env h (max_elements h) (g\<lparr>allow_replace_deleted := allow_replace_deleted h\<rparr>))\<lparr>hnEf := hnEf h\<rparr>"

text \<open>What \<open>createFromParams\<close> builds before it restores the contents.\<close>

definition blank_for :: "'f py_env \<Rightarrow> 'f hnsw \<Rightarrow> 'f hnsw \<Rightarrow> bool" where
  "blank_for pe h g \<longleftrightarrow> g = load_base (penv pe) (h\<lparr>cur_element_count := 0, maxlevel := -1, enterpoint_node := no_node\<rparr>)
     (max_elements h) (clear g) \<and> label_lookup g = Map.empty \<and> num_deleted g = 0 \<and> deleted_elements g = []"

lemma get_bytes_append: "off + n \<le> length bs \<Longrightarrow> get_bytes (bs @ rest) off n = get_bytes bs off n"
  by (simp add: get_bytes_def)

lemma read_elem_append:
  assumes lay: "layout_wf H" and len: "i * size_data_per_element H + size_data_per_element H \<le> length bs"
  shows "read_elem H (bs @ rest) i = read_elem H bs i"
proof -
  have sd: "size_data_per_element H = maxM0 H * 4 + 4 + hn_data_size H + 8" "offsetLevel0 H = 0" "offsetData H = maxM0 H * 4 + 4"
    "label_offset H = maxM0 H * 4 + 4 + hn_data_size H"
    using lay by (simp_all add: layout_wf_def)
  have g: "get_bytes (bs @ rest) (i * size_data_per_element H + off) n = get_bytes bs (i * size_data_per_element H + off) n"
    if "off + n \<le> size_data_per_element H" for off n
    using that len by (intro get_bytes_append) simp
  have slot: "get_bytes (bs @ rest) (i * size_data_per_element H + 4 + 4 * k) 4 = get_bytes bs (i * size_data_per_element H + 4 + 4 * k) 4"
    if "k < maxM0 H" for k
    using g [of "4 + 4 * k" 4] that sd by (simp add: add.assoc)
  have "read_links (bs @ rest) (i * size_data_per_element H) (maxM0 H) = read_links bs (i * size_data_per_element H) (maxM0 H)"
    using g [of 0 2] g [of 2 1] g [of 3 1] sd slot by (simp add: read_links_def)
  then show ?thesis
    using g [of "offsetData H" "hn_data_size H"] g [of "label_offset H" 8] sd by (simp add: read_elem_def Let_def)
qed

lemma assert_size_ok: "cast_size d key = Inr v \<Longrightarrow> assert_size v d key msg = Inr ()"
  by (simp add: assert_size_def assert_true_def)

lemma counted_zero: "marked_below h n = [] \<Longrightarrow> counted h n = h"
  by (rule hnsw.equality) (simp_all add: counted_def)

lemma setAnnData_restores:
  assumes d: "getAnnData pe h \<subseteq>\<^sub>m d" and wf: "hnsw_wf h" and lay: "layout_wf h" and fits: "dict_fits h"
    and mem: "\<And>n. malloc_ok (penv pe) n" and it: "iter_ok pe" and g: "blank_for pe h g"
  shows "setAnnData pe d g = Inr (restored (penv pe) h g)"
proof -
  let ?n = "cur_element_count h" and ?mx = "max_elements h" and ?sd = "size_data_per_element h"
  have links: "links_wf h" and lab: "labels_wf h" and del: "deleted_wf h" and ff: "file_fits h"
    using wf fits by (simp_all add: hnsw_wf_def dict_fits_def)
  note casts = ann_casts [OF d wf lay fits]
  have eq: "g = load_base (penv pe) (h\<lparr>cur_element_count := 0, maxlevel := -1, enterpoint_node := no_node\<rparr>) ?mx (clear g)"
    and g0: "label_lookup g = Map.empty" "num_deleted g = 0" "deleted_elements g = []" using g by (simp_all add: blank_for_def)
  have f: "offsetLevel0 g = offsetLevel0 h" "max_elements g = ?mx" "size_data_per_element g = ?sd" "label_offset g = label_offset h"
    "offsetData g = offsetData h" "maxM g = maxM h" "maxM0 g = maxM0 h" "hnM g = hnM h" "hnMult g = hnMult h"
    "ef_construction g = ef_construction h" "size_links_per_element g = size_links_per_element h" "length (element_levels g) = ?mx"
    "linkLists g = replicate ?mx []" "hn_data_size g = hn_data_size h" "size_links_level0 g = size_links_level0 h"
    "hn_fstdistfunc g = hn_fstdistfunc h" "data_level0 g = map (mem_junk (penv pe)) [0..<?mx]"
    "vl_pool g = new_VisitedListPool (vl_junk (penv pe)) 1 ?mx"
    by (subst eq, simp add: load_base_def)+
  have cur: "?n \<le> ?mx" "length (element_levels h) = ?mx" using links by (simp_all add: links_wf_def)
  note lk = iter_ok_map [OF it labels_dom(1) [OF lab]]
  have labels: "foldE (restore_label (map fst (umap_iter pe (label_lookup h))) (map snd (umap_iter pe (label_lookup h)))) Map.empty [0..<?n]
      = Inr (label_lookup h)"
    using restore_labels [OF lk(2), of ?n] lk(1,3) labels_dom(2) [OF lab] by simp
  have l0: "length (level0_bytes h) = ?n * ?sd" by (rule length_level0_bytes [OF links lay])
  have sd0: "0 < ?sd" using lay by (simp add: layout_wf_def)
  have els: "restore_level0 H (level0_bytes h) = map (\<lambda>i. if i < ?n then data_level0 h ! i else mem_junk (penv pe) i) [0..<?mx]"
    if H: "size_data_per_element H = ?sd" "offsetLevel0 H = offsetLevel0 h" "offsetData H = offsetData h"
      "label_offset H = label_offset h" "maxM0 H = maxM0 h" "hn_data_size H = hn_data_size h" "layout_wf H" "max_elements H = ?mx"
      "data_level0 H = map (mem_junk (penv pe)) [0..<?mx]" for H
    unfolding restore_level0_def Let_def H(1,8) l0
  proof (rule map_cong [OF refl])
    fix i assume "i \<in> set [0..<?mx]"
    let ?rest = "drop (?n * ?sd) (concat (map elem_bytes (data_level0 H)))"
    have "read_elem H (level0_bytes h @ ?rest) i = data_level0 h ! i" if "i < ?n"
    proof -
      have "read_elem H (level0_bytes h @ ?rest) i = read_elem H (level0_bytes h) i"
        using mult_le_mono1 [of "Suc i" ?n ?sd] that by (intro read_elem_append [OF H(7)]) (simp add: H(1) l0)
      also have "\<dots> = data_level0 h ! i"
        using ff that by (intro read_elem_saved [OF links lay that _ H(1-6)]) (simp add: file_fits_def)
      finally show ?thesis .
    qed
    then show "(if i * ?sd < ?n * ?sd then read_elem H (level0_bytes h @ ?rest) i else data_level0 H ! i)
        = (if i < ?n then data_level0 h ! i else mem_junk (penv pe) i)" using sd0 \<open>i \<in> set [0..<?mx]\<close> by (simp add: H(9))
  qed
  have offs: "npy_offsets (npy_list_size H) ?n = (map (offset_of (npy_list_size h)) [0..<?n], offset_of (npy_list_size h) ?n)"
    if "element_levels H = element_levels h" "size_links_per_element H = size_links_per_element h" for H :: "'a hnsw"
  proof -
    have "npy_list_size H = npy_list_size h" using that by (simp add: npy_list_size_def fun_eq_iff)
    then show ?thesis using npy_offsets_sum [OF upper_bytes_total [OF links lay ff]] by simp
  qed
  let ?offs = "map (offset_of (npy_list_size h)) [0..<?n]" and ?links = "concat (map (upper_bytes h) [0..<?n])"
  let ?data = "map (\<lambda>i. if i < ?n then data_level0 h ! i else mem_junk (penv pe) i) [0..<?mx]"
  let ?lists = "map (\<lambda>j. if j < ?n \<and> lvl h j \<noteq> 0 then linkLists h ! j else []) [0..<?mx]"
  let ?H = "g\<lparr>cur_element_count := ?n, maxlevel := maxlevel h, enterpoint_node := enterpoint_node h, hnEf := hnEf h,
    label_lookup := label_lookup h, element_levels := element_levels h\<rparr>"
  define h1 where "h1 = ?H\<lparr>data_level0 := ?data\<rparr>"
  define h2 where "h2 = h1\<lparr>linkLists := ?lists, allow_replace_deleted := allow_replace_deleted h, num_deleted := 0\<rparr>"
  have "layout_wf ?H" using lay by (simp add: layout_wf_def f)
  then have els': "restore_level0 ?H (level0_bytes h) = ?data" by (intro els) (simp_all add: f)
  have le: "?n * ?sd \<le> ?mx * ?sd" using cur by simp
  have lists: "foldE (restore_list pe ?offs ?links) h1 [0..<?mx] = Inr (h1\<lparr>linkLists := ?lists\<rparr>)"
    by (rule restore_lists [OF links lay fits mem]) (simp_all add: h1_def f)
  have run: "setAnnData pe d g = (if num_deleted h \<noteq> 0 then liftH (foldE count_deleted h2 [0..<?n]) else Inr h2)"
    unfolding setAnnData_def
    using le lists
    by (simp add: casts assert_size_ok assert_true_def f g0 labels cur offs els' l0 h1_def h2_def Let_def)
  have len2: "?n \<le> length (data_level0 h2)" using cur by (simp add: h2_def h1_def)
  have marks: "marked_below h2 ?n = marked_below h ?n"
    unfolding marked_below_def using cur(1) by (intro filter_cong) (simp_all add: h2_def h1_def)
  have "counted h2 ?n = h2" if "num_deleted h = 0"
  proof (rule counted_zero)
    have "deleted_ids h = {}" using del that by (simp add: deleted_wf_def deleted_ids_def)
    then show "marked_below h2 ?n = []"
      unfolding marks by (simp add: marked_below_def filter_empty_conv deleted_ids_def)
  qed
  then have res: "setAnnData pe d g = Inr (counted h2 ?n)"
    using run count_deleted_fold [OF len2] by (simp add: liftH_def)
  have levels: "map (\<lambda>j. if j < ?n then lvl h j else 0) [0..<?mx] = element_levels h"
    using fits cur(2) by (intro nth_equalityI) (auto simp: dict_fits_def)
  let ?g = "g\<lparr>allow_replace_deleted := allow_replace_deleted h\<rparr>"
  have lookup: "load_labels G h ?n = label_lookup h" if "label_lookup G = Map.empty" for G
    unfolding load_labels_wf [OF lab order_refl] using lab that
    by (auto simp: fun_eq_iff labels_wf_def) (metis not_Some_eq)
  have l3: "loading (load_base (penv pe) h ?mx (clear ?g)) h ?mx ?n = h2\<lparr>hnEf := 10\<rparr>"
    using g0 by (intro hnsw.equality) (simp_all add: loading_def levels lookup h2_def h1_def load_base_def clear_def f)
  have "loaded (penv pe) h ?mx ?g = counted (h2\<lparr>hnEf := 10\<rparr>) ?n"
    using cur(1) l3 by (simp add: loaded_def Let_def)
  moreover have "(counted (h2\<lparr>hnEf := 10\<rparr>) ?n)\<lparr>hnEf := hnEf h\<rparr> = counted h2 ?n"
    by (rule hnsw.equality) (simp_all add: counted_def marked_below_def h2_def h1_def)
  ultimately show ?thesis using res by (simp add: restored_def)
qed

lemma new_blank:
  assumes us: "usable h" and mult: "hnMult h = pmult pe (hnM h)"
    and sp: "get_data_size s = hn_data_size h" "get_dist_func s = hn_fstdistfunc h" and mem: "\<And>n. malloc_ok (penv pe) n"
  shows "\<exists>g. new_HierarchicalNSW (penv pe) (pmult pe) s (max_elements h) (hnM h) (ef_construction h) False = Inr g \<and> blank_for pe h g"
proof -
  have links: "links_wf h" and lay: "layout_wf h" and efc: "hnM h \<le> ef_construction h"
    using us by (simp_all add: usable_def hnsw_wf_def)
  have m: "hnM h \<le> 10000" "maxM h = hnM h" "maxM0 h = hnM h * 2" using links by (simp_all add: links_wf_def)
  obtain g where g: "new_HierarchicalNSW (penv pe) (pmult pe) s (max_elements h) (hnM h) (ef_construction h) False = Inr g"
    using mem by (simp add: new_HierarchicalNSW_def Let_def)
  have "blank_for pe h g"
    unfolding blank_for_def using g mem m efc mult sp lay
    by (intro conjI hnsw.equality) (auto simp: new_HierarchicalNSW_def Let_def load_base_def clear_def layout_wf_def max_def)
  then show ?thesis using g by blast
qed

lemma restored_facts:
  assumes wf: "hnsw_wf h" and lay: "layout_wf h" and g: "blank_for pe h g"
  shows "hnsw_wf (restored env h g)" "layout_wf (restored env h g)" "label_lookup (restored env h g) = label_lookup h"
    "num_deleted (restored env h g) = num_deleted h" "cur_element_count (restored env h g) = cur_element_count h"
    "max_elements (restored env h g) = max_elements h" "hnEf (restored env h g) = hnEf h"
    "enterpoint_node (restored env h g) = enterpoint_node h" "maxlevel (restored env h g) = maxlevel h"
    "hnM (restored env h g) = hnM h" "ef_construction (restored env h g) = ef_construction h"
    "allow_replace_deleted (restored env h g) = allow_replace_deleted h"
    "i < cur_element_count h \<Longrightarrow> data_level0 (restored env h g) ! i = data_level0 h ! i \<and> lvl (restored env h g) i = lvl h i
       \<and> (\<forall>level\<le>lvl h i. at_level (restored env h g) i level = at_level h i level)"
proof -
  let ?g = "g\<lparr>allow_replace_deleted := allow_replace_deleted h\<rparr>" and ?n = "max_elements h"
  have links: "links_wf h" and del: "deleted_wf h" using wf by (simp_all add: hnsw_wf_def)
  have g0: "label_lookup ?g = Map.empty" "num_deleted ?g = 0" "deleted_elements ?g = []" using g by (simp_all add: blank_for_def)
  have n: "?n < 2 ^ 32" "cur_element_count h \<le> ?n" using links by (simp_all add: links_wf_def)
  note w = loaded_wf [OF wf g0 n(1)]
  have at: "at_level (k\<lparr>hnEf := e\<rparr>) = at_level k" for k :: "'a hnsw" and e by (intro ext) (simp add: at_level_def)
  have "hnsw_wf (k\<lparr>hnEf := e\<rparr>)" if "hnsw_wf k" for k :: "'a hnsw" and e
  proof -
    have "links_wf (k\<lparr>hnEf := e\<rparr>)"
      by (rule links_wf_cong [where h = k]) (use that in \<open>simp_all add: hnsw_wf_def links_wf_def\<close>)
    then show ?thesis using that by (auto simp: hnsw_wf_def entry_wf_def labels_wf_def deleted_wf_def deleted_ids_def)
  qed
  then show "hnsw_wf (restored env h g)" unfolding restored_def using w(1) by blast
  show "label_lookup (restored env h g) = label_lookup h" unfolding restored_def using w(2) by simp
  show "num_deleted (restored env h g) = num_deleted h"
    unfolding restored_def using loaded_deleted(2) [OF links, of env ?n ?g] del g0 by (simp add: deleted_wf_def)
  show "layout_wf (restored env h g)" "cur_element_count (restored env h g) = cur_element_count h"
    "max_elements (restored env h g) = max_elements h" "hnEf (restored env h g) = hnEf h"
    "enterpoint_node (restored env h g) = enterpoint_node h" "maxlevel (restored env h g) = maxlevel h"
    "hnM (restored env h g) = hnM h" "ef_construction (restored env h g) = ef_construction h"
    "allow_replace_deleted (restored env h g) = allow_replace_deleted h"
    using lay n(2) loaded_fields [of env h ?n ?g] by (simp_all add: restored_def layout_wf_def)
  show "i < cur_element_count h \<Longrightarrow> data_level0 (restored env h g) ! i = data_level0 h ! i \<and> lvl (restored env h g) i = lvl h i
       \<and> (\<forall>level\<le>lvl h i. at_level (restored env h g) i level = at_level h i level)"
    using loaded_elems [where i = i and env = env and n = ?n and g = ?g, OF links] by (simp add: restored_def at)
qed

subsection \<open>Copying and pickling\<close>

text \<open>An initialised object whose numbers fit their types, and whose index was made for its space.\<close>

definition picklable :: "'f::linordered_field py_env \<Rightarrow> 'f py_index \<Rightarrow> 'f hnsw \<Rightarrow> bool" where
  "picklable pe idx h \<longleftrightarrow> index_inited idx \<and> appr_alg idx = Some h \<and> usable h \<and> dict_fits h \<and> hnMult h = pmult pe (hnM h)
     \<and> space_by_name pe (space_name idx) (py_dim idx) = Inr (l2space idx, normalize idx)
     \<and> get_data_size (l2space idx) = hn_data_size h \<and> get_dist_func (l2space idx) = hn_fstdistfunc h
     \<and> py_dim idx < 2 ^ 31 \<and> - (2 ^ 31) \<le> num_threads_default idx \<and> num_threads_default idx < 2 ^ 31 \<and> seed idx < 2 ^ 64"

lemma param_casts:
  assumes ok: "picklable pe idx h" and d: "getIndexParams pe idx = Inr d"
  shows "cast_int d ''ser_version'' = Inr 1" "cast_str d ''space'' = Inr (space_name idx)" "cast_int d ''dim'' = Inr (int (py_dim idx))"
    "cast_bool d ''index_inited'' = Inr True" "cast_size d ''seed'' = Inr (seed idx)" "cast_bool d ''ep_added'' = Inr (ep_added idx)"
    "cast_int d ''num_threads'' = Inr (num_threads_default idx)" "getAnnData pe h \<subseteq>\<^sub>m d"
proof -
  have i: "index_inited idx" "appr_alg idx = Some h" using ok by (simp_all add: picklable_def)
  then show "getAnnData pe h \<subseteq>\<^sub>m d" using d by (auto simp: getIndexParams_def the_alg_def Let_def)
  have none: "getAnnData pe h ''ser_version'' = None" "getAnnData pe h ''space'' = None" "getAnnData pe h ''dim'' = None"
    "getAnnData pe h ''index_inited'' = None" "getAnnData pe h ''seed'' = None" "getAnnData pe h ''ep_added'' = None"
    "getAnnData pe h ''num_threads'' = None"
    by (simp_all add: getAnnData_def Let_def)
  show "cast_int d ''ser_version'' = Inr 1" "cast_str d ''space'' = Inr (space_name idx)" "cast_int d ''dim'' = Inr (int (py_dim idx))"
    "cast_bool d ''index_inited'' = Inr True" "cast_size d ''seed'' = Inr (seed idx)" "cast_bool d ''ep_added'' = Inr (ep_added idx)"
    "cast_int d ''num_threads'' = Inr (num_threads_default idx)"
    using d ok i none by (auto simp: getIndexParams_def the_alg_def Let_def cast_defs picklable_def map_add_def)
qed

lemma copy_runs:
  assumes ok: "picklable pe idx h" and mem: "\<And>n. malloc_ok (penv pe) n" and it: "iter_ok pe"
  shows "\<exists>d g. getIndexParams pe idx = Inr d \<and> blank_for pe h g
    \<and> createFromParams pe d = Inr (idx\<lparr>default_ef := hnEf h, cur_l := cur_element_count h, appr_alg := Some (restored (penv pe) h g)\<rparr>)"
proof -
  obtain d where d: "getIndexParams pe idx = Inr d" using ok by (auto simp: getIndexParams_def picklable_def the_alg_def Let_def)
  have us: "usable h" "hnsw_wf h" "layout_wf h" and fits: "dict_fits h" and mult: "hnMult h = pmult pe (hnM h)"
    and sp: "get_data_size (l2space idx) = hn_data_size h" "get_dist_func (l2space idx) = hn_fstdistfunc h"
    and nm: "space_by_name pe (space_name idx) (py_dim idx) = Inr (l2space idx, normalize idx)"
    and rest: "index_inited idx" "py_dim idx < 2 ^ 31"
    using ok by (auto simp: picklable_def usable_def)
  note p = param_casts [OF ok d]
  note a = ann_casts [OF p(8) us(2,3) fits]
  obtain g where g: "new_HierarchicalNSW (penv pe) (pmult pe) (l2space idx) (max_elements h) (hnM h) (ef_construction h) False = Inr g"
    "blank_for pe h g" using new_blank [OF us(1) mult sp mem] by blast
  have dm: "nat (int (py_dim idx) mod 2 ^ 64) = py_dim idx" using rest(2) by (simp add: nat_mod_distrib)
  note set = setAnnData_restores [OF p(8) us(2,3) fits mem it g(2)]
  have "createFromParams pe d = Inr (idx\<lparr>default_ef := hnEf h, cur_l := cur_element_count h, appr_alg := Some (restored (penv pe) h g)\<rparr>)"
    unfolding createFromParams_def p a bindE.simps dm new_Index_def nm
    using g(1) set rest(1) by (simp add: assert_true_def Let_def liftH_def the_alg_def a p)
  then show ?thesis using d g(2) by blast
qed

text \<open>
  \<^bold>\<open>C13.\<close> Pickling and copying: the state of an initialised object is a tuple that \<open>__setstate__\<close> accepts, and both it and the
  copy constructor make an object with the same parameters around a well-formed index with the same elements, labels,
  delete marks, levels, link lists, entry point and search width. The counter for automatic labels becomes the number of elements.
\<close>

theorem pickle_roundtrip:
  assumes ok: "picklable pe idx h" and mem: "\<And>n. malloc_ok (penv pe) n" and it: "iter_ok pe"
  shows "\<exists>t idx' h'. getstate pe idx = Inr t \<and> setstate pe t = Inr idx' \<and> createFromIndex pe idx = Inr idx'
    \<and> idx' = idx\<lparr>default_ef := hnEf h, cur_l := cur_element_count h, appr_alg := Some h'\<rparr>
    \<and> hnsw_wf h' \<and> layout_wf h' \<and> cur_element_count h' = cur_element_count h \<and> max_elements h' = max_elements h
    \<and> label_lookup h' = label_lookup h \<and> num_deleted h' = num_deleted h \<and> allow_replace_deleted h' = allow_replace_deleted h
    \<and> enterpoint_node h' = enterpoint_node h \<and> maxlevel h' = maxlevel h \<and> hnM h' = hnM h
    \<and> ef_construction h' = ef_construction h \<and> hnEf h' = hnEf h
    \<and> (\<forall>i<cur_element_count h. data_level0 h' ! i = data_level0 h ! i \<and> lvl h' i = lvl h i
         \<and> (\<forall>level\<le>lvl h i. at_level h' i level = at_level h i level))"
proof -
  obtain d g where d: "getIndexParams pe idx = Inr d" and g: "blank_for pe h g"
    and run: "createFromParams pe d = Inr (idx\<lparr>default_ef := hnEf h, cur_l := cur_element_count h, appr_alg := Some (restored (penv pe) h g)\<rparr>)"
    using copy_runs [OF ok mem it] by blast
  have "hnsw_wf h" "layout_wf h" using ok by (auto simp: picklable_def usable_def)
  note r = restored_facts [OF this g, where env = "penv pe"]
  show ?thesis
    by (rule exI [of _ "[d]"], rule exI [of _ "idx\<lparr>default_ef := hnEf h, cur_l := cur_element_count h, appr_alg := Some (restored (penv pe) h g)\<rparr>"],
        rule exI [of _ "restored (penv pe) h g"])
      (use r in \<open>simp add: getstate_def setstate_def createFromIndex_def d run\<close>)
qed

lemma addPoint_first_level:
  assumes "addPoint env h q label False = Inr h'" and "label_lookup h label = None" and "cur_element_count h < max_elements h"
    and "enterpoint_node h = no_node"
  shows "element_levels h' = (element_levels h)[cur_element_count h := random_level env (hnMult h) (level_draws h)]" "hnEf h' = hnEf h"
  using assms
  by (auto simp: addPoint_def addPoint_level_def getRandomLevel_def init_element_def put_elem_def Let_def bindE_Inr_iff split: if_splits)

lemma demo_iter_ok: "iter_ok demo_py"
proof -
  have "distinct (map fst (map (\<lambda>k. (k, the (m k))) (sorted_list_of_set (dom m))))"
    "set (map (\<lambda>k. (k, the (m k))) (sorted_list_of_set (dom m))) = {(k, v). m k = Some v}" if "finite (dom m)" for m :: "labeltype \<rightharpoonup> tableint"
    using that by (force simp: comp_def)+
  then show ?thesis by (simp add: iter_ok_def demo_py_def)
qed

lemma demo_picklable:
  "\<exists>idx h. picklable demo_py idx h \<and> space_name idx = ''l2'' \<and> cur_element_count h = 1 \<and> label_lookup h = [7 \<mapsto> 0]"
proof -
  let ?s = "l2_interface demo_py 2" and ?env = "penv demo_py"
  have size: "get_data_size ?s = 8" by (simp add: l2_interface_def L2Space_def Let_def)
  obtain h where h: "new_HierarchicalNSW ?env (pmult demo_py) ?s 5 2 10 False = Inr h"
    by (simp add: new_HierarchicalNSW_def Let_def demo_py_def)
  have f: "cur_element_count h = 0" "max_elements h = 5" "hn_data_size h = 8" "label_lookup h = Map.empty" "enterpoint_node h = no_node"
    "element_levels h = replicate 5 0" "hnEf h = 10" "hnM h = 2" "hnMult h = pmult demo_py 2" "hn_fstdistfunc h = get_dist_func ?s"
    "ef_construction h = 10" "allow_replace_deleted h = False"
    using h size by (auto simp: new_HierarchicalNSW_def Let_def bindE_Inr_iff)
  have us: "usable h" by (rule usable_new [OF h]) simp_all
  have env: "env_ok ?env" by (simp add: env_ok_def demo_py_def)
  let ?q = "[1, 0, 0, 0, 2, 0, 0, 0] :: byte list"
  have acc: "accepts ?env h ?q" by (rule usable_accepts [OF us env]) (simp add: f)
  have "safeE (insert_errors h) (inserted h ?q 7) (addPoint_level ?env h ?q 7 (-1))"
    using acc f by (intro addPoint_level_new) (simp_all add: accepts_def)
  then obtain h' where run: "addPoint ?env h ?q 7 False = Inr h'" and ins: "inserted h ?q 7 (0, h')"
    using f by (auto simp: insert_errors_def deleted_ids_def safeE_empty addPoint_def inserted_def)
  have lev: "element_levels h' = replicate 5 0" "hnEf h' = 10"
    using addPoint_first_level [OF run] f by (simp_all add: demo_py_def numeral_eq_Suc)
  have i: "cur_element_count h' = 1" "max_elements h' = 5" "same_params h h'" "label_lookup h' = [7 \<mapsto> 0]" "hnsw_wf h'"
    using ins f by (simp_all add: inserted_def)
  then have us': "usable h'" using usable_params [OF _ _ us] by blast
  have links: "links_wf h'" and lay: "layout_wf h'" and lab: "labels_wf h'" using us' by (simp_all add: usable_def hnsw_wf_def)
  have par: "hnM h' = 2" "hnMult h' = pmult demo_py 2" "hn_data_size h' = 8" "hn_fstdistfunc h' = get_dist_func ?s" "ef_construction h' = 10"
    using i(3) f by (simp_all add: same_params_def)
  have sd: "size_data_per_element h' = 36" using lay links par by (simp add: layout_wf_def links_wf_def)
  have label: "e_label (data_level0 h' ! 0) = 7" using lab i by (auto simp: labels_wf_def split: if_splits)
  have sv: "saveIndex h' = header_bytes h' @ level0_bytes h' @ concat (map (list_bytes h') [0..<1])"
    using saveIndex_bytes [OF links lay] lev i sd by simp
  have "length (saveIndex h') = 136"
    unfolding sv using length_level0_bytes [OF links lay] i sd lev by (simp add: list_bytes_def)
  then have "file_fits h'" using lev i sd par label by (simp add: file_fits_def demo_py_def)
  then have fits: "dict_fits h'" using lev i by (auto simp: dict_fits_def)
  define idx where "idx = \<lparr>space_name = ''l2'', py_dim = 2, seed = 100, default_ef = 10, index_inited = True, ep_added = True,
    normalize = False, num_threads_default = 4, cur_l = 1, appr_alg = Some h', l2space = ?s\<rparr>"
  have "picklable demo_py idx h'"
    using fits us' par size by (simp add: picklable_def idx_def space_by_name_def)
  then show ?thesis using i by (intro exI [of _ idx] exI [of _ h']) (simp add: idx_def)
qed

theorem pickle_roundtrip_witness:
  "\<exists>idx t idx' h'. space_name idx = ''l2'' \<and> getstate demo_py idx = Inr t \<and> setstate demo_py t = Inr idx' \<and> appr_alg idx' = Some h'
    \<and> cur_element_count h' = 1 \<and> label_lookup h' = [7 \<mapsto> 0]"
proof -
  obtain idx h where ok: "picklable demo_py idx h" and f: "space_name idx = ''l2''" "cur_element_count h = 1" "label_lookup h = [7 \<mapsto> 0]"
    using demo_picklable by blast
  have mem: "\<And>n. malloc_ok (penv demo_py) n" by (simp add: demo_py_def)
  obtain t idx' h' where "getstate demo_py idx = Inr t" "setstate demo_py t = Inr idx'"
    "idx' = idx\<lparr>default_ef := hnEf h, cur_l := cur_element_count h, appr_alg := Some h'\<rparr>"
    "cur_element_count h' = cur_element_count h" "label_lookup h' = label_lookup h"
    using pickle_roundtrip [OF ok mem demo_iter_ok] by blast
  then show ?thesis using f by (intro exI [of _ idx] exI [of _ t] exI [of _ idx'] exI [of _ h']) simp
qed

end
