(* ===== verification/Lazy_Index.thy ===== *)
theory Lazy_Index
  imports Py_Pickle
begin

text \<open>
  \<open>python_bindings/LazyIndex.py\<close>: an \<open>Index\<close> that is initialised by the first call of \<open>add_items\<close>. The arguments are Python
  integers, which the module converts to \<open>size_t\<close> or refuses. An exception leaves the attributes as they are at that moment.
\<close>

record 'f lazy_index =
  lz_super :: "'f py_index"
  init_max_elements :: int
  init_ef_construction :: int
  init_M :: int

definition size_arg :: "int \<Rightarrow> py_error + nat" where
  "size_arg n = (if 0 \<le> n \<and> n < 2 ^ 64 then Inr (nat n) else Inl (Cast_error ''size_t''))"

definition new_LazyIndex :: "'f::linordered_field py_env \<Rightarrow> string \<Rightarrow> nat \<Rightarrow> int \<Rightarrow> int \<Rightarrow> int \<Rightarrow> py_error + 'f lazy_index" where
  "new_LazyIndex pe space dm max_els ef_constr M =
     bindE (new_Index pe space dm) (\<lambda>idx.
       Inr \<lparr>lz_super = idx, init_max_elements = max_els, init_ef_construction = ef_constr, init_M = M\<rparr>)"

text \<open>\<open>super().init_index\<close> with the module's defaults for the other arguments.\<close>

definition super_init_index :: "'f py_env \<Rightarrow> 'f lazy_index \<Rightarrow> py_error + 'f py_index" where
  "super_init_index pe lz =
     bindE (size_arg (init_max_elements lz)) (\<lambda>n.
     bindE (size_arg (init_M lz)) (\<lambda>M.
     bindE (size_arg (init_ef_construction lz)) (\<lambda>ef.
       init_new_index pe (lz_super lz) n M ef 100 False)))"

definition lazy_init_index :: "'f py_env \<Rightarrow> 'f lazy_index \<Rightarrow> int \<Rightarrow> int \<Rightarrow> int \<Rightarrow> 'f lazy_index \<times> py_error option" where
  "lazy_init_index pe lz max_els M ef_constr =
     (let lz = (if 0 < max_els then lz\<lparr>init_max_elements := max_els\<rparr> else lz);
          lz = (if 0 < ef_constr then lz\<lparr>init_ef_construction := ef_constr\<rparr> else lz);
          lz = (if 0 < M then lz\<lparr>init_M := M\<rparr> else lz)
      in case super_init_index pe lz of Inl e \<Rightarrow> (lz, Some e) | Inr idx \<Rightarrow> (lz\<lparr>lz_super := idx\<rparr>, None))"

definition lazy_add_items ::
    "'f::linordered_field py_env \<Rightarrow> nat list \<Rightarrow> 'f lazy_index \<Rightarrow> 'f ndarray \<Rightarrow> nat ndarray option \<Rightarrow> int
      \<Rightarrow> ('f lazy_index \<times> py_error option) option" where
  "lazy_add_items pe sched lz data ids num_threads =
     (case prop_max_elements (lz_super lz) of Inl e \<Rightarrow> Some (lz, Some e)
      | Inr n \<Rightarrow>
        case (if n = 0 then lazy_init_index pe lz 0 0 0 else (lz, None)) of
          (lz, Some e) \<Rightarrow> Some (lz, Some e)
        | (lz, None) \<Rightarrow>
            map_option (\<lambda>(idx, exc). (lz\<lparr>lz_super := idx\<rparr>, exc)) (addItems pe sched (lz_super lz) data ids num_threads False))"

definition lazy_get_items :: "'f py_env \<Rightarrow> 'f lazy_index \<Rightarrow> nat ndarray option \<Rightarrow> py_error + 'f list list" where
  "lazy_get_items pe lz ids =
     bindE (prop_max_elements (lz_super lz)) (\<lambda>n. if n = 0 then Inr [] else getData pe (lz_super lz) ids ''numpy'')"

text \<open>The result is \<open>None\<close> for the two empty lists that stand for the answer of an index without elements.\<close>

definition lazy_knn_query ::
    "'f::linordered_field py_env \<Rightarrow> nat list \<Rightarrow> 'f lazy_index \<Rightarrow> 'f ndarray \<Rightarrow> int \<Rightarrow> int
      \<Rightarrow> ('f lazy_index \<times> (py_error + (labeltype ndarray \<times> 'f ndarray) option)) option" where
  "lazy_knn_query pe sched lz data k num_threads =
     (case prop_max_elements (lz_super lz) of Inl e \<Rightarrow> Some (lz, Inl e)
      | Inr n \<Rightarrow>
        if n = 0 then Some (lz, Inr None)
        else case size_arg k of Inl e \<Rightarrow> Some (lz, Inl e)
             | Inr k \<Rightarrow> map_option (\<lambda>(idx, r). (lz\<lparr>lz_super := idx\<rparr>, case r of Inl e \<Rightarrow> Inl e | Inr a \<Rightarrow> Inr (Some a)))
                 (knnQuery_return_numpy pe sched (lz_super lz) data k num_threads None))"

definition lazy_resize_index :: "'f py_env \<Rightarrow> 'f lazy_index \<Rightarrow> int \<Rightarrow> 'f lazy_index \<times> py_error option" where
  "lazy_resize_index pe lz sz =
     (case prop_max_elements (lz_super lz) of Inl e \<Rightarrow> (lz, Some e)
      | Inr n \<Rightarrow>
        if n = 0 then lazy_init_index pe lz sz 0 0
        else case bindE (size_arg sz) (py_resizeIndex pe (lz_super lz)) of
               Inl e \<Rightarrow> (lz, Some e) | Inr idx \<Rightarrow> (lz\<lparr>lz_super := idx\<rparr>, None))"

definition lazy_set_ef :: "'f lazy_index \<Rightarrow> int \<Rightarrow> 'f lazy_index \<times> py_error option" where
  "lazy_set_ef lz ef =
     (case prop_max_elements (lz_super lz) of Inl e \<Rightarrow> (lz, Some e)
      | Inr n \<Rightarrow>
        if n = 0 then (lz\<lparr>init_ef_construction := ef\<rparr>, None)
        else case size_arg ef of Inl e \<Rightarrow> (lz, Some e) | Inr ef \<Rightarrow> (lz\<lparr>lz_super := set_ef ef (lz_super lz)\<rparr>, None))"

definition lazy_get_max_elements :: "'f lazy_index \<Rightarrow> py_error + nat" where
  "lazy_get_max_elements lz = prop_max_elements (lz_super lz)"

definition lazy_get_current_count :: "'f lazy_index \<Rightarrow> py_error + nat" where
  "lazy_get_current_count lz = prop_element_count (lz_super lz)"

subsection \<open>Before the first vectors\<close>

lemma new_LazyIndex_fields:
  assumes "new_LazyIndex pe space dm mx efc M = Inr lz"
  shows "\<not> index_inited (lz_super lz)" "appr_alg (lz_super lz) = None" "default_ef (lz_super lz) = 10" "py_dim (lz_super lz) = dm"
    "init_max_elements lz = mx" "init_ef_construction lz = efc" "init_M lz = M" "get_data_size (l2space (lz_super lz)) = 4 * dm"
  using assms
  by (auto simp: new_LazyIndex_def new_Index_def space_by_name_def bindE_Inr_iff l2_interface_def ip_interface_def L2Space_def
      InnerProductSpace_def Let_def split: if_splits prod.splits)

text \<open>Until then every reading method answers as an empty index does, without an exception, and changes nothing.\<close>

lemma lazy_empty:
  assumes "\<not> index_inited (lz_super lz)"
  shows "lazy_get_items pe lz ids = Inr []" "lazy_knn_query pe sched lz data k num_threads = Some (lz, Inr None)"
    "lazy_get_max_elements lz = Inr 0" "lazy_get_current_count lz = Inr 0"
    "lazy_set_ef lz ef = (lz\<lparr>init_ef_construction := ef\<rparr>, None)" "lazy_resize_index pe lz sz = lazy_init_index pe lz sz 0 0"
  using assms
  by (simp_all add: lazy_get_items_def lazy_knn_query_def lazy_get_max_elements_def lazy_get_current_count_def lazy_set_ef_def
      lazy_resize_index_def prop_max_elements_def prop_element_count_def prop_of_def)

lemma lazy_init_ok:
  fixes pe :: "'f::linordered_field py_env"
  assumes new: "\<not> index_inited (lz_super lz)" "appr_alg (lz_super lz) = None" "get_data_size (l2space (lz_super lz)) = 4 * py_dim (lz_super lz)"
    and arg: "0 < init_max_elements lz" "init_max_elements lz < 2 ^ 32" "0 < init_M lz" "init_M lz < 2 ^ 64"
      "0 \<le> init_ef_construction lz" "init_ef_construction lz < 2 ^ 64" and env: "env_ok (penv pe)"
  shows "\<exists>idx h. lazy_init_index pe lz 0 0 0 = (lz\<lparr>lz_super := idx\<rparr>, None) \<and> appr_alg idx = Some h \<and> index_inited idx \<and> \<not> ep_added idx \<and> usable h
    \<and> cur_l idx = 0 \<and> py_dim idx = py_dim (lz_super lz) \<and> normalize idx = normalize (lz_super lz)
    \<and> max_elements h = nat (init_max_elements lz) \<and> cur_element_count h = 0 \<and> label_lookup h = Map.empty
    \<and> hn_data_size h = 4 * py_dim idx \<and> hnEf h = default_ef (lz_super lz)
    \<and> ef_construction h = max (nat (init_ef_construction lz)) (min (nat (init_M lz)) 10000)"
proof -
  have sz: "size_arg (init_max_elements lz) = Inr (nat (init_max_elements lz))" "size_arg (init_M lz) = Inr (nat (init_M lz))"
    "size_arg (init_ef_construction lz) = Inr (nat (init_ef_construction lz))"
    using arg by (simp_all add: size_arg_def)
  obtain h where h: "new_HierarchicalNSW (penv pe) (pmult pe) (l2space (lz_super lz)) (nat (init_max_elements lz)) (nat (init_M lz))
      (nat (init_ef_construction lz)) False = Inr h"
    using env by (simp add: new_HierarchicalNSW_def Let_def env_ok_def)
  have f: "max_elements h = nat (init_max_elements lz)" "cur_element_count h = 0" "label_lookup h = Map.empty"
    "hn_data_size h = 4 * py_dim (lz_super lz)" "ef_construction h = max (nat (init_ef_construction lz)) (min (nat (init_M lz)) 10000)"
    using h new(3) by (auto simp: new_HierarchicalNSW_def Let_def bindE_Inr_iff)
  have "usable h" using arg by (intro usable_new [OF h]) (simp_all add: nat_less_iff)
  then have "usable (setEf (default_ef (lz_super lz)) h)" using usable_step [OF env _ step_ef] by blast
  then show ?thesis
    using new(2) sz h f
    by (intro exI [of _ "(lz_super lz)\<lparr>cur_l := 0, appr_alg := Some (setEf (default_ef (lz_super lz)) h), index_inited := True,
          ep_added := False, seed := 100\<rparr>"] exI [of _ "setEf (default_ef (lz_super lz)) h"])
       (simp add: lazy_init_index_def super_init_index_def init_new_index_def liftH_def setEf_def)
qed

text \<open>
  The first \<open>add_items\<close> on an object whose parameters leave room for the vectors initialises the index and stores them: with any
  number of threads and any interleaving there is no exception, and the labels 0, 1, \dots find the vectors.
\<close>

theorem lazy_first_add:
  assumes new: "new_LazyIndex pe space dm mx efc M = Inr lz"
    and arg: "0 < mx" "mx < 2 ^ 32" "0 < M" "M < 2 ^ 64" "0 \<le> efc" "efc < 2 ^ 64"
    and env: "env_ok (penv pe)" "\<forall>x. length (float_bytes pe x) = 4"
    and input: "nd_shape input = [rows, dm]" "length (nd_data input) = rows * dm" "0 < rows" "int rows \<le> mx"
    and thr: "0 < num_threads" "num_threads < 2 ^ 29"
    and run: "lazy_add_items pe sched lz input None num_threads = Some (lz', exc)"
  shows "exc = None \<and> lazy_get_current_count lz' = Inr rows \<and> (\<exists>h. appr_alg (lz_super lz') = Some h \<and> hnsw_wf h
    \<and> (\<forall>r<rows. \<exists>i. label_lookup h r = Some i \<and> e_data (data_level0 h ! i) = stored_row pe (lz_super lz) input r))"
proof -
  note f = new_LazyIndex_fields [OF new]
  obtain idx h where init: "lazy_init_index pe lz 0 0 0 = (lz\<lparr>lz_super := idx\<rparr>, None)"
    and g: "appr_alg idx = Some h" "index_inited idx" "\<not> ep_added idx" "usable h" "cur_l idx = 0" "py_dim idx = dm"
      "normalize idx = normalize (lz_super lz)" "max_elements h = nat mx" "cur_element_count h = 0" "label_lookup h = Map.empty" "hn_data_size h = 4 * dm"
    using lazy_init_ok [of lz pe] f arg env(1) by auto
  have r32: "rows < 2 ^ 32" using order.strict_trans1 [OF input(4) arg(2)] by simp
  then have lab: "label_of idx [] r = r" if "r < rows" for r using that g(5) by (simp add: label_of_def)
  have "deleted_ids h = {}" using g(9) by (simp add: deleted_ids_def)
  moreover have "inj_on (label_of idx []) {..<rows}" using lab by (auto simp: inj_on_def)
  ultimately have ok: "addable pe idx h input [] rows" using g env input by (simp add: addable_def)
  have same: "stored_row pe idx input r = stored_row pe (lz_super lz) input r" for r using g(6,7) f(4) by (simp add: stored_row_def)
  obtain idx' where a: "addItems pe sched idx input None num_threads False = Some (idx', exc)" "lz' = lz\<lparr>lz_super := idx'\<rparr>"
    using run f(1) init by (auto simp: lazy_add_items_def prop_max_elements_def prop_of_def)
  have ids: "get_input_ids_and_check_shapes None rows = Inr []" by (simp add: get_input_ids_and_check_shapes_def)
  have inited: "index_inited idx'" using addItems_inited [OF a(1)] g(2) by simp
  obtain h' where h': "exc = None" "appr_alg idx' = Some h'" "hnsw_wf h'" "cur_element_count h' = rows"
    "\<forall>r<rows. \<exists>i. label_lookup h' (label_of idx [] r) = Some i \<and> e_data (data_level0 h' ! i) = stored_row pe idx input r"
    using addItems_all [OF a(1) g(1) ids ok thr input(3) r32] g(9) by auto
  then show ?thesis
    using a(2) lab same inited by (auto simp: lazy_get_current_count_def prop_element_count_def prop_of_def the_alg_def)
qed

text \<open>
  The class is meant to keep the interface of \<open>Index\<close>. Its \<open>set_ef\<close> does not: on an object that is not yet initialised it
  replaces the construction parameter, and the later searches use the default of 10.
\<close>

theorem lazy_set_ef_not_kept:
  assumes "new_LazyIndex pe space dm mx efc M = Inr lz" and "0 < mx" "mx < 2 ^ 32" "0 < M" "M < 2 ^ 64" "0 \<le> ef" "ef < 2 ^ 64"
    and "env_ok (penv pe)"
  shows "\<exists>lz1 lz2 h. lazy_set_ef lz ef = (lz1, None) \<and> lazy_init_index pe lz1 0 0 0 = (lz2, None) \<and> appr_alg (lz_super lz2) = Some h
    \<and> hnEf h = 10 \<and> ef_construction h = max (nat ef) (min (nat M) 10000)"
proof -
  let ?lz1 = "lz\<lparr>init_ef_construction := ef\<rparr>"
  note f = new_LazyIndex_fields [OF assms(1)]
  have "lazy_set_ef lz ef = (?lz1, None)" by (rule lazy_empty(5) [OF f(1)])
  moreover obtain idx h where "lazy_init_index pe ?lz1 0 0 0 = (?lz1\<lparr>lz_super := idx\<rparr>, None)" "appr_alg idx = Some h" "hnEf h = 10"
    "ef_construction h = max (nat ef) (min (nat M) 10000)"
    using lazy_init_ok [of ?lz1 pe] f assms(2-8) by auto
  ultimately show ?thesis by force
qed

end
