(* ===== verification/Dataset.thy ===== *)
theory Dataset
  imports Py_Query
begin

text \<open>
  \<open>utils/dataset.cpp\<close>: data sets in binary files. An \<open>int\<close> is an integer whose products must stay within 32 bits, since
  the overflow of an \<open>int\<close> is undefined; an array is the list of its values. Reading a file that is too short leaves
  the old value of a variable and the uninitialised contents of an array, \<open>junk\<close>.
\<close>

datatype tool_error =
    Exit_code int
  | Int_overflow
  | Bad_array_length
  | Read_outside
  | Write_outside
  | H5_exception
  | Empty_queue
  | Tool_bf bf_error
  | Tool_hnsw hnsw_error

record 'f dataset =
  ds_dim :: int
  ds_train :: int
  ds_test :: int
  ds_topk :: int
  train_data :: "'f list"
  test_data :: "'f list"
  neighbors :: "'f list"
  distances :: "'f list"

definition int32 :: "int \<Rightarrow> tool_error + int" where
  "int32 n = (if - (2 ^ 31) \<le> n \<and> n < 2 ^ 31 then Inr n else Inl Int_overflow)"

text \<open>\<open>new float[a * b]\<close>\<close>

definition new_floats :: "int \<Rightarrow> int \<Rightarrow> tool_error + nat" where
  "new_floats a b = bindE (int32 (a * b)) (\<lambda>n. if n < 0 then Inl Bad_array_length else Inr (nat n))"

definition read_int :: "byte list \<Rightarrow> int \<Rightarrow> int \<times> byte list" where
  "read_int inp old = (let (v, rest) = readBinaryPOD inp 4 (nat (old mod 2 ^ 32)) in (signed32 v, rest))"

definition read_floats :: "'f py_env \<Rightarrow> (nat \<Rightarrow> byte) \<Rightarrow> byte list \<Rightarrow> nat \<Rightarrow> 'f list \<times> byte list" where
  "read_floats pe junk inp n =
     (let (buf, rest) = stream_read inp (map junk [0..<4 * n]) (4 * n) in (map (floats_at pe buf) [0..<n], rest))"

definition read_bin :: "'f py_env \<Rightarrow> (nat \<Rightarrow> byte) \<Rightarrow> byte list option \<Rightarrow> 'f dataset \<Rightarrow> tool_error + 'f dataset" where
  "read_bin pe junk file_name d =
     (case file_name of None \<Rightarrow> Inl (Exit_code 1)
      | Some inp \<Rightarrow>
        let (dm, inp) = read_int inp (ds_dim d);
            (tr, inp) = read_int inp (ds_train d);
            (te, inp) = read_int inp (ds_test d);
            (tk, inp) = read_int inp (ds_topk d)
        in bindE (new_floats dm tr) (\<lambda>n1.
           bindE (new_floats dm te) (\<lambda>n2.
           bindE (new_floats tk te) (\<lambda>n3.
           bindE (new_floats tk te) (\<lambda>n4.
           let (train, inp) = read_floats pe junk inp n1;
               (test, inp) = read_floats pe junk inp n2;
               (neigh, inp) = read_floats pe junk inp n3;
               (dists, inp) = read_floats pe junk inp n4
           in Inr \<lparr>ds_dim = dm, ds_train = tr, ds_test = te, ds_topk = tk, train_data = train, test_data = test,
                   neighbors = neigh, distances = dists\<rparr>)))))"

definition write_int :: "int \<Rightarrow> byte list" where
  "write_int v = le_bytes 4 (nat (v mod 2 ^ 32))"

definition write_floats :: "'f py_env \<Rightarrow> 'f list \<Rightarrow> int \<Rightarrow> int \<Rightarrow> tool_error + byte list" where
  "write_floats pe xs a b =
     bindE (int32 (a * b)) (\<lambda>n. if n < 0 \<or> length xs < nat n then Inl Read_outside else Inr (vec_bytes pe (take (nat n) xs)))"

definition write_bin :: "'f py_env \<Rightarrow> 'f dataset \<Rightarrow> tool_error + byte list" where
  "write_bin pe d =
     (let out = write_int (ds_dim d) @ write_int (ds_train d) @ write_int (ds_test d) @ write_int (ds_topk d) in
      bindE (write_floats pe (train_data d) (ds_dim d) (ds_train d)) (\<lambda>a.
      bindE (write_floats pe (test_data d) (ds_dim d) (ds_test d)) (\<lambda>b.
      bindE (write_floats pe (neighbors d) (ds_topk d) (ds_test d)) (\<lambda>c.
      bindE (write_floats pe (distances d) (ds_topk d) (ds_test d)) (\<lambda>e.
        Inr (out @ a @ b @ c @ e))))))"

text \<open>\<open>gen seed i\<close> is the \<open>i\<close>-th number that the distribution draws from a generator with that seed.\<close>

definition generate_random_data :: "(int \<Rightarrow> nat \<Rightarrow> 'f) \<Rightarrow> int \<Rightarrow> int \<Rightarrow> int \<Rightarrow> tool_error + 'f list" where
  "generate_random_data gen dm num_elements sd =
     bindE (new_floats dm num_elements) (\<lambda>n. Inr (map (gen sd) [0..<n]))"

subsection \<open>Reading what was written\<close>

text \<open>A \<open>float\<close> has four bytes. A number of the model that is not a \<open>float\<close> is read back as what the bytes stand for.\<close>

definition floats_ok :: "'f py_env \<Rightarrow> bool" where
  "floats_ok pe \<longleftrightarrow> (\<forall>x. length (float_bytes pe x) = 4)"

definition as_float :: "'f py_env \<Rightarrow> 'f \<Rightarrow> 'f" where
  "as_float pe x = float_val pe (float_bytes pe x)"

definition dataset_ok :: "'f dataset \<Rightarrow> bool" where
  "dataset_ok d \<longleftrightarrow> 0 \<le> ds_dim d \<and> ds_dim d < 2 ^ 31 \<and> 0 \<le> ds_train d \<and> ds_train d < 2 ^ 31 \<and> 0 \<le> ds_test d \<and> ds_test d < 2 ^ 31
     \<and> 0 \<le> ds_topk d \<and> ds_topk d < 2 ^ 31
     \<and> ds_dim d * ds_train d < 2 ^ 31 \<and> ds_dim d * ds_test d < 2 ^ 31 \<and> ds_topk d * ds_test d < 2 ^ 31
     \<and> length (train_data d) = nat (ds_dim d * ds_train d) \<and> length (test_data d) = nat (ds_dim d * ds_test d)
     \<and> length (neighbors d) = nat (ds_topk d * ds_test d) \<and> length (distances d) = nat (ds_topk d * ds_test d)"

text \<open>What is in the file of a data set.\<close>

definition stored :: "'f py_env \<Rightarrow> 'f dataset \<Rightarrow> 'f dataset" where
  "stored pe d = d\<lparr>train_data := map (as_float pe) (train_data d), test_data := map (as_float pe) (test_data d),
     neighbors := map (as_float pe) (neighbors d), distances := map (as_float pe) (distances d)\<rparr>"

lemma floats_vec_bytes:
  assumes "floats_ok pe" and "i < length xs"
  shows "floats_at pe (vec_bytes pe xs) i = as_float pe (xs ! i)"
proof -
  have "get_bytes (concat (map (float_bytes pe) xs)) (i * 4 + 0) 4 = get_bytes (map (float_bytes pe) xs ! i) 0 4"
    using assms by (intro get_block) (auto simp: floats_ok_def)
  then show ?thesis using assms by (simp add: floats_at_def vec_bytes_def get_bytes_def floats_ok_def as_float_def mult.commute)
qed

lemma read_int_written: "0 \<le> v \<Longrightarrow> v < 2 ^ 31 \<Longrightarrow> read_int (write_int v @ rest) old = (v, rest)"
proof -
  assume v: "0 \<le> v" "v < 2 ^ 31"
  then have "v mod 2 ^ 32 = v" by simp
  moreover have "readBinaryPOD (le_bytes 4 (nat v) @ rest) 4 (nat (old mod 2 ^ 32)) = (nat v, rest)"
    using v by (intro readBinaryPOD_write) (simp add: nat_less_iff)
  moreover have "signed32 (nat v) = v" using v by (simp add: signed32_def Let_def nat_less_iff)
  ultimately show ?thesis by (simp add: read_int_def write_int_def)
qed

lemma read_floats_written:
  assumes ok: "floats_ok pe" and "length xs = n"
  shows "read_floats pe junk (vec_bytes pe xs @ rest) n = (map (as_float pe) xs, rest)"
proof -
  have len: "length (vec_bytes pe xs) = 4 * n" using ok assms(2) by (intro length_vec_bytes [THEN trans]) (simp_all add: floats_ok_def)
  then have "stream_read (vec_bytes pe xs @ rest) (map junk [0..<4 * n]) (4 * n) = (vec_bytes pe xs, rest)"
    by (intro stream_read_full) simp_all
  moreover have "map (floats_at pe (vec_bytes pe xs)) [0..<n] = map (as_float pe) xs"
    using floats_vec_bytes [OF ok] assms(2) by (intro nth_equalityI) simp_all
  ultimately show ?thesis by (simp add: read_floats_def)
qed

lemma int32_ok: "0 \<le> n \<Longrightarrow> n < 2 ^ 31 \<Longrightarrow> int32 n = Inr n"
  by (simp add: int32_def)

lemma product_ok: "0 \<le> a \<Longrightarrow> 0 \<le> b \<Longrightarrow> a * b < 2 ^ 31 \<Longrightarrow> int32 (a * b) = Inr (a * b) \<and> \<not> a * b < 0"
  using mult_nonneg_nonneg [of a b] int32_ok [of "a * b"] by linarith

lemma new_floats_ok: "0 \<le> a \<Longrightarrow> 0 \<le> b \<Longrightarrow> a * b < 2 ^ 31 \<Longrightarrow> new_floats a b = Inr (nat (a * b))"
  using product_ok [of a b] by (simp add: new_floats_def)

lemma write_floats_ok:
  "0 \<le> a \<Longrightarrow> 0 \<le> b \<Longrightarrow> a * b < 2 ^ 31 \<Longrightarrow> length xs = nat (a * b) \<Longrightarrow> write_floats pe xs a b = Inr (vec_bytes pe xs)"
  using product_ok [of a b] by (simp add: write_floats_def)

lemma read_write_bin:
  assumes fl: "floats_ok pe" and ok: "dataset_ok d"
  shows "\<exists>out. write_bin pe d = Inr out \<and> read_bin pe junk (Some out) d0 = Inr (stored pe d)"
proof -
  let ?out = "write_int (ds_dim d) @ write_int (ds_train d) @ write_int (ds_test d) @ write_int (ds_topk d)
    @ vec_bytes pe (train_data d) @ vec_bytes pe (test_data d) @ vec_bytes pe (neighbors d) @ vec_bytes pe (distances d)"
  have "write_bin pe d = Inr ?out" using ok by (simp add: write_bin_def Let_def write_floats_ok dataset_ok_def)
  moreover have "read_floats pe junk (vec_bytes pe (distances d)) (nat (ds_topk d * ds_test d)) = (map (as_float pe) (distances d), [])"
    using read_floats_written [OF fl, of "distances d" _ junk "[]"] ok by (simp add: dataset_ok_def)
  then have "read_bin pe junk (Some ?out) d0 = Inr (stored pe d)"
    using ok fl by (simp add: read_bin_def read_int_written new_floats_ok read_floats_written dataset_ok_def stored_def)
  ultimately show ?thesis by blast
qed

text \<open>\<open>create_dataset\<close> draws both sets from generators with the same seed: the shorter set is a prefix of the longer one.\<close>

lemma generate_prefix:
  assumes "generate_random_data gen dm n sd = Inr xs" and "generate_random_data gen dm m sd = Inr ys" and "0 \<le> dm" and "m \<le> n"
  shows "ys = take (length ys) xs"
proof -
  obtain a b where a: "new_floats dm n = Inr a" "xs = map (gen sd) [0..<a]" and b: "new_floats dm m = Inr b" "ys = map (gen sd) [0..<b]"
    using assms(1,2) by (auto simp: generate_random_data_def bindE_Inr_iff)
  have "dm * m \<le> dm * n" using assms(3,4) by (rule mult_left_mono [rotated])
  then have "b \<le> a" using a(1) b(1) by (auto simp: new_floats_def int32_def bindE_Inr_iff split: if_splits)
  then show ?thesis using a(2) b(2) by (simp add: take_map)
qed

end
