(* ===== verification/Tools.thy ===== *)
theory Tools
  imports Dataset
begin

text \<open>
  The programs of the repository around the library: \<open>tools/create_dataset.cpp\<close> (random vectors with their true nearest
  neighbours), \<open>tools/check_dataset.cpp\<close> (recall of the brute-force search on a data set), \<open>tools/dataset_hdf52bin.cpp\<close>
  (conversion of an HDF5 file), and \<open>src/hnsw_search.cpp\<close> (building an index and searching).

  A program takes its arguments and the files it reads and returns the file it writes or the numbers it prints; exit
  codes, failed assertions, exceptions and undefined behaviour are errors. Neighbours are stored as \<open>float\<close>: \<open>of_label\<close>
  converts a label and \<open>to_int\<close> converts back.
\<close>

subsection \<open>Numbers on the command line\<close>

definition is_space :: "char \<Rightarrow> bool" where
  "is_space c \<longleftrightarrow> (of_char c :: nat) = 32 \<or> (9 \<le> (of_char c :: nat) \<and> (of_char c :: nat) \<le> 13)"

definition is_digit :: "char \<Rightarrow> bool" where
  "is_digit c \<longleftrightarrow> 48 \<le> (of_char c :: nat) \<and> (of_char c :: nat) \<le> 57"

definition digits_val :: "string \<Rightarrow> int" where
  "digits_val s = foldl (\<lambda>n c. 10 * n + (of_char c - 48)) 0 (takeWhile is_digit s)"

text \<open>\<open>atoi\<close>, whose result is undefined if it does not fit.\<close>

definition atoi :: "string \<Rightarrow> tool_error + int" where
  "atoi s =
     (case dropWhile is_space s of
        [] \<Rightarrow> Inr 0
      | c # cs \<Rightarrow> int32 (if c = CHR ''-'' then - digits_val cs else if c = CHR ''+'' then digits_val cs else digits_val (c # cs)))"

fun nat_string :: "nat \<Rightarrow> string" where
  "nat_string n = (if n < 10 then [char_of (48 + n)] else nat_string (n div 10) @ [char_of (48 + n mod 10)])"

definition to_string :: "int \<Rightarrow> string" where
  "to_string n = (if n < 0 then ''-'' @ nat_string (nat (- n)) else nat_string (nat n))"

subsection \<open>Shared loops\<close>

definition lift_bf :: "bf_error + 'a \<Rightarrow> tool_error + 'a" where
  "lift_bf m = (case m of Inl e \<Rightarrow> Inl (Tool_bf e) | Inr x \<Rightarrow> Inr x)"

definition lift_hnsw :: "hnsw_error + 'a \<Rightarrow> tool_error + 'a" where
  "lift_hnsw m = (case m of Inl e \<Rightarrow> Inl (Tool_hnsw e) | Inr x \<Rightarrow> Inr x)"

text \<open>The conversion of an \<open>int\<close> to \<open>size_t\<close>, and the vector at \<open>data + i * dim\<close>.\<close>

definition size_of :: "int \<Rightarrow> nat" where
  "size_of n = nat (n mod 2 ^ 64)"

definition data_row :: "'f list \<Rightarrow> int \<Rightarrow> nat \<Rightarrow> tool_error + 'f list" where
  "data_row data dm i =
     bindE (int32 (int i * dm)) (\<lambda>off.
       if 0 \<le> off \<and> nat off + nat dm \<le> length data then Inr (take (nat dm) (drop (nat off) data)) else Inl Read_outside)"

text \<open>The brute-force index over the training vectors, labelled by their position.\<close>

definition add_train :: "'f py_env \<Rightarrow> 'f list \<Rightarrow> int \<Rightarrow> 'f bruteforce \<Rightarrow> nat \<Rightarrow> tool_error + 'f bruteforce" where
  "add_train pe data dm b i = bindE (data_row data dm i) (\<lambda>v. lift_bf (bf_addPoint b (vec_bytes pe v) i))"

definition build_bruteforce :: "'f::linordered_field py_env \<Rightarrow> int \<Rightarrow> int \<Rightarrow> 'f list \<Rightarrow> tool_error + 'f bruteforce" where
  "build_bruteforce pe dm train_elements data =
     bindE (lift_bf (new_BruteforceSearch (pmalloc pe) (l2_interface pe (size_of dm)) (size_of train_elements))) (\<lambda>b.
       foldE (add_train pe data dm) b [0..<nat train_elements])"

definition bf_query :: "'f::linordered_field py_env \<Rightarrow> 'f bruteforce \<Rightarrow> 'f list \<Rightarrow> int \<Rightarrow> int \<Rightarrow> nat \<Rightarrow> tool_error + ('f \<times> labeltype) list" where
  "bf_query pe b data dm topk i =
     bindE (data_row data dm i) (\<lambda>v.
       lift_bf (bf_searchKnn (pndebug pe) (dmax (penv pe)) b (vec_bytes pe v) (size_of topk) None))"

subsection \<open>create_dataset\<close>

record create_opts =
  co_topk :: int
  co_train :: int
  co_test :: int
  co_dim :: int
  co_dataset :: string

fun parse_create :: "string list \<Rightarrow> create_opts \<Rightarrow> tool_error + create_opts" where
  "parse_create [] opt = Inr opt"
| "parse_create [arg] opt = Inl (Exit_code 1)"
| "parse_create (arg # v # args) opt =
     (if arg = ''--topk'' then bindE (atoi v) (\<lambda>n. parse_create args (opt\<lparr>co_topk := n\<rparr>))
      else if arg = ''--train'' then bindE (atoi v) (\<lambda>n. parse_create args (opt\<lparr>co_train := n\<rparr>))
      else if arg = ''--test'' then bindE (atoi v) (\<lambda>n. parse_create args (opt\<lparr>co_test := n\<rparr>))
      else if arg = ''--dim'' then bindE (atoi v) (\<lambda>n. parse_create args (opt\<lparr>co_dim := n\<rparr>))
      else if arg = ''--dataset'' then parse_create args (opt\<lparr>co_dataset := v\<rparr>)
      else Inl (Exit_code 1))"

text \<open>\<open>for (int j = topk - 1; j >= 0; j--)\<close>: the neighbours of a test vector, farthest first, from the back of its row.\<close>

fun truth_row ::
    "(labeltype \<Rightarrow> 'f::linorder) \<Rightarrow> nat \<Rightarrow> nat \<Rightarrow> ('f \<times> labeltype) list \<Rightarrow> 'f list \<times> 'f list \<Rightarrow> tool_error + 'f list \<times> 'f list" where
  "truth_row of_label base 0 result arr = Inr arr"
| "truth_row of_label base (Suc j) result arr =
     (if result = [] then Inl Empty_queue
      else truth_row of_label base j (pq_pop pair_less result)
             ((fst arr)[base + j := of_label (snd (pq_top result))], (snd arr)[base + j := fst (pq_top result)]))"

definition truth_step ::
    "'f::linordered_field py_env \<Rightarrow> (labeltype \<Rightarrow> 'f) \<Rightarrow> 'f bruteforce \<Rightarrow> 'f list \<Rightarrow> int \<Rightarrow> int \<Rightarrow> 'f list \<times> 'f list \<Rightarrow> nat
      \<Rightarrow> tool_error + 'f list \<times> 'f list" where
  "truth_step pe of_label b test dm topk arr i =
     bindE (bf_query pe b test dm topk i) (\<lambda>result.
     bindE (int32 (int i * topk)) (\<lambda>base. truth_row of_label (nat base) (nat topk) result arr))"

text \<open>The values without arguments.\<close>

definition create_defaults :: create_opts where
  "create_defaults = \<lparr>co_topk = 100, co_train = 1000, co_test = 100, co_dim = 32, co_dataset = ''''\<rparr>"

definition create_dataset ::
    "'f::linordered_field py_env \<Rightarrow> (int \<Rightarrow> nat \<Rightarrow> 'f) \<Rightarrow> (labeltype \<Rightarrow> 'f) \<Rightarrow> string list \<Rightarrow> tool_error + string \<times> byte list" where
  "create_dataset pe gen of_label argv =
     bindE (parse_create argv create_defaults) (\<lambda>opt.
     let topk = co_topk opt; train_elements = co_train opt; test_elements = co_test opt; dm = co_dim opt;
         name = (if co_dataset opt = ''''
                 then ''random-euclidean-'' @ to_string dm @ ''-'' @ to_string train_elements @ ''-'' @ to_string test_elements
                 else co_dataset opt);
         bin_file_name = ''./data/'' @ name @ ''.bin''
     in bindE (generate_random_data gen dm train_elements 1) (\<lambda>train.
        bindE (generate_random_data gen dm test_elements 1) (\<lambda>test.
        bindE (build_bruteforce pe dm train_elements train) (\<lambda>b.
        bindE (new_floats test_elements topk) (\<lambda>n.
        bindE (foldE (truth_step pe of_label b test dm topk) (replicate n (uninit_float pe), replicate n (uninit_float pe)) [0..<nat test_elements])
          (\<lambda>(neigh, dists).
        bindE (write_bin pe \<lparr>ds_dim = dm, ds_train = train_elements, ds_test = test_elements, ds_topk = topk, train_data = train,
                 test_data = test, neighbors = neigh, distances = dists\<rparr>) (\<lambda>out. Inr (bin_file_name, out))))))))"

subsection \<open>check_dataset\<close>

record check_opts =
  ko_dataset :: string
  ko_topk :: int

fun parse_check :: "string list \<Rightarrow> check_opts \<Rightarrow> tool_error + check_opts" where
  "parse_check [] opt = Inr opt"
| "parse_check [arg] opt = Inl (Exit_code 1)"
| "parse_check (arg # v # args) opt =
     (if arg = ''--topk'' then bindE (atoi v) (\<lambda>n. parse_check args (opt\<lparr>ko_topk := n\<rparr>))
      else if arg = ''--dataset'' then parse_check args (opt\<lparr>ko_dataset := v\<rparr>)
      else Inl (Exit_code 1))"

text \<open>The stored neighbours of a test vector as \<open>int\<close>s, and how many of the labels found are among them: \<open>std::find\<close>
  compares an \<open>int\<close> with a \<open>size_t\<close>.\<close>

definition ground_truth :: "('f \<Rightarrow> int) \<Rightarrow> 'f list \<Rightarrow> int \<Rightarrow> int \<Rightarrow> nat \<Rightarrow> tool_error + int list" where
  "ground_truth to_int neigh dataset_topk topk i =
     mapE (\<lambda>j. bindE (int32 (int i * dataset_topk + int j)) (\<lambda>k.
       if 0 \<le> k \<and> nat k < length neigh then Inr (to_int (neigh ! nat k)) else Inl Read_outside)) [0..<nat topk]"

definition count_found :: "int list \<Rightarrow> labeltype list \<Rightarrow> int" where
  "count_found truth found = foldl (\<lambda>n l. if l \<in> set (map size_of truth) then n + 1 else n) 0 found"

definition check_step ::
    "'f::linordered_field py_env \<Rightarrow> ('f \<Rightarrow> int) \<Rightarrow> 'f bruteforce \<Rightarrow> 'f dataset \<Rightarrow> int \<Rightarrow> int \<Rightarrow> nat \<Rightarrow> tool_error + int" where
  "check_step pe to_int b d topk total_correct i =
     bindE (bf_query pe b (test_data d) (ds_dim d) topk i) (\<lambda>result.
     bindE (ground_truth to_int (neighbors d) (ds_topk d) topk i) (\<lambda>truth.
       Inr (total_correct + count_found truth (map snd (pq_drain pair_less result)))))"

definition check_defaults :: check_opts where
  "check_defaults = \<lparr>ko_dataset = ''./data/random-xs-32-euclidean.bin'', ko_topk = 1\<rparr>"

definition check_dataset ::
    "'f::linordered_field py_env \<Rightarrow> (nat \<Rightarrow> byte) \<Rightarrow> 'f dataset \<Rightarrow> ('f \<Rightarrow> int) \<Rightarrow> (string \<rightharpoonup> byte list) \<Rightarrow> string list \<Rightarrow> tool_error + int \<times> int" where
  "check_dataset pe junk uninit to_int files argv =
     bindE (parse_check argv check_defaults) (\<lambda>opt.
     bindE (read_bin pe junk (files (ko_dataset opt)) uninit) (\<lambda>d.
     let topk = ko_topk opt in
     if ds_topk d < topk then Inl (Exit_code 1)
     else bindE (build_bruteforce pe (ds_dim d) (ds_train d) (train_data d)) (\<lambda>b.
          bindE (int32 (ds_test d * topk)) (\<lambda>total_comparisons.
          bindE (foldE (check_step pe to_int b d topk) 0 [0..<nat (ds_test d)]) (\<lambda>total_correct.
            Inr (total_correct, total_comparisons))))))"

subsection \<open>dataset_hdf52bin\<close>

text \<open>
  The HDF5 library is a parameter: \<open>h5 file_name dataset_name\<close> is the two extents of a data set with its values, or
  \<open>None\<close> if the library throws. The extents are converted from \<open>hsize_t\<close> to \<open>int\<close>, and the library writes all the values into the array.
\<close>

type_synonym 'f hdf5 = "string \<Rightarrow> string \<Rightarrow> (nat \<times> nat \<times> 'f list) option"

definition read_hdf5 :: "'f py_env \<Rightarrow> 'f hdf5 \<Rightarrow> string \<Rightarrow> string \<Rightarrow> tool_error + int \<times> int \<times> 'f list" where
  "read_hdf5 pe h5 file_name dataset_name =
     (case h5 file_name dataset_name of None \<Rightarrow> Inl H5_exception
      | Some (d0, d1, vals) \<Rightarrow>
        let num_elements = signed32 (d0 mod 2 ^ 32); dm = signed32 (d1 mod 2 ^ 32) in
        bindE (new_floats dm num_elements) (\<lambda>n.
          if n < length vals then Inl Write_outside
          else Inr (num_elements, dm, vals @ replicate (n - length vals) (uninit_float pe))))"

text \<open>\<open>file_name.substr(0, file_name.find_last_of('.')) + ".bin"\<close>\<close>

definition binary_name :: "string \<Rightarrow> string" where
  "binary_name file_name =
     (if CHR ''.'' \<in> set file_name then rev (tl (dropWhile (\<lambda>c. c \<noteq> CHR ''.'') (rev file_name))) else file_name) @ ''.bin''"

text \<open>
  One iteration of a comparison loop is the sequence of its \<open>if\<close>s, each of which breaks out of the loop; a loop runs over
  \<open>a * b\<close> indices and says whether it found no difference.
\<close>

fun differs_at :: "('f list \<times> 'f list) list \<Rightarrow> nat \<Rightarrow> tool_error + bool" where
  "differs_at [] i = Inr False"
| "differs_at ((xs, ys) # arrays) i =
     (if length xs \<le> i \<or> length ys \<le> i then Inl Read_outside
      else if xs ! i \<noteq> ys ! i then Inr True else differs_at arrays i)"

fun same_from :: "('f list \<times> 'f list) list \<Rightarrow> nat \<Rightarrow> nat \<Rightarrow> tool_error + bool" where
  "same_from arrays i 0 = Inr True"
| "same_from arrays i (Suc n) = bindE (differs_at arrays i) (\<lambda>d. if d then Inr False else same_from arrays (Suc i) n)"

definition same_data :: "('f list \<times> 'f list) list \<Rightarrow> int \<Rightarrow> int \<Rightarrow> tool_error + bool" where
  "same_data arrays a b = bindE (int32 (a * b)) (\<lambda>n. same_from arrays 0 (nat n))"

text \<open>\<open>main\<close>, with the line that it reads from the terminal: the file that it writes, with its name, and whether it reports that the data is the same.\<close>

definition hdf52bin :: "'f py_env \<Rightarrow> (nat \<Rightarrow> byte) \<Rightarrow> 'f dataset \<Rightarrow> 'f hdf5 \<Rightarrow> string \<Rightarrow> tool_error + string \<times> byte list \<times> bool" where
  "hdf52bin pe junk uninit h5 line =
     (let file_name = (if line = [] then ''./data/random-xs-32-euclidean.hdf5'' else line) in
      bindE (read_hdf5 pe h5 file_name ''train'') (\<lambda>(train_elements, _, train).
      bindE (read_hdf5 pe h5 file_name ''test'') (\<lambda>(_, dm, test).
      bindE (read_hdf5 pe h5 file_name ''neighbors'') (\<lambda>(_, _, neigh).
      bindE (read_hdf5 pe h5 file_name ''distances'') (\<lambda>(test_elements, topk, dists).
      bindE (write_bin pe \<lparr>ds_dim = dm, ds_train = train_elements, ds_test = test_elements, ds_topk = topk,
               train_data = train, test_data = test, neighbors = neigh, distances = dists\<rparr>) (\<lambda>out.
      bindE (read_bin pe junk (Some out) uninit) (\<lambda>r.
      bindE (same_data [(train, train_data r)] dm train_elements) (\<lambda>s1.
      bindE (same_data [(test, test_data r)] dm test_elements) (\<lambda>s2.
      bindE (same_data [(neigh, neighbors r), (dists, distances r)] topk test_elements) (\<lambda>s3.
        Inr (binary_name file_name, out, s1 \<and> s2 \<and> s3)))))))))))"

subsection \<open>hnsw_search\<close>

record search_opts =
  so_topk :: int
  so_M :: int
  so_ef :: int
  so_dataset :: string

fun parse_search :: "string list \<Rightarrow> search_opts \<Rightarrow> tool_error + search_opts" where
  "parse_search [] opt = Inr opt"
| "parse_search [arg] opt = Inl (Exit_code 1)"
| "parse_search (arg # v # args) opt =
     (if arg = ''--topk'' then bindE (atoi v) (\<lambda>n. parse_search args (opt\<lparr>so_topk := n\<rparr>))
      else if arg = ''--M'' then bindE (atoi v) (\<lambda>n. parse_search args (opt\<lparr>so_M := n\<rparr>))
      else if arg = ''--ef'' then bindE (atoi v) (\<lambda>n. parse_search args (opt\<lparr>so_ef := n\<rparr>))
      else if arg = ''--dataset'' then parse_search args (opt\<lparr>so_dataset := v\<rparr>)
      else Inl (Exit_code 1))"

definition index_row :: "'f::linordered_field py_env \<Rightarrow> 'f list \<Rightarrow> int \<Rightarrow> 'f hnsw \<Rightarrow> nat \<Rightarrow> tool_error + 'f hnsw" where
  "index_row pe data dm h i = bindE (data_row data dm i) (\<lambda>v. lift_hnsw (addPoint (penv pe) h (vec_bytes pe v) i False))"

definition create_index :: "'f::linordered_field py_env \<Rightarrow> int \<Rightarrow> int \<Rightarrow> int \<Rightarrow> int \<Rightarrow> 'f list \<Rightarrow> tool_error + 'f hnsw" where
  "create_index pe dm train_elements M efc data =
     bindE (lift_hnsw (new_HierarchicalNSW (penv pe) (pmult pe) (l2_interface pe (size_of dm)) (size_of train_elements) (size_of M) (size_of efc) False)) (\<lambda>h.
       foldE (index_row pe data dm) h [0..<nat train_elements])"

definition search_row ::
    "'f::linordered_field py_env \<Rightarrow> 'f list \<Rightarrow> int \<Rightarrow> int \<Rightarrow> 'f hnsw \<Rightarrow> nat \<Rightarrow> tool_error + ('f \<times> labeltype) list \<times> 'f hnsw" where
  "search_row pe data dm topk h i =
     bindE (data_row data dm i) (\<lambda>v. lift_hnsw (searchKnn (penv pe) h (vec_bytes pe v) (size_of topk) None))"

definition do_search :: "'f::linordered_field py_env \<Rightarrow> 'f hnsw \<Rightarrow> 'f list \<Rightarrow> int \<Rightarrow> int \<Rightarrow> int \<Rightarrow> tool_error + 'f hnsw" where
  "do_search pe h data query_elements dm topk =
     foldE (\<lambda>h i. bindE (search_row pe data dm topk h i) (\<lambda>(_, h). Inr h)) h [0..<nat query_elements]"

text \<open>The ground truth of \<open>calculate_recall\<close>; without stored neighbours the query itself, if one neighbour is asked for.\<close>

definition recall_truth :: "('f \<Rightarrow> int) \<Rightarrow> 'f list option \<Rightarrow> int \<Rightarrow> int \<Rightarrow> nat \<Rightarrow> tool_error + int list" where
  "recall_truth to_int neigh dataset_topk topk i =
     (case neigh of
        Some xs \<Rightarrow> ground_truth to_int xs dataset_topk topk i
      | None \<Rightarrow> if topk \<le> 0 then Inr [] else if topk = 1 then Inr [int i] else Inl (Exit_code 1))"

definition recall_step ::
    "'f::linordered_field py_env \<Rightarrow> ('f \<Rightarrow> int) \<Rightarrow> 'f list \<Rightarrow> 'f list option \<Rightarrow> int \<Rightarrow> int \<Rightarrow> int \<Rightarrow> int \<times> 'f hnsw \<Rightarrow> nat
      \<Rightarrow> tool_error + int \<times> 'f hnsw" where
  "recall_step pe to_int query_data neigh dm topk dataset_topk s i =
     bindE (search_row pe query_data dm topk (snd s) i) (\<lambda>(result, h).
     bindE (recall_truth to_int neigh dataset_topk topk i) (\<lambda>truth.
       Inr (fst s + count_found truth (map snd (pq_drain pair_less result)), h)))"

text \<open>The two numbers that \<open>calculate_recall\<close> prints; it returns their quotient as a \<open>float\<close>.\<close>

definition calculate_recall ::
    "'f::linordered_field py_env \<Rightarrow> ('f \<Rightarrow> int) \<Rightarrow> 'f hnsw \<Rightarrow> 'f list \<Rightarrow> 'f list option \<Rightarrow> int \<Rightarrow> int \<Rightarrow> int \<Rightarrow> int
      \<Rightarrow> tool_error + (int \<times> int) \<times> 'f hnsw" where
  "calculate_recall pe to_int h query_data neigh num_queries dm topk dataset_topk =
     bindE (int32 (num_queries * topk)) (\<lambda>total_comparisons.
     bindE (foldE (recall_step pe to_int query_data neigh dm topk dataset_topk) (0, h) [0..<nat num_queries]) (\<lambda>(total_correct, h).
       Inr ((total_correct, total_comparisons), h)))"

definition search_defaults :: search_opts where
  "search_defaults = \<lparr>so_topk = 1, so_M = 8, so_ef = 200, so_dataset = ''./data/random-xs-32-euclidean.bin''\<rparr>"

text \<open>
  \<open>main\<close>: after \<open>read_bin\<close> no array pointer is null, so the test set is never replaced by the training set.
\<close>

definition hnsw_search :: "'f::linordered_field py_env \<Rightarrow> (nat \<Rightarrow> byte) \<Rightarrow> (string \<rightharpoonup> byte list) \<Rightarrow> string list \<Rightarrow> tool_error + 'f hnsw" where
  "hnsw_search pe junk files argv =
     bindE (parse_search argv search_defaults) (\<lambda>opt.
     bindE (read_bin pe junk (files (so_dataset opt))
              \<lparr>ds_dim = 0, ds_train = 0, ds_test = 0, ds_topk = 0, train_data = [], test_data = [], neighbors = [], distances = []\<rparr>) (\<lambda>d.
     if ds_topk d < so_topk opt then Inl (Exit_code 1)
     else bindE (create_index pe (ds_dim d) (ds_train d) (so_M opt) (so_ef opt) (train_data d)) (\<lambda>h.
            do_search pe h (test_data d) (ds_test d) (ds_dim d) (so_topk opt))))"

end
