(* ===== verification/Tools_Correct.thy ===== *)
theory Tools_Correct
  imports Tools
begin

text \<open>
  The programs of \<open>tools\<close> and \<open>src/hnsw_search.cpp\<close> on data sets of sensible sizes: a created data set passes the check, the
  binary files read back, the search program runs to its end, and its recall is a fraction.
\<close>

subsection \<open>Rows\<close>

definition vec_at :: "'f list \<Rightarrow> int \<Rightarrow> nat \<Rightarrow> 'f list" where
  "vec_at data dm i = take (nat dm) (drop (nat (int i * dm)) data)"

lemma size_of_nonneg: "0 \<le> n \<Longrightarrow> n < 2 ^ 31 \<Longrightarrow> size_of n = nat n"
  by (simp add: size_of_def)

lemma data_row_ok:
  assumes "0 \<le> dm" and "0 \<le> n" and "dm * n < 2 ^ 31" and "length data = nat (dm * n)" and "i < nat n"
  shows "data_row data dm i = Inr (vec_at data dm i)" "length (vec_at data dm i) = nat dm"
proof -
  have "(int i + 1) * dm \<le> n * dm" using assms by (intro mult_right_mono) linarith+
  then have le: "int i * dm + dm \<le> dm * n" by (simp add: algebra_simps)
  have nn: "0 \<le> int i * dm" using assms(1) by simp
  moreover have "int i * dm < 2 ^ 31" using le assms(1,3) by linarith
  ultimately have i32: "int32 (int i * dm) = Inr (int i * dm)" by (rule int32_ok)
  have "nat (int i * dm) + nat dm \<le> nat (dm * n)" using le nn assms(1) by (simp add: nat_add_distrib [symmetric] nat_mono)
  then show "data_row data dm i = Inr (vec_at data dm i)" "length (vec_at data dm i) = nat dm"
    using assms(4) i32 nn by (simp_all add: data_row_def vec_at_def)
qed

lemma generate_ok:
  assumes "0 \<le> dm" and "0 \<le> n" and "dm * n < 2 ^ 31"
  shows "\<exists>xs. generate_random_data gen dm n sd = Inr xs \<and> length xs = nat (dm * n)"
  using new_floats_ok [OF assms] by (simp add: generate_random_data_def)

subsection \<open>The brute-force index of the training set\<close>

text \<open>An allocator that returns blocks of the size asked for.\<close>

definition alloc_ok :: "'f py_env \<Rightarrow> bool" where
  "alloc_ok pe \<longleftrightarrow> (\<forall>n. \<exists>mem. pmalloc pe n = Some mem \<and> length mem = n)"

lemma l2_data_size: "get_data_size (l2_interface pe dm) = 4 * dm"
  by (simp add: l2_interface_def L2Space_def Let_def split: prod.splits)

lemma bf_addPoint_max: "bf_addPoint b v l = Inr b' \<Longrightarrow> bf_maxelements b' = bf_maxelements b"
  by (auto simp: bf_addPoint_def bindE_Inr_iff Let_def split: option.splits if_splits)

lemma build_bruteforce_ok:
  assumes fl: "floats_ok pe" and al: "alloc_ok pe" and dm: "0 \<le> dm" "dm < 2 ^ 31" and tr: "0 \<le> tr" "tr < 2 ^ 31"
    and sz: "dm * tr < 2 ^ 31" and len: "length data = nat (dm * tr)"
  shows "\<exists>b. build_bruteforce pe dm tr data = Inr b \<and> bf_wf b
    \<and> bf_elements b = map (\<lambda>i. (i, vec_bytes pe (vec_at data dm i))) [0..<nat tr]"
proof -
  let ?n = "nat tr" and ?s = "l2_interface pe (size_of dm)"
  have data_size: "get_data_size ?s = 4 * nat dm" using dm by (simp add: l2_data_size size_of_nonneg)
  have fit: "nat tr * (4 * nat dm + 8) < 2 ^ 64"
  proof -
    have "nat tr * nat dm < 2 ^ 31" using sz dm tr by (simp add: nat_mult_distrib [symmetric] mult.commute nat_less_iff)
    moreover have "nat tr < 2 ^ 31" using tr by (simp add: nat_less_iff)
    ultimately show ?thesis by (simp add: algebra_simps)
  qed
  obtain mem where mem: "pmalloc pe (?n * (4 * nat dm + 8) mod 2 ^ 64) = Some mem" "length mem = ?n * (4 * nat dm + 8)"
    using al fit by (metis alloc_ok_def mod_less)
  obtain b0 where b0: "new_BruteforceSearch (pmalloc pe) ?s ?n = Inr b0"
    and f: "bf_data b0 = mem" "bf_maxelements b0 = ?n" "bf_cur_element_count b0 = 0" "bf_size_per_element b0 = 4 * nat dm + 8"
      "bf_data_size b0 = 4 * nat dm" "bf_dict b0 = Map.empty"
    using mem(1) data_size by (auto simp: new_BruteforceSearch_def Let_def)
  have wf0: "bf_wf b0" "bf_elements b0 = []" using f mem(2) fit by (simp_all add: bf_wf_def bf_shape_def bf_elements_def mult.commute)
  define P where "P i b \<longleftrightarrow> bf_wf b \<and> bf_data_size b = 4 * nat dm \<and> bf_maxelements b = ?n
    \<and> bf_elements b = map (\<lambda>i. (i, vec_bytes pe (vec_at data dm i))) [0..<i]" for i and b :: "'a bruteforce"
  have "\<exists>b. foldE (add_train pe data dm) b0 [0..<?n] = Inr b \<and> P ?n b"
  proof (rule foldE_upt_total)
    show "P 0 b0" using wf0 f by (simp add: P_def)
  next
    fix i b assume i: "i < ?n" and P: "P i b"
    then have b: "bf_wf b" "bf_data_size b = 4 * nat dm" "bf_maxelements b = ?n"
      "bf_elements b = map (\<lambda>i. (i, vec_bytes pe (vec_at data dm i))) [0..<i]" by (simp_all add: P_def)
    note row = data_row_ok [OF dm(1) tr(1) sz len i]
    have cnt: "bf_cur_element_count b = i" using b(4) by (metis length_bf_elements diff_zero length_map length_upt)
    have "length (vec_bytes pe (vec_at data dm i)) = bf_data_size b"
      using length_vec_bytes [of pe] fl row(2) b(2) by (simp add: floats_ok_def)
    moreover have "i < 2 ^ 64" using i tr by (simp add: nat_less_iff)
    moreover have "bf_dict b i = None" using bf_wf_dict_None [OF b(1), of i] b(4) by auto
    ultimately obtain b' where run: "bf_addPoint b (vec_bytes pe (vec_at data dm i)) i = Inr b'" and b': "bf_wf b'" "bf_data_size b' = bf_data_size b"
      "bf_elements b' = bf_elements b @ [(i, vec_bytes pe (vec_at data dm i))]"
      using bf_addPoint_insert [OF b(1)] i cnt b(3) by metis
    then show "\<exists>b'. add_train pe data dm b i = Inr b' \<and> P (Suc i) b'"
      using bf_addPoint_max [OF run] run b' row(1) b by (auto simp: add_train_def lift_bf_def P_def)
  qed simp
  then show ?thesis using b0 tr by (auto simp: build_bruteforce_def size_of_nonneg lift_bf_def P_def)
qed

lemma bf_query_ok:
  assumes wf: "bf_wf b" and k: "0 \<le> topk" "nat topk \<le> bf_cur_element_count b" "topk < 2 ^ 31"
    and row: "data_row data dm i = Inr v"
  shows "\<exists>r. bf_query pe b data dm topk i = Inr r \<and> length r = nat topk \<and> is_heap pair_less r
    \<and> k_best pair_less (nat topk) (mset (map (bf_pair b (vec_bytes pe v)) (bf_elements b))) (mset r)"
proof -
  have "bf_shape b" using wf by (simp add: bf_wf_def)
  then obtain r where r: "bf_searchKnn (pndebug pe) (dmax (penv pe)) b (vec_bytes pe v) (nat topk) None = Inr r" "is_heap pair_less r"
    "k_best pair_less (nat topk) (mset (map (bf_pair b (vec_bytes pe v)) (bf_elements b))) (mset r)"
    using bf_searchKnn_best [OF _ k(2), of None "pndebug pe" "dmax (penv pe)" "vec_bytes pe v"] by (auto simp: allowed_def)
  have "size (mset r) = nat topk" using r(3) k(2) by (simp add: k_best_def)
  then show ?thesis using r row k(1,3) by (simp add: bf_query_def lift_bf_def size_of_nonneg)
qed

subsection \<open>The ground truth\<close>

lemma truth_row_drain:
  assumes "length result = k" and "base + k \<le> length ns" and "base + k \<le> length ds"
  shows "truth_row of_label base k result (ns, ds) =
    Inr (take base ns @ rev (map (of_label \<circ> snd) (pq_drain pair_less result)) @ drop (base + k) ns,
         take base ds @ rev (map fst (pq_drain pair_less result)) @ drop (base + k) ds)"
  using assms
proof (induction k arbitrary: result ns ds)
  case 0
  then show ?case by (simp add: pq_drain.simps)
next
  case (Suc i)
  have ne: "result \<noteq> []" and len: "length (pq_pop pair_less result) = i" using Suc.prems(1) by (auto simp: heap_simps)
  show ?case
    using Suc.IH [OF len, of "ns[base + i := of_label (snd (pq_top result))]" "ds[base + i := fst (pq_top result)]"] Suc.prems ne
    by (simp add: update_back pq_drain.simps [of _ result])
qed

lemma truth_loop:
  assumes R: "\<And>i. i < n \<Longrightarrow> bf_query pe b test dm topk i = Inr (R i) \<and> length (R i) = nat topk"
    and k: "0 \<le> topk" "int n * topk < 2 ^ 31"
    and len: "length ns = n * nat topk" "length ds = n * nat topk"
  shows "\<exists>ns' ds'. foldE (truth_step pe of_label b test dm topk) (ns, ds) [0..<n] = Inr (ns', ds')
    \<and> length ns' = n * nat topk \<and> length ds' = n * nat topk
    \<and> (\<forall>i<n. slice ns' (nat topk) i = rev (map (of_label \<circ> snd) (pq_drain pair_less (R i)))
         \<and> slice ds' (nat topk) i = rev (map fst (pq_drain pair_less (R i))))"
proof -
  let ?k = "nat topk"
  define P where "P m s \<longleftrightarrow> length (fst s) = n * ?k \<and> length (snd s) = n * ?k
    \<and> (\<forall>i<m. slice (fst s) ?k i = rev (map (of_label \<circ> snd) (pq_drain pair_less (R i)))
         \<and> slice (snd s) ?k i = rev (map fst (pq_drain pair_less (R i))))" for m and s :: "'a list \<times> 'a list"
  have "\<exists>s. foldE (truth_step pe of_label b test dm topk) (ns, ds) [0..<n] = Inr s \<and> P n s"
  proof (rule foldE_upt_total)
    show "P 0 (ns, ds)" using len by (simp add: P_def)
  next
    fix i s assume i: "i < n" and P: "P i s"
    obtain xs ys where s: "s = (xs, ys)" by (cases s)
    let ?xs = "rev (map (of_label \<circ> snd) (pq_drain pair_less (R i)))" and ?ys = "rev (map fst (pq_drain pair_less (R i)))"
    have l: "length ?xs = ?k" "length ?ys = ?k" using R [OF i] by (simp_all add: heap_simps)
    have "int i * topk \<le> int n * topk" using i k(1) by (intro mult_right_mono) simp_all
    then have "int32 (int i * topk) = Inr (int i * topk)" using k by (intro int32_ok) simp_all
    moreover have "nat (int i * topk) = i * ?k" using k(1) by (simp add: nat_mult_distrib)
    moreover have bound: "i * ?k + ?k \<le> n * ?k" using mult_le_mono1 [of "Suc i" n ?k] i by simp
    moreover have xl: "length xs = n * ?k" "length ys = n * ?k" using P by (simp_all add: P_def s)
    ultimately have run: "truth_step pe of_label b test dm topk s i
        = Inr (take (i * ?k) xs @ ?xs @ drop (i * ?k + ?k) xs, take (i * ?k) ys @ ?ys @ drop (i * ?k + ?k) ys)"
      using R [OF i] truth_row_drain [of "R i" ?k "i * ?k" xs ys of_label] by (simp add: truth_step_def s)
    define xs' ys' where "xs' = take (i * ?k) xs @ ?xs @ drop (i * ?k + ?k) xs" and "ys' = take (i * ?k) ys @ ?ys @ drop (i * ?k + ?k) ys"
    have "length xs' = n * ?k" "length ys' = n * ?k" "slice xs' ?k i = ?xs" "slice ys' ?k i = ?ys"
      using slice_store(1,3) [OF l(1), of i xs] slice_store(1,3) [OF l(2), of i ys] bound xl by (simp_all add: xs'_def ys'_def)
    moreover have "slice xs' ?k j = slice xs ?k j \<and> slice ys' ?k j = slice ys ?k j" if "j < i" for j
      using slice_store(2) [OF l(1), of i xs j] slice_store(2) [OF l(2), of i ys j] that bound xl by (simp add: xs'_def ys'_def)
    ultimately have "P (Suc i) (xs', ys')" using P by (auto simp: P_def s less_Suc_eq)
    then show "\<exists>s'. truth_step pe of_label b test dm topk s i = Inr s' \<and> P (Suc i) s'"
      unfolding run xs'_def [symmetric] ys'_def [symmetric] by simp
  qed simp
  then show ?thesis by (auto simp: P_def)
qed

subsection \<open>Checking\<close>

lemma mapE_Inr: "(\<And>x. x \<in> set xs \<Longrightarrow> f x = Inr (g x)) \<Longrightarrow> mapE f xs = Inr (map g xs)"
  by (induction xs) simp_all

lemma ground_truth_slice:
  assumes "0 \<le> topk" and "int n * topk < 2 ^ 31" and "length neigh = n * nat topk" and "i < n"
  shows "ground_truth to_int neigh topk topk i = Inr (map to_int (slice neigh (nat topk) i))"
proof -
  let ?k = "nat topk"
  have bound: "i * ?k + ?k \<le> n * ?k" using mult_le_mono1 [of "Suc i" n ?k] assms(4) by simp
  then have le: "i * ?k \<le> length neigh" using assms(3) by linarith
  have "(if 0 \<le> k \<and> nat k < length neigh then Inr (to_int (neigh ! nat k)) else Inl Read_outside) = Inr (to_int (neigh ! (i * ?k + j)))
      \<and> int32 k = Inr k" if j: "j < ?k" and k: "k = int i * topk + int j" for j k
  proof -
    have kk: "k = int (i * ?k + j)" using assms(1) k by simp
    have lt: "i * ?k + j < n * ?k" using bound j by simp
    moreover have "int (n * ?k) < 2 ^ 31" using assms(1,2) by simp
    ultimately have "int (i * ?k + j) < 2 ^ 31" by linarith
    then have "int32 k = Inr k" unfolding kk by (intro int32_ok) simp_all
    moreover have "nat k = i * ?k + j" "0 \<le> k" unfolding kk by (rule nat_int, rule of_nat_0_le_iff)
    ultimately show ?thesis using lt assms(3) by simp
  qed
  then have "ground_truth to_int neigh topk topk i = Inr (map (\<lambda>j. to_int (neigh ! (i * ?k + j))) [0..<?k])"
    unfolding ground_truth_def by (intro mapE_Inr) auto
  also have "map (\<lambda>j. to_int (neigh ! (i * ?k + j))) [0..<?k] = map to_int (slice neigh ?k i)"
    using bound assms(3) by (intro nth_equalityI) (simp_all add: slice_def nth_drop [OF le])
  finally show ?thesis .
qed

lemma ground_truth_index:
  assumes "0 \<le> topk" and "topk \<le> dtk" and "0 \<le> n" and "n * dtk < 2 ^ 31" and "i < nat n" and "j < nat topk"
  shows "0 \<le> int i * dtk + int j" "nat (int i * dtk + int j) < nat (n * dtk)" "int32 (int i * dtk + int j) = Inr (int i * dtk + int j)"
proof -
  have "(int i + 1) * dtk \<le> n * dtk" using assms by (intro mult_right_mono) linarith+
  then have lt: "int i * dtk + int j < n * dtk" using assms(2,6) by (simp add: algebra_simps)
  show nn: "0 \<le> int i * dtk + int j" using assms(1,2) by simp
  show "nat (int i * dtk + int j) < nat (n * dtk)" using lt nn by simp
  show "int32 (int i * dtk + int j) = Inr (int i * dtk + int j)" using lt nn assms(4) by (intro int32_ok) simp_all
qed

lemma ground_truth_inside:
  assumes "0 \<le> topk" and "topk \<le> dtk" and "0 \<le> n" and "n * dtk < 2 ^ 31" and "length neigh = nat (n * dtk)" and "i < nat n"
  shows "\<exists>truth. ground_truth to_int neigh dtk topk i = Inr truth"
proof -
  have "ground_truth to_int neigh dtk topk i = Inr (map (\<lambda>j. to_int (neigh ! nat (int i * dtk + int j))) [0..<nat topk])"
    unfolding ground_truth_def
    by (rule mapE_Inr) (use ground_truth_index [OF assms(1-4,6)] assms(5) in \<open>simp\<close>)
  then show ?thesis by blast
qed

lemma count_found_filter: "count_found truth found = int (length (filter (\<lambda>l. l \<in> set (map size_of truth)) found))"
proof -
  have "foldl (\<lambda>n l. if l \<in> S then n + 1 else n) m found = m + int (length (filter (\<lambda>l. l \<in> S) found))" for m :: int and S
    by (induction found arbitrary: m) simp_all
  then show ?thesis by (simp add: count_found_def)
qed

lemma count_found_bounds: "0 \<le> count_found truth found" "count_found truth found \<le> int (length found)"
  by (simp_all add: count_found_filter)

text \<open>The sizes of a run of \<open>create_dataset\<close>.\<close>

definition sizes_ok :: "create_opts \<Rightarrow> bool" where
  "sizes_ok opt \<longleftrightarrow> 0 \<le> co_dim opt \<and> co_dim opt < 2 ^ 31 \<and> 0 \<le> co_train opt \<and> co_train opt < 2 ^ 31
     \<and> 0 \<le> co_test opt \<and> co_test opt < 2 ^ 31 \<and> 0 \<le> co_topk opt \<and> co_topk opt \<le> co_train opt
     \<and> co_dim opt * co_train opt < 2 ^ 31 \<and> co_dim opt * co_test opt < 2 ^ 31 \<and> co_topk opt * co_test opt < 2 ^ 31"

text \<open>
  A data set as \<open>create_dataset\<close> writes it: for every test vector the results of the brute-force search, which are
  the nearest training vectors, with the labels and distances in its rows.
\<close>

definition true_dataset :: "'f::linordered_field py_env \<Rightarrow> (labeltype \<Rightarrow> 'f) \<Rightarrow> 'f dataset \<Rightarrow> 'f bruteforce \<Rightarrow> (nat \<Rightarrow> ('f \<times> labeltype) list) \<Rightarrow> bool" where
  "true_dataset pe of_label d b R \<longleftrightarrow> dataset_ok d \<and> build_bruteforce pe (ds_dim d) (ds_train d) (train_data d) = Inr b
    \<and> (\<forall>i<nat (ds_test d). bf_query pe b (test_data d) (ds_dim d) (ds_topk d) i = Inr (R i) \<and> length (R i) = nat (ds_topk d)
         \<and> k_best pair_less (nat (ds_topk d)) (mset (map (\<lambda>j. (bf_fstdistfunc b (vec_bytes pe (vec_at (test_data d) (ds_dim d) i))
               (vec_bytes pe (vec_at (train_data d) (ds_dim d) j)), j)) [0..<nat (ds_train d)])) (mset (R i))
         \<and> slice (neighbors d) (nat (ds_topk d)) i = rev (map (of_label \<circ> snd) (pq_drain pair_less (R i)))
         \<and> slice (distances d) (nat (ds_topk d)) i = rev (map fst (pq_drain pair_less (R i)))
         \<and> sorted (slice (distances d) (nat (ds_topk d)) i))"

lemma created:
  assumes fl: "floats_ok pe" and al: "alloc_ok pe" and opt: "parse_create argv create_defaults = Inr opt" and sz: "sizes_ok opt"
  shows "\<exists>name out d b R. create_dataset pe gen of_label argv = Inr (name, out) \<and> write_bin pe d = Inr out \<and> true_dataset pe of_label d b R
    \<and> ds_dim d = co_dim opt \<and> ds_train d = co_train opt \<and> ds_test d = co_test opt \<and> ds_topk d = co_topk opt
    \<and> generate_random_data gen (co_dim opt) (co_train opt) 1 = Inr (train_data d)
    \<and> generate_random_data gen (co_dim opt) (co_test opt) 1 = Inr (test_data d)"
proof -
  let ?dm = "co_dim opt" and ?tr = "co_train opt" and ?te = "co_test opt" and ?tk = "co_topk opt"
  have s: "0 \<le> ?dm" "?dm < 2 ^ 31" "0 \<le> ?tr" "?tr < 2 ^ 31" "0 \<le> ?te" "?te < 2 ^ 31" "0 \<le> ?tk" "?tk \<le> ?tr"
    "?dm * ?tr < 2 ^ 31" "?dm * ?te < 2 ^ 31" "?tk * ?te < 2 ^ 31"
    using sz by (simp_all add: sizes_ok_def)
  obtain train where train: "generate_random_data gen ?dm ?tr 1 = Inr train" "length train = nat (?dm * ?tr)"
    using generate_ok [OF s(1,3,9)] by blast
  obtain test where test: "generate_random_data gen ?dm ?te 1 = Inr test" "length test = nat (?dm * ?te)"
    using generate_ok [OF s(1,5,10)] by blast
  obtain b where b: "build_bruteforce pe ?dm ?tr train = Inr b" "bf_wf b"
    "bf_elements b = map (\<lambda>i. (i, vec_bytes pe (vec_at train ?dm i))) [0..<nat ?tr]"
    using build_bruteforce_ok [OF fl al s(1-4,9) train(2)] by blast
  have cnt: "bf_cur_element_count b = nat ?tr" using b(3) by (metis length_bf_elements diff_zero length_map length_upt)
  have tk31: "nat ?tk \<le> bf_cur_element_count b" "?tk < 2 ^ 31" using s cnt by (simp_all add: nat_mono)
  define R where "R i = projr (bf_query pe b test ?dm ?tk i)" for i
  have R: "bf_query pe b test ?dm ?tk i = Inr (R i) \<and> length (R i) = nat ?tk \<and> is_heap pair_less (R i)
      \<and> k_best pair_less (nat ?tk) (mset (map (bf_pair b (vec_bytes pe (vec_at test ?dm i))) (bf_elements b))) (mset (R i))"
    if "i < nat ?te" for i
    using bf_query_ok [OF b(2) s(7) tk31 data_row_ok(1) [OF s(1,5,10) test(2) that], of pe] by (auto simp: R_def)
  have tk: "int (nat ?te) * ?tk < 2 ^ 31" using s(5,11) by (simp add: mult.commute)
  let ?n = "nat (?te * ?tk)" and ?u = "uninit_float pe"
  have n: "new_floats ?te ?tk = Inr ?n" using s by (intro new_floats_ok) (simp_all add: mult.commute)
  have nn: "?n = nat ?te * nat ?tk" using s by (simp add: nat_mult_distrib)
  obtain ns ds where loop: "foldE (truth_step pe of_label b test ?dm ?tk) (replicate ?n ?u, replicate ?n ?u) [0..<nat ?te] = Inr (ns, ds)"
    and arr: "length ns = nat ?te * nat ?tk" "length ds = nat ?te * nat ?tk"
      "\<forall>i<nat ?te. slice ns (nat ?tk) i = rev (map (of_label \<circ> snd) (pq_drain pair_less (R i)))
         \<and> slice ds (nat ?tk) i = rev (map fst (pq_drain pair_less (R i)))"
    using truth_loop [where R = R and n = "nat ?te" and pe = pe and b = b and test = test and dm = ?dm and topk = ?tk and of_label = of_label
        and ns = "replicate ?n ?u" and ds = "replicate ?n ?u"] R s(7) tk nn by auto
  define d where "d = \<lparr>ds_dim = ?dm, ds_train = ?tr, ds_test = ?te, ds_topk = ?tk, train_data = train, test_data = test, neighbors = ns, distances = ds\<rparr>"
  have "nat (?tk * ?te) = nat ?te * nat ?tk" using s by (simp add: nat_mult_distrib mult.commute)
  then have ok: "dataset_ok d" using s train(2) test(2) arr by (simp add: dataset_ok_def d_def)
  obtain out where out: "write_bin pe d = Inr out" using read_write_bin [OF fl ok] by blast
  have "map (bf_pair b q) (bf_elements b) = map (\<lambda>j. (bf_fstdistfunc b q (vec_bytes pe (vec_at train ?dm j)), j)) [0..<nat ?tr]" for q
    by (simp add: b(3) bf_pair_def comp_def)
  then have "true_dataset pe of_label d b R"
    using R arr(3) sorted_map_fst_drain ok b(1) by (auto simp: true_dataset_def d_def)
  moreover obtain name where "create_dataset pe gen of_label argv = Inr (name, out)"
    using opt train(1) test(1) b(1) n loop out by (simp add: create_dataset_def Let_def d_def)
  moreover have "ds_dim d = ?dm" "ds_train d = ?tr" "ds_test d = ?te" "ds_topk d = ?tk" "train_data d = train" "test_data d = test" by (simp_all add: d_def)
  ultimately show ?thesis using out train(1) test(1) by blast
qed

subsection \<open>A created data set passes the check\<close>

lemma check_loop:
  assumes td: "true_dataset pe of_label d b R" and same: "train_data d' = train_data d" "test_data d' = test_data d"
    "neighbors d' = map (as_float pe) (neighbors d)" "ds_dim d' = ds_dim d" "ds_topk d' = ds_topk d" "ds_test d' = ds_test d"
    and lab: "\<And>l. l < nat (ds_train d) \<Longrightarrow> to_int (as_float pe (of_label l)) = int l"
  shows "foldE (check_step pe to_int b d' (ds_topk d)) 0 [0..<nat (ds_test d)] = Inr (ds_test d * ds_topk d)"
proof -
  let ?n = "nat (ds_test d)" and ?tk = "ds_topk d"
  have ok: "dataset_ok d" using td by (simp add: true_dataset_def)
  have s: "0 \<le> ?tk" "0 \<le> ds_test d" "ds_train d < 2 ^ 31" "0 \<le> ds_train d" "?tk * ds_test d < 2 ^ 31" using ok by (simp_all add: dataset_ok_def)
  have len: "length (neighbors d') = ?n * nat ?tk" using ok s by (simp add: dataset_ok_def same nat_mult_distrib mult.commute)
  have tk: "int ?n * ?tk < 2 ^ 31" using s by (simp add: mult.commute)
  have step: "check_step pe to_int b d' ?tk t i = Inr (t + ?tk)" if i: "i < ?n" for t i
  proof -
    have R: "bf_query pe b (test_data d) (ds_dim d) ?tk i = Inr (R i)" "length (R i) = nat ?tk"
      "slice (neighbors d) (nat ?tk) i = rev (map (of_label \<circ> snd) (pq_drain pair_less (R i)))"
      "mset (R i) \<subseteq># mset (map (\<lambda>j. (bf_fstdistfunc b (vec_bytes pe (vec_at (test_data d) (ds_dim d) i))
               (vec_bytes pe (vec_at (train_data d) (ds_dim d) j)), j)) [0..<nat (ds_train d)])"
      using td i by (auto simp: true_dataset_def k_best_def)
    let ?found = "map snd (pq_drain pair_less (R i))"
    have small: "l < nat (ds_train d)" if "l \<in> set ?found" for l
      using that set_mset_mono [OF R(4)] by (auto simp: set_pq_drain)
    have sz: "size_of (to_int (as_float pe (of_label l))) = l" if "l \<in> set ?found" for l
    proof -
      have "int l < 2 ^ 31" using small [OF that] s(3,4) by linarith
      then show ?thesis using lab [OF small [OF that]] by (simp add: size_of_nonneg)
    qed
    have slice_map: "slice (map f xs) k i = map f (slice xs k i)" for f :: "'a \<Rightarrow> 'a" and xs k by (simp add: slice_def take_map drop_map)
    have truth: "ground_truth to_int (neighbors d') ?tk ?tk i = Inr (map to_int (slice (neighbors d') (nat ?tk) i))"
      by (rule ground_truth_slice [OF s(1) tk len i])
    have "set (map size_of (map to_int (slice (neighbors d') (nat ?tk) i))) = set ?found"
    proof -
      have "set (map size_of (map to_int (slice (neighbors d') (nat ?tk) i))) = (\<lambda>l. size_of (to_int (as_float pe (of_label l)))) ` set ?found"
        unfolding same slice_map R(3) by (simp add: image_comp comp_def)
      also have "\<dots> = set ?found" using sz by force
      finally show ?thesis .
    qed
    then have "count_found (map to_int (slice (neighbors d') (nat ?tk) i)) ?found = int (length ?found)"
      unfolding count_found_filter by (metis (mono_tags, lifting) filter_True)
    then show ?thesis using R(1,2) s(1) truth by (simp add: check_step_def same heap_simps)
  qed
  have "foldE (check_step pe to_int b d' ?tk) 0 [0..<m] = Inr (int m * ?tk)" if "m \<le> ?n" for m
    using that by (induction m) (simp_all add: foldE_append step algebra_simps)
  from this [of ?n] show ?thesis using s(2) by simp
qed

lemma generated_exact:
  assumes "generate_random_data gen dm n sd = Inr xs" and "\<And>i. as_float pe (gen sd i) = gen sd i"
  shows "map (as_float pe) xs = xs"
  using assms by (auto simp: generate_random_data_def bindE_Inr_iff)

text \<open>
  \<^bold>\<open>C16.\<close> Creating and checking a data set: for sizes within the limits of \<open>int\<close> and at most as many neighbours as training
  vectors, \<open>create_dataset\<close> writes a file whose neighbours are the nearest training vectors of each test vector in order of
  distance, and \<open>check_dataset\<close> on that file, with the same number of neighbours, finds all of them: it prints equal numbers of correct labels and
  of comparisons. Generated numbers and labels are assumed to be exact as \<open>float\<close>.
\<close>

theorem created_dataset_checks:
  assumes fl: "floats_ok pe" and al: "alloc_ok pe" and opt: "parse_create argv create_defaults = Inr opt" and sz: "sizes_ok opt"
    and gen: "\<And>i. as_float pe (gen 1 i) = gen 1 i" and lab: "\<And>l. l < nat (co_train opt) \<Longrightarrow> to_int (as_float pe (of_label l)) = int l"
    and chk: "parse_check argv' check_defaults = Inr \<lparr>ko_dataset = path, ko_topk = co_topk opt\<rparr>"
  shows "\<exists>name out d b R. create_dataset pe gen of_label argv = Inr (name, out) \<and> write_bin pe d = Inr out \<and> true_dataset pe of_label d b R
    \<and> check_dataset pe junk uninit to_int (files(path \<mapsto> out)) argv' = Inr (co_test opt * co_topk opt, co_test opt * co_topk opt)"
proof -
  obtain name out d b R where run: "create_dataset pe gen of_label argv = Inr (name, out)" and out: "write_bin pe d = Inr out"
    and td: "true_dataset pe of_label d b R" and f: "ds_dim d = co_dim opt" "ds_train d = co_train opt" "ds_test d = co_test opt" "ds_topk d = co_topk opt"
    and data: "generate_random_data gen (co_dim opt) (co_train opt) 1 = Inr (train_data d)"
      "generate_random_data gen (co_dim opt) (co_test opt) 1 = Inr (test_data d)"
    using created [OF fl al opt sz, of gen of_label] by blast
  have ok: "dataset_ok d" and bf: "build_bruteforce pe (ds_dim d) (ds_train d) (train_data d) = Inr b" using td by (simp_all add: true_dataset_def)
  let ?d = "stored pe d"
  have same: "train_data ?d = train_data d" "test_data ?d = test_data d" "neighbors ?d = map (as_float pe) (neighbors d)"
    "ds_dim ?d = ds_dim d" "ds_topk ?d = ds_topk d" "ds_test ?d = ds_test d" "ds_train ?d = ds_train d"
    using generated_exact [OF data(1), of pe] generated_exact [OF data(2), of pe] gen by (simp_all add: stored_def)
  have rd: "read_bin pe junk (Some out) uninit = Inr ?d" using read_write_bin [OF fl ok, of junk uninit] out by auto
  have loop: "foldE (check_step pe to_int b ?d (ds_topk d)) 0 [0..<nat (ds_test d)] = Inr (ds_test d * ds_topk d)"
    using lab f by (intro check_loop [OF td same(1-6)]) simp
  have "int32 (ds_test d * ds_topk d) = Inr (ds_test d * ds_topk d)"
    using ok by (intro product_ok [THEN conjunct1]) (simp_all add: dataset_ok_def mult.commute)
  then have "check_dataset pe junk uninit to_int (files(path \<mapsto> out)) argv' = Inr (ds_test d * ds_topk d, ds_test d * ds_topk d)"
    using chk rd bf loop same f by (simp add: check_dataset_def Let_def)
  then show ?thesis using run out td f by auto
qed

definition no_data :: "'f dataset" where
  "no_data = \<lparr>ds_dim = 0, ds_train = 0, ds_test = 0, ds_topk = 0, train_data = [], test_data = [], neighbors = [], distances = []\<rparr>"

definition demo_gen :: "int \<Rightarrow> nat \<Rightarrow> rat" where
  "demo_gen sd i = (if i = 1 then 5 else 2)"

lemma demo_atoi: "atoi ''1'' = Inr 1" "atoi ''2'' = Inr 2"
  by (simp_all add: atoi_def is_space_def is_digit_def digits_val_def int32_def)

theorem created_dataset_checks_witness:
  "\<exists>name out. create_dataset demo_py demo_gen rat_of_nat [''--topk'', ''1'', ''--train'', ''2'', ''--test'', ''1'', ''--dim'', ''1''] = Inr (name, out)
    \<and> check_dataset demo_py (\<lambda>_. 0) no_data floor [''data'' \<mapsto> out] [''--dataset'', ''data'', ''--topk'', ''1''] = Inr (1, 1)"
proof -
  let ?opt = "\<lparr>co_topk = 1, co_train = 2, co_test = 1, co_dim = 1, co_dataset = ''''\<rparr>"
  have p: "parse_create [''--topk'', ''1'', ''--train'', ''2'', ''--test'', ''1'', ''--dim'', ''1''] create_defaults = Inr ?opt"
    "parse_check [''--dataset'', ''data'', ''--topk'', ''1''] check_defaults = Inr \<lparr>ko_dataset = ''data'', ko_topk = co_topk ?opt\<rparr>"
    by (simp_all add: demo_atoi create_defaults_def check_defaults_def)
  have fl: "floats_ok demo_py" "alloc_ok demo_py" "sizes_ok ?opt" by (simp_all add: floats_ok_def alloc_ok_def sizes_ok_def demo_py_def)
  have ex: "as_float demo_py (demo_gen 1 i) = demo_gen 1 i" for i by (simp add: as_float_def demo_py_def demo_gen_def)
  have two: "l < 2 \<longleftrightarrow> l = 0 \<or> l = 1" for l :: nat by auto
  have lab: "\<lfloor>as_float demo_py (rat_of_nat l)\<rfloor> = int l" if "l < nat (co_train ?opt)" for l
    using that by (auto simp: as_float_def demo_py_def two)
  show ?thesis
    using created_dataset_checks [where gen = demo_gen and of_label = rat_of_nat and to_int = floor and files = Map.empty and junk = "\<lambda>_. 0"
        and uninit = no_data, OF fl(1,2) p(1) fl(3) ex lab p(2)] by auto
qed

subsection \<open>dataset_hdf52bin\<close>

text \<open>An HDF5 file of a data set: the four arrays under their names, with their extents.\<close>

definition hdf5_of :: "'f dataset \<Rightarrow> string \<Rightarrow> 'f hdf5 \<Rightarrow> bool" where
  "hdf5_of d file_name h5 \<longleftrightarrow>
     h5 file_name ''train'' = Some (nat (ds_train d), nat (ds_dim d), train_data d)
   \<and> h5 file_name ''test'' = Some (nat (ds_test d), nat (ds_dim d), test_data d)
   \<and> h5 file_name ''neighbors'' = Some (nat (ds_test d), nat (ds_topk d), neighbors d)
   \<and> h5 file_name ''distances'' = Some (nat (ds_test d), nat (ds_topk d), distances d)"

lemma file_of_exact:
  assumes "floats_ok pe" and "dataset_ok d" and "stored pe d = d"
  shows "\<exists>out. write_bin pe d = Inr out \<and> (\<forall>junk d0. read_bin pe junk (Some out) d0 = Inr d)"
proof -
  obtain out where out: "write_bin pe d = Inr out" using read_write_bin [OF assms(1,2)] by blast
  have "read_bin pe junk (Some out) d0 = Inr d" for junk d0
    using read_write_bin [OF assms(1,2), of junk d0] out assms(3) by simp
  then show ?thesis using out by blast
qed

lemma read_hdf5_ok:
  assumes "lib file_name name = Some (nat a, nat b, vals)" and "0 \<le> a" "a < 2 ^ 31" "0 \<le> b" "b < 2 ^ 31" "b * a < 2 ^ 31"
    and "length vals = nat (b * a)"
  shows "read_hdf5 pe lib file_name name = Inr (a, b, vals)"
proof -
  have s: "signed32 (nat x mod 2 ^ 32) = x" if "0 \<le> x" "x < 2 ^ 31" for x
    using that by (simp add: signed32_def Let_def nat_less_iff)
  show ?thesis
    using assms s [OF assms(2,3)] s [OF assms(4,5)] new_floats_ok [OF assms(4,2,6)] by (simp add: read_hdf5_def)
qed

lemma differs_at_self: "\<forall>xs\<in>set arrays. i < length xs \<Longrightarrow> differs_at (map (\<lambda>xs. (xs, xs)) arrays) i = Inr False"
  by (induction arrays) auto

lemma same_from_self: "\<forall>xs\<in>set arrays. i + n \<le> length xs \<Longrightarrow> same_from (map (\<lambda>xs. (xs, xs)) arrays) i n = Inr True"
proof (induction n arbitrary: i)
  case (Suc n)
  then have "differs_at (map (\<lambda>xs. (xs, xs)) arrays) i = Inr False" by (intro differs_at_self) auto
  moreover have "same_from (map (\<lambda>xs. (xs, xs)) arrays) (Suc i) n = Inr True" using Suc by simp
  ultimately show ?case by simp
qed simp

lemma same_data_self:
  assumes "0 \<le> a" "0 \<le> b" "a * b < 2 ^ 31" and "\<forall>xs\<in>set arrays. length xs = nat (a * b)"
  shows "same_data (map (\<lambda>xs. (xs, xs)) arrays) a b = Inr True"
proof -
  have "same_from (map (\<lambda>xs. (xs, xs)) arrays) 0 (nat (a * b)) = Inr True" using assms(4) by (intro same_from_self) simp
  then show ?thesis using product_ok [OF assms(1-3)] by (simp add: same_data_def)
qed

text \<open>
  \<^bold>\<open>C18.\<close> The conversion of an HDF5 file whose four arrays have matching extents and hold \<open>float\<close> values: the program runs to its
  end and reports that the data is the same, and the file that it writes reads back as exactly that data set.
\<close>

theorem hdf52bin_roundtrip:
  assumes fl: "floats_ok pe" and ok: "dataset_ok d" and ex: "stored pe d = d" and h5: "hdf5_of d file_name h5" and name: "file_name \<noteq> []"
  shows "\<exists>out. hdf52bin pe junk uninit h5 file_name = Inr (binary_name file_name, out, True)
    \<and> (\<forall>junk' d0. read_bin pe junk' (Some out) d0 = Inr d)"
proof -
  have s: "0 \<le> ds_dim d" "ds_dim d < 2 ^ 31" "0 \<le> ds_train d" "ds_train d < 2 ^ 31" "0 \<le> ds_test d" "ds_test d < 2 ^ 31"
    "0 \<le> ds_topk d" "ds_topk d < 2 ^ 31" "ds_dim d * ds_train d < 2 ^ 31" "ds_dim d * ds_test d < 2 ^ 31" "ds_topk d * ds_test d < 2 ^ 31"
    and l: "length (train_data d) = nat (ds_dim d * ds_train d)" "length (test_data d) = nat (ds_dim d * ds_test d)"
    "length (neighbors d) = nat (ds_topk d * ds_test d)" "length (distances d) = nat (ds_topk d * ds_test d)"
    using ok by (simp_all add: dataset_ok_def)
  have h: "h5 file_name ''train'' = Some (nat (ds_train d), nat (ds_dim d), train_data d)"
    "h5 file_name ''test'' = Some (nat (ds_test d), nat (ds_dim d), test_data d)"
    "h5 file_name ''neighbors'' = Some (nat (ds_test d), nat (ds_topk d), neighbors d)"
    "h5 file_name ''distances'' = Some (nat (ds_test d), nat (ds_topk d), distances d)"
    using h5 by (simp_all add: hdf5_of_def)
  note reads = read_hdf5_ok [where lib = h5, OF h(1) s(3,4,1,2,9) l(1), of pe] read_hdf5_ok [where lib = h5, OF h(2) s(5,6,1,2,10) l(2), of pe]
    read_hdf5_ok [where lib = h5, OF h(3) s(5,6,7,8,11) l(3), of pe] read_hdf5_ok [where lib = h5, OF h(4) s(5,6,7,8,11) l(4), of pe]
  have eta: "\<lparr>ds_dim = ds_dim d, ds_train = ds_train d, ds_test = ds_test d, ds_topk = ds_topk d, train_data = train_data d,
      test_data = test_data d, neighbors = neighbors d, distances = distances d\<rparr> = d" by simp
  obtain out where out: "write_bin pe d = Inr out" "\<And>junk d0. read_bin pe junk (Some out) d0 = Inr d"
    using file_of_exact [OF fl ok ex] by blast
  have same: "same_data [(train_data d, train_data d)] (ds_dim d) (ds_train d) = Inr True"
    "same_data [(test_data d, test_data d)] (ds_dim d) (ds_test d) = Inr True"
    "same_data [(neighbors d, neighbors d), (distances d, distances d)] (ds_topk d) (ds_test d) = Inr True"
    using same_data_self [OF s(1,3,9), of "[train_data d]"] same_data_self [OF s(1,5,10), of "[test_data d]"]
      same_data_self [OF s(7,5,11), of "[neighbors d, distances d]"] l by simp_all
  show ?thesis
    using reads out same name by (intro exI [of _ out]) (simp add: hdf52bin_def Let_def eta)
qed

definition demo_data :: "rat dataset" where
  "demo_data = \<lparr>ds_dim = 1, ds_train = 2, ds_test = 1, ds_topk = 1, train_data = [2, 5], test_data = [2], neighbors = [0], distances = [0]\<rparr>"

lemma demo_data_ok: "dataset_ok demo_data" "stored demo_py demo_data = demo_data" "floats_ok demo_py" "env_ok (penv demo_py)"
  by (simp_all add: dataset_ok_def stored_def demo_data_def as_float_def demo_py_def floats_ok_def env_ok_def)

theorem hdf52bin_roundtrip_witness:
  "\<exists>out. hdf52bin demo_py (\<lambda>_. 0) no_data (\<lambda>_ name. if name = ''train'' then Some (2, 1, [2, 5])
      else if name = ''test'' then Some (1, 1, [2]) else Some (1, 1, [0])) ''data.hdf5'' = Inr (''data.bin'', out, True)"
proof -
  let ?h5 = "\<lambda>_ name. if name = ''train'' then Some (2, 1, [2, 5]) else if name = ''test'' then Some (1, 1, [2]) else Some (1, 1, [0])"
  have "hdf5_of demo_data ''data.hdf5'' ?h5" by (simp add: hdf5_of_def demo_data_def)
  moreover have "binary_name ''data.hdf5'' = ''data.bin''" by (simp add: binary_name_def)
  ultimately show ?thesis
    using hdf52bin_roundtrip [OF demo_data_ok(3,1,2), of "''data.hdf5''" ?h5 "\<lambda>_. 0" no_data] by auto
qed

subsection \<open>hnsw_search\<close>

lemma create_index_ok:
  assumes fl: "floats_ok pe" and env: "env_ok (penv pe)" and dm: "0 \<le> dm" "dm < 2 ^ 31" and tr: "0 \<le> tr" "tr < 2 ^ 31"
    and sz: "dm * tr < 2 ^ 31" and len: "length data = nat (dm * tr)" and M: "0 < M" "M < 2 ^ 31" "0 \<le> efc" "efc < 2 ^ 31"
  shows "\<exists>h. create_index pe dm tr M efc data = Inr h \<and> usable h \<and> deleted_ids h = {} \<and> cur_element_count h = nat tr
    \<and> (\<forall>i<nat tr. \<exists>j<nat tr. label_lookup h i = Some j \<and> e_data (data_level0 h ! j) = vec_bytes pe (vec_at data dm i))"
proof -
  let ?n = "nat tr" and ?s = "l2_interface pe (nat dm)" and ?vec = "\<lambda>i. vec_bytes pe (vec_at data dm i)"
  obtain h0 where h0: "new_HierarchicalNSW (penv pe) (pmult pe) ?s ?n (nat M) (nat efc) False = Inr h0"
    using env by (simp add: new_HierarchicalNSW_def Let_def env_ok_def)
  have us: "usable h0" using M tr by (intro usable_new [OF h0]) (simp_all add: nat_less_iff)
  have f: "cur_element_count h0 = 0" "max_elements h0 = ?n" "hn_data_size h0 = 4 * nat dm" "label_lookup h0 = Map.empty"
    using h0 by (auto simp: new_HierarchicalNSW_def Let_def bindE_Inr_iff l2_data_size)
  define P where "P i h \<longleftrightarrow> added h0 (\<lambda>i. i) ?vec h [0..<i]" for i h
  have "\<exists>h. foldE (index_row pe data dm) h0 [0..<?n] = Inr h \<and> P ?n h"
  proof (rule foldE_upt_total)
    show "P 0 h0" using us f by (simp add: P_def added_def deleted_ids_def)
  next
    fix i h assume i: "i < ?n" and P: "P i h"
    note row = data_row_ok [OF dm(1) tr(1) sz len i]
    have "length (?vec i) = hn_data_size h0" using length_vec_bytes [of pe] fl row(2) f by (simp add: floats_ok_def)
    then obtain h' where "addPoint (penv pe) h (?vec i) i False = Inr h'" "added h0 (\<lambda>i. i) ?vec h' ([0..<i] @ [i])"
      using added_step [OF P [unfolded P_def] env, of i] i f by auto
    then show "\<exists>h'. index_row pe data dm h i = Inr h' \<and> P (Suc i) h'"
      using row(1) by (simp add: index_row_def lift_hnsw_def P_def)
  qed simp
  then obtain h where h: "foldE (index_row pe data dm) h0 [0..<?n] = Inr h" "P ?n h" by blast
  then show ?thesis
    using h0 dm tr M f by (auto simp: create_index_def size_of_nonneg lift_hnsw_def P_def added_def)
qed

lemma search_row_ok:
  assumes "hnsw_wf h" and "data_row data dm i = Inr v"
  shows "\<exists>r h'. search_row pe data dm topk h i = Inr (r, h') \<and> searchKnn (penv pe) h (vec_bytes pe v) (size_of topk) None = Inr (r, h')
    \<and> hnsw_wf h' \<and> search_frame h h' \<and> length r \<le> size_of topk"
  using searchKnn_returns [OF assms(1), of "penv pe" "vec_bytes pe v" "size_of topk" None] assms(2)
  by (auto simp: search_row_def lift_hnsw_def)



text \<open>
  The recall of \<open>calculate_recall\<close> is a fraction between 0 and 1: on a well-formed index and with stored neighbours for
  every query the function returns, and it counts at most as many correct labels as comparisons.
\<close>

theorem calculate_recall_fraction:
  assumes wf: "hnsw_wf h" and dm: "0 \<le> dm" "0 \<le> n" "dm * n < 2 ^ 31" "length query_data = nat (dm * n)"
    and k: "0 \<le> topk" "topk \<le> dataset_topk" "n * dataset_topk < 2 ^ 31" "length neigh = nat (n * dataset_topk)"
  shows "\<exists>c h'. calculate_recall pe to_int h query_data (Some neigh) n dm topk dataset_topk = Inr ((c, n * topk), h')
    \<and> 0 \<le> c \<and> c \<le> n * topk \<and> search_frame h h'"
proof -
  let ?step = "recall_step pe to_int query_data (Some neigh) dm topk dataset_topk"
  have kn: "n * topk \<le> n * dataset_topk" using k(2) dm(2) by (rule mult_left_mono)
  have k31: "topk < 2 ^ 31" if "0 < n"
  proof -
    have "1 * topk \<le> n * topk" using that k(1) by (intro mult_right_mono) simp_all
    then show ?thesis using kn k(3) by simp
  qed
  define P where "P i s \<longleftrightarrow> 0 \<le> fst s \<and> fst s \<le> int i * topk \<and> hnsw_wf (snd s) \<and> search_frame h (snd s)" for i s
  have "\<exists>s. foldE ?step (0, h) [0..<nat n] = Inr s \<and> P (nat n) s"
  proof (rule foldE_upt_total)
    show "P 0 (0, h)" using wf search_frame_refl by (simp add: P_def)
  next
    fix i s assume i: "i < nat n" and P: "P i s"
    then have sz: "size_of topk = nat topk" using k31 k(1) by (simp add: size_of_nonneg)
    obtain r g where r: "search_row pe query_data dm topk (snd s) i = Inr (r, g)" "hnsw_wf g" "search_frame (snd s) g" "length r \<le> nat topk"
      using search_row_ok [OF _ data_row_ok(1) [OF dm i], of "snd s" pe topk] P sz by (auto simp: P_def)
    obtain truth where t: "ground_truth to_int neigh dataset_topk topk i = Inr truth"
      using ground_truth_inside [OF k(1,2) dm(2) k(3,4) i] by blast
    let ?f = "count_found truth (map snd (pq_drain pair_less r))"
    have "0 \<le> ?f" "?f \<le> topk" using count_found_bounds [where truth = truth and found = "map snd (pq_drain pair_less r)"] r(4) k(1) by (simp_all add: heap_simps)
    then have "P (Suc i) (fst s + ?f, g)" using P r(2) search_frame_trans [OF _ r(3)] by (simp add: P_def algebra_simps)
    then show "\<exists>s'. ?step s i = Inr s' \<and> P (Suc i) s'" using r(1) t by (auto simp: recall_step_def recall_truth_def)
  qed simp
  moreover have "int32 (n * topk) = Inr (n * topk)" using kn k dm(2) by (intro product_ok [THEN conjunct1]) simp_all
  ultimately show ?thesis using dm(2) by (auto simp: calculate_recall_def P_def)
qed

theorem calculate_recall_fraction_witness:
  "\<exists>h c h'. create_index demo_py 1 2 8 200 [2, 5] = Inr h \<and> calculate_recall demo_py floor h [2] (Some [0]) 1 1 1 1 = Inr ((c, 1), h') \<and> 0 \<le> c \<and> c \<le> 1"
proof -
  obtain h where h: "create_index demo_py 1 2 8 200 [2, 5] = Inr h" "hnsw_wf h"
    using create_index_ok [where dm = 1 and tr = 2 and M = 8 and efc = 200 and data = "[2, 5]", OF demo_data_ok(3,4)] by (auto simp: usable_def)
  then show ?thesis using calculate_recall_fraction [where dm = 1 and n = 1 and query_data = "[2]" and topk = 1 and dataset_topk = 1 and neigh = "[0]"
      and pe = demo_py and to_int = floor, OF h(2)] by auto
qed

end
