(* ===== verification/Spec2Isabelle.thy ===== *)
theory Spec2Isabelle
  imports Visited_List Space_L2 Space_IP Stop_Condition Lazy_Index Tools_Correct
begin

text \<open>
  A verification library for hnsw-rvv: approximate nearest-neighbour search with hierarchical navigable small worlds, with
  distance kernels for x86 and for the RISC-V vector extension. Paths are relative to \<open>src/\<close>; the C++ library is in
  \<open>include/hnswlib/hnswlib\<close>, the Python module in \<open>include/hnswlib/python_bindings\<close>.

  \<^bold>\<open>The parts and how they interact.\<close> A space (\<open>space_l2.h\<close>, \<open>space_ip.h\<close>) gives the size of a vector and a distance kernel,
  chosen by the dimension and by what the CPU can do. Two indexes answer queries over a space: \<open>BruteforceSearch\<close> scans all
  vectors, \<open>HierarchicalNSW\<close> walks a graph with several layers. The walks keep their candidates in priority queues
  and mark nodes in visited lists, which they take from a shared pool; a stop condition may steer them. The Python classes
  wrap an index and run insertions and queries on several threads. The programs of \<open>tools\<close> and \<open>src/hnsw_search.cpp\<close>
  create, convert and check data sets and run searches on them.

  \<^bold>\<open>Theories and sources.\<close>
  \<^item> \<open>Prelude\<close>: the result type of operations that can fail, its bind and loops; \<open>Bytes\<close>: memory and files as byte lists, and the
    stream helpers of \<open>hnswlib.h\<close>.
  \<^item> \<open>Std_Heap\<close>: \<open>std::priority_queue\<close> as the array heap of the C++ library, under the contract of the locale \<open>priority_queue\<close>.
  \<^item> \<open>Visited_List\<close>: \<open>visited_list_pool.h\<close>.
  \<^item> \<open>Cpu_Dispatch\<close>, \<open>Simd\<close>, \<open>Space_L2\<close>, \<open>Space_IP\<close>: the CPU checks of \<open>hnswlib.h\<close>, vector registers with the locale
    \<open>lane_kernel\<close> that every kernel of a fixed width interprets, and the two spaces.
  \<^item> \<open>Algorithm_Interface\<close>: the interfaces of \<open>hnswlib.h\<close>; both indexes interpret the locale \<open>algorithm_interface\<close>.
  \<^item> \<open>Bruteforce\<close>: \<open>bruteforce.h\<close>; \<open>Stop_Condition\<close>: \<open>stop_condition.h\<close>.
  \<^item> \<open>Hnsw_State\<close>, \<open>Hnsw_Search\<close>, \<open>Hnsw_Insert\<close>, \<open>Hnsw_Persist\<close>: the fields and operations of \<open>hnswalg.h\<close>. The record \<open>hnsw\<close> has
    the fields of the class; \<open>hnsw_wf\<close> is its invariant, \<open>layout_wf\<close> says that the offsets fit the sizes.
  \<^item> \<open>Hnsw_Search_Correct\<close>, \<open>Hnsw_Layer\<close>, \<open>Hnsw_Heuristic\<close>, \<open>Hnsw_Connect\<close>, \<open>Hnsw_Add\<close>, \<open>Hnsw_Update\<close>, \<open>Hnsw_Integrity\<close>,
    \<open>Hnsw_System\<close>: what these operations do.
  \<^item> \<open>Parallel_For\<close>, \<open>Py_Index\<close>, \<open>Py_Add\<close>, \<open>Py_Query\<close>, \<open>Py_Pickle\<close>: \<open>bindings.cpp\<close>; \<open>Lazy_Index\<close>: \<open>LazyIndex.py\<close>.
  \<^item> \<open>Dataset\<close>: \<open>utils/dataset.cpp\<close>; \<open>Tools\<close>, \<open>Tools_Correct\<close>: the programs.

  \<^bold>\<open>State and operations.\<close> An object is a record of its fields; an operation takes the object and returns the new one, or the error
  that stands for an exception, a failed assertion, an exit code or undefined behaviour such as an access outside an
  array. Operations that other code can observe half-way (the loops of the Python module) return the object together with the
  exception; in \<open>hnswalg.h\<close> an exception keeps no partly changed index. What comes from outside is an argument or a
  field of an environment record: the allocator, uninitialised memory, random draws, the iteration order of an
  \<open>unordered_set\<close> or \<open>unordered_map\<close>, \<open>cpuid\<close>, the compiler's vector reductions, the HDF5 library. Threads are schedules, the order
  in which they take their steps.

  \<^bold>\<open>What is shown.\<close>
  \<^item> Kernels and dispatch: each kernel computes the distance of the plain loop, the dispatch chooses one that the CPU supports, the
    byte kernels do not overflow below a stated dimension; with a tail-agnostic addition the RISC-V kernel can go wrong.
  \<^item> Containers: the heap is a priority queue; visited lists are fresh when they are handed out and never shared by two threads.
  \<^item> HNSW: every index that a program can build is well formed and its elements have the layout that the accessors assume;
    searches return distinct live elements with their true distances, and the nearest ones when the search is exhaustive, as
    the brute-force index does; insertion, update, replacement and deletion do what they promise; the neighbour heuristic
    selects a diverse set; saving and loading are inverse, and truncated files are refused.
  \<^item> Brute force: the search is exact, insertion refines the update of an association list, removal and reloading with their flaws.
  \<^item> Python module: the parallel loop calls each index exactly once and ends; adding and querying with any interleaving give
    the result of the rows one by one; pickling restores the index.
  \<^item> Programs: a created data set passes its check, a converted one reads back, the search program runs to its end.

  \<^bold>\<open>Termination and bounds.\<close> There is no fuel. The loops of the searches are total functions whose measures are proved (untagged nodes
  and candidates become fewer, or the distance strictly decreases). The RISC-V kernel is a partial function, since
  \<open>vsetvl\<close> is an argument, and is proved to return. A parallel loop is \<open>None\<close> when its schedule ends too
  early, and a fair schedule is proved to be long enough. Integers are naturals or integers where the theorems bound them by the width of
  the C++ type, and have their width where the code depends on wrapping (visited tags, byte kernels, counters, file headers).

  \<^bold>\<open>Not modelled.\<close>
  \<^item> Rounding of \<open>float\<close> and NaN: distances are elements of an ordered group or field. Theorems that compare orders of summation are about exact arithmetic.
  \<^item> Locks and simultaneous access inside one HNSW operation: threads interleave at the calls of \<open>addPoint\<close> and \<open>searchKnn\<close>.
  \<^item> The release of memory, prefetching, time measurement and console output.
  \<^item> The registration of the Python module with pybind11 and the build script, which have no logic of their own; the log and plot
    scripts, the examples and the tests, which only call the library.
  \<^item> \<open>gem5\<close>, a vendored copy of a simulator on which the programs are run.
\<close>

end
